(* ===== verification/Gateway_Prelude.thy ===== *)
theory Gateway_Prelude
  imports Complex_Main "HOL-Library.AList" "HOL-Library.Sublist"
begin

text \<open>
  Shared vocabulary of the development: the named fact collections the component theories
  fill, Python's built-in string methods and integer conversions as the gateway uses them,
  Python dictionaries as association lists in insertion order, and the result type that
  carries exceptions as values.

  A Python \<open>str\<close> is a HOL \<open>string\<close>, one \<open>char\<close> per code point, so texts range over the code
  points below 256.  A \<open>dict\<close> is an association list with distinct keys; assignment is the
  library's \<open>AList.update\<close>, which, like Python, overwrites in place and appends new keys.
\<close>

named_theorems gw_defs \<open>definitions unfolded by the component proofs\<close>
named_theorems gw_intros \<open>well-formedness facts used as introduction rules\<close>

subsection \<open>Results\<close>

text \<open>\<open>'e + 'a\<close> with \<open>Inl\<close> for a raised exception; \<open>bind_res\<close> is sequencing: the first exception wins.\<close>

fun bind_res :: "'e + 'a \<Rightarrow> ('a \<Rightarrow> 'e + 'b) \<Rightarrow> 'e + 'b" where
  "bind_res (Inl e) f = Inl e"
| "bind_res (Inr a) f = f a"

lemma bind_res_Inr_iff:
  "bind_res m f = Inr b \<longleftrightarrow> (\<exists>a. m = Inr a \<and> f a = Inr b)"
  by (cases m) auto

lemma bind_res_cong [fundef_cong]:
  assumes "m = m'" and "\<And>a. m' = Inr a \<Longrightarrow> f a = f' a"
  shows "bind_res m f = bind_res m' f'"
  using assms by (cases m') auto

text \<open>A loop over a list that threads a state and stops at the first exception.\<close>

fun fold_res :: "('x \<Rightarrow> 'a \<Rightarrow> 'e + 'a) \<Rightarrow> 'x list \<Rightarrow> 'a \<Rightarrow> 'e + 'a" where
  "fold_res f [] a = Inr a"
| "fold_res f (x # xs) a = bind_res (f x a) (fold_res f xs)"

lemma fold_res_append: "fold_res f (xs @ ys) a = bind_res (fold_res f xs a) (fold_res f ys)"
proof (induction xs arbitrary: a)
  case (Cons x xs)
  then show ?case by (cases "f x a") simp_all
qed simp

lemma fold_res_inv:
  assumes "fold_res f xs a = Inr b" and "I a"
    and "\<And>x a b. x \<in> set xs \<Longrightarrow> f x a = Inr b \<Longrightarrow> I a \<Longrightarrow> I b"
  shows "I b"
  using assms
proof (induction xs arbitrary: a)
  case (Cons x xs)
  from Cons.prems(1) obtain a' where a': "f x a = Inr a'" "fold_res f xs a' = Inr b"
    by (auto simp: bind_res_Inr_iff)
  show ?case
    by (rule Cons.IH [OF a'(2)]) (use Cons.prems(2,3) a'(1) in auto)
qed simp

subsection \<open>String methods\<close>

definition py_startswith :: "string \<Rightarrow> string \<Rightarrow> bool" where
  "py_startswith s p \<longleftrightarrow> take (length p) s = p"

lemma py_startswith_append [simp]: "py_startswith (p @ s) p"
  by (simp add: py_startswith_def)

lemma py_startswith_iff: "py_startswith s p \<longleftrightarrow> (\<exists>t. s = p @ t)"
  by (metis append_eq_conv_conj append_take_drop_id py_startswith_def)

text \<open>\<open>str.isspace\<close> on the code points below 256.\<close>

definition py_space :: "char \<Rightarrow> bool" where
  "py_space c \<longleftrightarrow> c \<in> {CHR 0x09, CHR 0x0A, CHR 0x0B, CHR 0x0C, CHR 0x0D,
                       CHR 0x1C, CHR 0x1D, CHR 0x1E, CHR 0x1F, CHR 0x20, CHR 0x85, CHR 0xA0}"

definition rstrip_while :: "(char \<Rightarrow> bool) \<Rightarrow> string \<Rightarrow> string" where
  "rstrip_while p s = rev (dropWhile p (rev s))"

definition py_strip :: "string \<Rightarrow> string" where
  "py_strip s = rstrip_while py_space (dropWhile py_space s)"

definition py_rstrip_char :: "char \<Rightarrow> string \<Rightarrow> string" where
  "py_rstrip_char c s = rstrip_while (\<lambda>d. d = c) s"

lemma rstrip_while_Nil [simp]: "rstrip_while p [] = []"
  by (simp add: rstrip_while_def)

lemma rstrip_while_snoc [simp]:
  "rstrip_while p (s @ [c]) = (if p c then rstrip_while p s else s @ [c])"
  by (simp add: rstrip_while_def)

lemma rstrip_while_append_all:
  "\<forall>c \<in> set t. p c \<Longrightarrow> rstrip_while p (s @ t) = rstrip_while p s"
  by (simp add: rstrip_while_def dropWhile_append)

lemma rstrip_while_last: "s \<noteq> [] \<Longrightarrow> \<not> p (last s) \<Longrightarrow> rstrip_while p s = s"
  by (cases s rule: rev_cases) auto

lemma py_strip_id:
  "s \<noteq> [] \<Longrightarrow> \<not> py_space (hd s) \<Longrightarrow> \<not> py_space (last s) \<Longrightarrow> py_strip s = s"
  by (cases s) (auto simp: py_strip_def intro: rstrip_while_last)

lemma py_strip_idem [simp]: "py_strip (py_strip s) = py_strip s"
proof (cases "py_strip s = []")
  case True
  then show ?thesis by (simp add: py_strip_def)
next
  case False
  define t where "t = dropWhile py_space s"
  have st: "py_strip s = rstrip_while py_space t"
    by (simp add: py_strip_def t_def)
  have "rev (rstrip_while py_space t) = dropWhile py_space (rev t)"
    by (simp add: rstrip_while_def)
  with False st have "\<not> py_space (hd (rev (py_strip s)))"
    by (metis hd_dropWhile rev_is_Nil_conv)
  then have last: "\<not> py_space (last (py_strip s))"
    by (simp add: hd_rev)
  obtain u where u: "t = rstrip_while py_space t @ u"
    by (metis append_take_drop_id dropWhile_eq_drop rev_append rev_rev_ident rstrip_while_def)
  with False st have "t \<noteq> []" and "hd t = hd (py_strip s)"
    by (metis append_is_Nil_conv) (metis False hd_append2 st u)
  then have "\<not> py_space (hd (py_strip s))"
    by (metis hd_dropWhile t_def)
  with False last show ?thesis by (intro py_strip_id)
qed

subsection \<open>Lists\<close>

lemma update_fresh: "k \<notin> fst ` set al \<Longrightarrow> AList.update k v al = al @ [(k, v)]"
  by (induction al) auto

lemma filter_eq_ConsD: "filter P xs = x # ys \<Longrightarrow> x \<in> set xs \<and> P x"
  by (auto simp: filter_eq_Cons_iff)

lemma subseq_distinctI: "subseq xs ys \<Longrightarrow> distinct ys \<Longrightarrow> distinct xs"
proof (induction rule: list_emb.induct)
  case (list_emb_Cons2 x y xs ys)
  then show ?case by (auto dest: list_emb_set)
qed auto

end
