(* ===== verification/Py_Numbers.thy ===== *)
theory Py_Numbers
  imports Gateway_Prelude
begin

text \<open>
  Python's numbers as the gateway uses them.  Integers are unbounded (\<open>int\<close>); this theory
  holds their decimal notation, \<open>str(i)\<close> and \<open>int(s)\<close>, and the part of \<open>decimal.Decimal\<close>
  (context precision 28, ROUND_HALF_EVEN) that the cost computation of
  \<open>services/metrics.py\<close> runs: product with an integer, division by a million, sum and
  comparison.
\<close>

subsection \<open>Decimal notation of integers\<close>

definition digit_char :: "nat \<Rightarrow> char" where
  "digit_char n = char_of (48 + n)"

definition digit_val :: "char \<Rightarrow> nat" where
  "digit_val c = of_char c - 48"

definition is_digit :: "char \<Rightarrow> bool" where
  "is_digit c \<longleftrightarrow> 48 \<le> (of_char c :: nat) \<and> (of_char c :: nat) \<le> 57"

fun digits_of_nat :: "nat \<Rightarrow> string" where
  "digits_of_nat n =
     (if n < 10 then [digit_char n] else digits_of_nat (n div 10) @ [digit_char (n mod 10)])"

declare digits_of_nat.simps [simp del]

definition nat_of_digits :: "string \<Rightarrow> nat" where
  "nat_of_digits = foldl (\<lambda>a c. 10 * a + digit_val c) 0"

definition str_int :: "int \<Rightarrow> string" where
  "str_int i = (if i < 0 then CHR ''-'' # digits_of_nat (nat (- i)) else digits_of_nat (nat i))"

lemma is_digit_digit_char [simp]: "n < 10 \<Longrightarrow> is_digit (digit_char n)"
  by (simp add: is_digit_def digit_char_def)

lemma digit_val_digit_char [simp]: "n < 10 \<Longrightarrow> digit_val (digit_char n) = n"
  by (simp add: digit_val_def digit_char_def)

lemma char_of_48: "char_of (48 :: nat) = CHR ''0''"
  by code_simp

lemma digit_char_eq_0 [simp]:
  assumes "n < 10"
  shows "digit_char n = CHR ''0'' \<longleftrightarrow> n = 0"
proof
  assume "digit_char n = CHR ''0''"
  then have "digit_val (digit_char n) = digit_val (CHR ''0'')" by simp
  moreover have "digit_val (CHR ''0'') = 0" by (simp add: digit_val_def)
  ultimately show "n = 0" using assms by simp
qed (simp add: digit_char_def char_of_48)

lemma digits_of_nat_nonempty [simp]: "digits_of_nat n \<noteq> []"
  by (subst digits_of_nat.simps) simp

lemma digits_of_nat_digits: "c \<in> set (digits_of_nat n) \<Longrightarrow> is_digit c"
  by (induction n rule: digits_of_nat.induct)
    (subst (asm) (2) digits_of_nat.simps, auto split: if_splits)

lemma nat_of_digits_snoc [simp]: "nat_of_digits (s @ [c]) = 10 * nat_of_digits s + digit_val c"
  by (simp add: nat_of_digits_def)

lemma nat_of_digits_of_nat [simp]: "nat_of_digits (digits_of_nat n) = n"
proof (induction n rule: digits_of_nat.induct)
  case (1 n)
  show ?case
  proof (cases "n < 10")
    case True
    then show ?thesis by (subst digits_of_nat.simps) (simp add: nat_of_digits_def)
  next
    case False
    with 1 have "nat_of_digits (digits_of_nat (n div 10)) = n div 10" by simp
    with False show ?thesis by (subst digits_of_nat.simps) simp
  qed
qed

lemma digits_of_nat_hd: "hd (digits_of_nat n) = CHR ''0'' \<longleftrightarrow> n = 0"
proof (induction n rule: digits_of_nat.induct)
  case (1 n)
  show ?case
  proof (cases "n < 10")
    case True
    then show ?thesis by (subst digits_of_nat.simps) simp
  next
    case False
    with 1 have "hd (digits_of_nat (n div 10)) \<noteq> CHR ''0''" by simp
    with False show ?thesis by (subst digits_of_nat.simps) simp
  qed
qed

lemma digits_of_nat_0 [simp]: "digits_of_nat 0 = ''0''"
  by (subst digits_of_nat.simps) (simp add: digit_char_def char_of_48)

subsection \<open>\<open>int(s)\<close>\<close>

text \<open>
  \<open>int(s)\<close> on a text: surrounding white space is dropped, one sign is allowed, and the
  digits may be grouped by single underscores; anything else raises \<open>ValueError\<close>, here
  \<open>None\<close>.  \<open>str.isdigit\<close> is wider than what \<open>int\<close> reads: it also accepts the
  superscripts one, two and three (code points B9, B2 and B3).
\<close>

definition py_isdigit_char :: "char \<Rightarrow> bool" where
  "py_isdigit_char c \<longleftrightarrow> is_digit c \<or> c \<in> {CHR 0xB2, CHR 0xB3, CHR 0xB9}"

definition py_isdigit :: "string \<Rightarrow> bool" where
  "py_isdigit s \<longleftrightarrow> s \<noteq> [] \<and> list_all py_isdigit_char s"

fun int_body :: "string \<Rightarrow> string option" where
  \<comment> \<open>the digits of a literal body, its grouping underscores removed\<close>
  "int_body [] = None"
| "int_body [c] = (if is_digit c then Some [c] else None)"
| "int_body (c # d # s) =
     (if \<not> is_digit c then None
      else if d = CHR ''_'' then map_option (Cons c) (int_body s)
      else map_option (Cons c) (int_body (d # s)))"

definition py_int :: "string \<Rightarrow> int option" where
  "py_int s =
     (case py_strip s of
        [] \<Rightarrow> None
      | c # r \<Rightarrow>
          (if c = CHR ''-'' then map_option (\<lambda>ds. - int (nat_of_digits ds)) (int_body r)
           else if c = CHR ''+'' then map_option (\<lambda>ds. int (nat_of_digits ds)) (int_body r)
           else map_option (\<lambda>ds. int (nat_of_digits ds)) (int_body (c # r))))"

lemma int_body_digits: "s \<noteq> [] \<Longrightarrow> \<forall>c \<in> set s. is_digit c \<Longrightarrow> int_body s = Some s"
proof (induction s rule: int_body.induct)
  case (3 c d s)
  then have "d \<noteq> CHR ''_''" by (auto simp: is_digit_def)
  with 3 show ?case by simp
qed auto

lemma digit_not_space: "is_digit c \<Longrightarrow> \<not> py_space c"
  by (auto simp: is_digit_def py_space_def)

lemma minus_not_space: "\<not> py_space (CHR ''-'')"
  by (simp add: py_space_def)

lemma py_strip_digits: "s \<noteq> [] \<Longrightarrow> \<forall>c \<in> set s. is_digit c \<Longrightarrow> py_strip s = s"
  by (rule py_strip_id) (auto simp: digit_not_space)

lemma digits_hd_not_sign:
  "is_digit c \<Longrightarrow> c \<noteq> CHR ''-'' \<and> c \<noteq> CHR ''+''"
  by (auto simp: is_digit_def)

text \<open>\<open>int(str(i)) == i\<close>.\<close>

lemma py_int_str_int: "py_int (str_int i) = Some i"
proof (cases "i < 0")
  case True
  let ?d = "digits_of_nat (nat (- i))"
  have d: "\<forall>c \<in> set ?d. is_digit c" by (simp add: digits_of_nat_digits)
  have "py_strip (CHR ''-'' # ?d) = CHR ''-'' # ?d"
    by (rule py_strip_id) (simp_all add: minus_not_space digit_not_space d)
  with True d show ?thesis by (simp add: py_int_def str_int_def int_body_digits)
next
  case False
  let ?d = "digits_of_nat (nat i)"
  have d: "\<forall>c \<in> set ?d. is_digit c" by (simp add: digits_of_nat_digits)
  obtain c r where cr: "?d = c # r" by (cases ?d) auto
  with d have "is_digit c" by simp
  with False d cr show ?thesis
    using digits_hd_not_sign [OF \<open>is_digit c\<close>] int_body_digits [of ?d] py_strip_digits [of ?d]
      nat_of_digits_of_nat [of "nat i"]
    by (simp add: py_int_def str_int_def)
qed

subsection \<open>\<open>decimal.Decimal\<close>\<close>

text \<open>
  A finite \<open>Decimal\<close> is a coefficient and a power of ten.  Two representations of one value
  differ in the trailing zeros of the coefficient only; \<open>dec_val\<close> is the value.
\<close>

record dec =
  coef :: int
  expo :: int

definition dec_val :: "dec \<Rightarrow> rat" where
  "dec_val d = of_int (coef d) * 10 powi expo d"

definition mk_dec :: "int \<Rightarrow> int \<Rightarrow> dec" where
  "mk_dec c e = \<lparr>coef = c, expo = e\<rparr>"

definition dec_zero :: dec where
  "dec_zero = mk_dec 0 0"

definition num_digits :: "int \<Rightarrow> nat" where
  "num_digits c = length (digits_of_nat (nat \<bar>c\<bar>))"

text \<open>The context of the \<open>decimal\<close> module: 28 significant digits, ties to even.\<close>

definition dec_prec :: nat where
  "dec_prec = 28"

definition round_half_even :: "int \<Rightarrow> int \<Rightarrow> int" where
  "round_half_even c m =
     (let q = \<bar>c\<bar> div m; r = \<bar>c\<bar> mod m
      in sgn c * (if m < 2 * r \<or> (2 * r = m \<and> odd q) then q + 1 else q))"

definition dec_fix :: "dec \<Rightarrow> dec" where
  "dec_fix d =
     (if num_digits (coef d) \<le> dec_prec then d
      else let k = num_digits (coef d) - dec_prec
           in mk_dec (round_half_even (coef d) (10 ^ k)) (expo d + int k))"

definition dec_mul_int :: "dec \<Rightarrow> int \<Rightarrow> dec" where
  "dec_mul_int d n = dec_fix (mk_dec (coef d * n) (expo d))"

text \<open>
  A quotient by \<open>Decimal(1_000_000)\<close> needs no rounding: the exponent moves, and zeros at the end are taken off as far as
  the exponent of the dividend.
\<close>

primrec strip_zeros :: "nat \<Rightarrow> dec \<Rightarrow> dec" where
  "strip_zeros 0 d = d"
| "strip_zeros (Suc n) d =
     (if coef d mod 10 = 0 then strip_zeros n (mk_dec (coef d div 10) (expo d + 1)) else d)"

definition dec_div_million :: "dec \<Rightarrow> dec" where
  "dec_div_million d = strip_zeros 6 (mk_dec (coef d) (expo d - 6))"

definition dec_add :: "dec \<Rightarrow> dec \<Rightarrow> dec" where
  "dec_add a b =
     (let e = min (expo a) (expo b)
      in dec_fix (mk_dec (coef a * 10 ^ nat (expo a - e) + coef b * 10 ^ nat (expo b - e)) e))"

lemma coef_mk_dec [simp]: "coef (mk_dec c e) = c"
  and expo_mk_dec [simp]: "expo (mk_dec c e) = e"
  by (simp_all add: mk_dec_def)

lemma dec_val_nonneg_iff: "0 \<le> dec_val d \<longleftrightarrow> 0 \<le> coef d"
proof -
  have "0 < (10 :: rat) powi expo d" by simp
  then have "\<not> (10 :: rat) powi expo d \<le> 0" by linarith
  then show ?thesis by (simp add: dec_val_def zero_le_mult_iff)
qed

lemma dec_val_zero [simp]: "dec_val dec_zero = 0"
  by (simp add: dec_val_def dec_zero_def)

lemma round_half_even_nonneg: "0 \<le> c \<Longrightarrow> 0 < m \<Longrightarrow> 0 \<le> round_half_even c m"
  by (auto simp: round_half_even_def Let_def pos_imp_zdiv_nonneg_iff sgn_if)

lemma dec_fix_nonneg: "0 \<le> coef d \<Longrightarrow> 0 \<le> coef (dec_fix d)"
  by (simp add: dec_fix_def Let_def round_half_even_nonneg)

lemma dec_mul_int_nonneg: "0 \<le> coef d \<Longrightarrow> 0 \<le> n \<Longrightarrow> 0 \<le> coef (dec_mul_int d n)"
  by (simp add: dec_mul_int_def dec_fix_nonneg)

lemma strip_zeros_nonneg: "0 \<le> coef d \<Longrightarrow> 0 \<le> coef (strip_zeros n d)"
  by (induction n arbitrary: d) (simp_all add: pos_imp_zdiv_nonneg_iff)

lemma strip_zeros_val: "dec_val (strip_zeros n d) = dec_val d"
proof (induction n arbitrary: d)
  case (Suc n)
  have "rat_of_int (coef d div 10) * 10 powi (expo d + 1) = rat_of_int (coef d) * 10 powi expo d" if "coef d mod 10 = 0"
  proof -
    from that obtain k where "coef d = 10 * k" by auto
    then show ?thesis by (simp add: power_int_add)
  qed
  then show ?case by (simp add: Suc dec_val_def [of "mk_dec c e" for c e]) (simp add: dec_val_def)
qed simp

lemma strip_zeros_expo: "expo d \<le> expo (strip_zeros n d)"
proof (induction n arbitrary: d)
  case (Suc n)
  show ?case using Suc [of "mk_dec (coef d div 10) (expo d + 1)"] by simp
qed simp

lemma dec_div_million_nonneg: "0 \<le> coef d \<Longrightarrow> 0 \<le> coef (dec_div_million d)"
  by (simp add: dec_div_million_def strip_zeros_nonneg)

lemma dec_add_nonneg: "0 \<le> coef a \<Longrightarrow> 0 \<le> coef b \<Longrightarrow> 0 \<le> coef (dec_add a b)"
  by (simp add: dec_add_def Let_def dec_fix_nonneg)

lemmas dec_nonneg_intros [gw_intros] =
  dec_mul_int_nonneg dec_div_million_nonneg dec_add_nonneg

lemma dec_div_million_val: "dec_val (dec_div_million d) = dec_val d / 1000000"
  by (simp add: dec_div_million_def strip_zeros_val) (simp add: dec_val_def power_int_diff)

lemma dec_div_million_expo: "expo d - 6 \<le> expo (dec_div_million d)"
  unfolding dec_div_million_def using strip_zeros_expo [of "mk_dec (coef d) (expo d - 6)" 6] by simp

text \<open>Below 28 significant digits nothing is rounded.\<close>

lemma digits_of_nat_length: "n < 10 ^ k \<Longrightarrow> 0 < k \<Longrightarrow> length (digits_of_nat n) \<le> k"
proof (induction n arbitrary: k rule: digits_of_nat.induct)
  case (1 n)
  show ?case
  proof (cases "n < 10")
    case True
    with 1 show ?thesis by (subst digits_of_nat.simps) simp
  next
    case False
    with "1.prems" obtain j where k: "k = Suc j" and "0 < j"
      by (cases k; cases "k = 1") auto
    from "1.prems" k have "n div 10 < 10 ^ j" by (simp add: less_mult_imp_div_less mult.commute)
    with 1 False \<open>0 < j\<close> have "length (digits_of_nat (n div 10)) \<le> j" by simp
    with False k show ?thesis by (subst digits_of_nat.simps) simp
  qed
qed

lemma num_digits_le: "\<bar>c\<bar> < 10 ^ k \<Longrightarrow> 0 < k \<Longrightarrow> num_digits c \<le> k"
  by (simp add: num_digits_def digits_of_nat_length nat_less_iff)

lemma dec_fix_exact: "\<bar>coef d\<bar> < 10 ^ dec_prec \<Longrightarrow> dec_fix d = d"
  by (simp add: dec_fix_def num_digits_le dec_prec_def)

lemma dec_mul_int_exact:
  "\<bar>coef d * n\<bar> < 10 ^ dec_prec \<Longrightarrow> dec_val (dec_mul_int d n) = dec_val d * of_int n"
  by (simp add: dec_mul_int_def dec_fix_exact) (simp add: dec_val_def)

lemma powi_align: "e \<le> f \<Longrightarrow> (10 :: rat) ^ nat (f - e) * 10 powi e = 10 powi f"
proof -
  assume "e \<le> f"
  then have "(10 :: rat) ^ nat (f - e) = 10 powi (f - e)" by (simp add: power_int_def)
  then show ?thesis by (simp flip: power_int_add)
qed

lemma dec_add_exact:
  assumes "\<bar>dec_val a + dec_val b\<bar> < 10 ^ dec_prec * 10 powi min (expo a) (expo b)"
  shows "dec_val (dec_add a b) = dec_val a + dec_val b"
proof -
  let ?e = "min (expo a) (expo b)"
  let ?c = "coef a * 10 ^ nat (expo a - ?e) + coef b * 10 ^ nat (expo b - ?e)"
  have "of_int ?c * 10 powi ?e = of_int (coef a) * (10 ^ nat (expo a - ?e) * 10 powi ?e)
                 + of_int (coef b) * (10 ^ nat (expo b - ?e) * 10 powi ?e)"
    by (simp add: algebra_simps)
  also have "\<dots> = dec_val a + dec_val b"
    by (simp add: powi_align dec_val_def)
  finally have c: "of_int ?c * 10 powi ?e = dec_val a + dec_val b" .
  have "\<bar>rat_of_int ?c\<bar> * 10 powi ?e < 10 ^ dec_prec * 10 powi ?e"
    using assms unfolding c [symmetric] by (simp add: abs_mult)
  then have "\<bar>rat_of_int ?c\<bar> < 10 ^ dec_prec" by (simp only: mult_less_cancel_right_pos zero_less_power_int zero_less_numeral)
  then have "rat_of_int \<bar>?c\<bar> < rat_of_int (10 ^ dec_prec)" by simp
  then have "\<bar>?c\<bar> < 10 ^ dec_prec" by (simp only: of_int_less_iff)
  then have "dec_add a b = mk_dec ?c ?e" by (simp add: dec_add_def dec_fix_exact Let_def)
  then show ?thesis using c by (simp add: dec_val_def)
qed

text \<open>\<open>str(d)\<close>: plain notation unless the exponent is positive or the value is very small.\<close>

definition dec_str :: "dec \<Rightarrow> string" where
  "dec_str d =
     (let ds = digits_of_nat (nat \<bar>coef d\<bar>);
          n = int (length ds);
          left = expo d + n;
          dot = (if expo d \<le> 0 \<and> - 6 < left then left else 1);
          body = (if dot \<le> 0 then ''0.'' @ replicate (nat (- dot)) (CHR ''0'') @ ds
                  else if n \<le> dot then ds @ replicate (nat (dot - n)) (CHR ''0'')
                  else take (nat dot) ds @ ''.'' @ drop (nat dot) ds)
      in (if coef d < 0 then ''-'' else []) @ body @
         (if left = dot then []
          else ''E'' @ (if dot \<le> left then ''+'' else []) @ str_int (left - dot)))"

subsection \<open>Floats\<close>

text \<open>
  A \<open>float\<close> is its value together with its \<open>repr\<close>, which Python guarantees to determine it.
\<close>

record pyfloat =
  fval :: rat
  frepr :: string

definition mk_float :: "rat \<Rightarrow> string \<Rightarrow> pyfloat" where
  "mk_float x t = \<lparr>fval = x, frepr = t\<rparr>"

lemma fval_mk_float [simp]: "fval (mk_float x t) = x"
  and frepr_mk_float [simp]: "frepr (mk_float x t) = t"
  by (simp_all add: mk_float_def)

text \<open>
  \<open>Decimal(str(x))\<close> for a finite float: the decimal its \<open>repr\<close> denotes, such as \<open>0.1\<close>, \<open>5.0\<close> or \<open>1e-07\<close>.
\<close>

definition dec_of_repr :: "string \<Rightarrow> dec" where
  "dec_of_repr t =
     (let neg = (take 1 t = ''-'');
          u = (if neg then tl t else t);
          m = takeWhile (\<lambda>c. c \<noteq> CHR ''e'') u;
          ex = drop (length m + 1) u;
          ip = takeWhile (\<lambda>c. c \<noteq> CHR ''.'') m;
          fp = drop (length ip + 1) m;
          c = int (nat_of_digits (ip @ fp));
          e = (case py_int ex of None \<Rightarrow> 0 | Some i \<Rightarrow> i)
      in mk_dec (if neg then - c else c) (e - int (length fp)))"

definition dec_of_float :: "pyfloat \<Rightarrow> dec" where
  "dec_of_float x = dec_of_repr (frepr x)"

end
