(* ===== verification/Core_Config.thy ===== *)
theory Core_Config
  imports Py_Numbers
begin

text \<open>
  \<open>core/config.py\<close>: the settings the request path reads, those of the process around it, their defaults and the
  two field validators.  A raw setting is a text from the environment or \<open>.env\<close>, or absent.
\<close>

record settings =
  OPENAI_API_KEY :: "string option"
  ANTHROPIC_API_KEY :: "string option"
  MISTRAL_API_KEY :: "string option"
  GROQ_API_KEY :: "string option"
  GEMINI_API_KEY :: "string option"
  DEEPSEEK_API_KEY :: "string option"
  DEEPSEEK_BASE_URL :: string
  OLLAMA_ENABLED :: bool
  OLLAMA_BASE_URL :: string
  OLLAMA_API_KEY :: "string option"
  CACHE_TTL_SECONDS :: int
  RATE_LIMIT_REQUESTS :: int
  RATE_LIMIT_WINDOW_SECONDS :: int
  RATE_LIMIT_FAIL_OPEN :: bool
  GLOBAL_SPEND_LIMIT_USD :: "pyfloat option"
  MAX_TOKENS_PER_REQUEST :: int

definition default_settings :: settings where
  "default_settings =
     \<lparr>OPENAI_API_KEY = None, ANTHROPIC_API_KEY = None, MISTRAL_API_KEY = None,
      GROQ_API_KEY = None, GEMINI_API_KEY = None, DEEPSEEK_API_KEY = None,
      DEEPSEEK_BASE_URL = ''https://api.deepseek.com/v1'',
      OLLAMA_ENABLED = False, OLLAMA_BASE_URL = ''http://localhost:11434/v1'', OLLAMA_API_KEY = None,
      CACHE_TTL_SECONDS = 300, RATE_LIMIT_REQUESTS = 60, RATE_LIMIT_WINDOW_SECONDS = 60,
      RATE_LIMIT_FAIL_OPEN = False, GLOBAL_SPEND_LIMIT_USD = None, MAX_TOKENS_PER_REQUEST = 4096\<rparr>"

text \<open>The settings of the process around the request path.\<close>

datatype environment = Development | Production

record process_settings =
  GATEWAY_HOST :: string
  GATEWAY_PORT :: int
  ENVIRONMENT :: environment
  LOG_LEVEL :: string
  DATABASE_URL :: string
  REDIS_URL :: string
  REDIS_SOCKET_TIMEOUT_SECONDS :: rat
  REDIS_SOCKET_CONNECT_TIMEOUT_SECONDS :: rat

definition default_process_settings :: process_settings where
  "default_process_settings =
     \<lparr>GATEWAY_HOST = ''0.0.0.0'', GATEWAY_PORT = 8000, ENVIRONMENT = Development, LOG_LEVEL = ''INFO'',
      DATABASE_URL = ''sqlite+aiosqlite:///./llm_gateway.db'', REDIS_URL = ''redis://redis:6379/0'',
      REDIS_SOCKET_TIMEOUT_SECONDS = 5, REDIS_SOCKET_CONNECT_TIMEOUT_SECONDS = 2\<rparr>"

definition blank_spend_limit_means_unset :: "string option \<Rightarrow> string option" where
  "blank_spend_limit_means_unset value =
     (case value of None \<Rightarrow> None | Some s \<Rightarrow> if py_strip s = [] then None else Some s)"

definition positive_redis_timeout :: "rat \<Rightarrow> string + rat" where
  "positive_redis_timeout value =
     (if value \<le> 0 then Inl ''os timeouts do Redis precisam ser maiores que zero'' else Inr value)"

text \<open>What the validators let through: no blank limit, and timeouts the Redis client does not take as immediate.\<close>

lemma blank_limit_unset: "blank_spend_limit_means_unset (Some s) = None \<longleftrightarrow> py_strip s = []"
  by (simp add: blank_spend_limit_means_unset_def)

lemma redis_timeout_positive: "positive_redis_timeout v = Inr u \<longleftrightarrow> u = v \<and> 0 < v"
  by (auto simp: positive_redis_timeout_def)

lemma default_timeouts_accepted:
  "positive_redis_timeout (REDIS_SOCKET_TIMEOUT_SECONDS default_process_settings) = Inr 5"
  "positive_redis_timeout (REDIS_SOCKET_CONNECT_TIMEOUT_SECONDS default_process_settings) = Inr 2"
  by (simp_all add: default_process_settings_def positive_redis_timeout_def)

end
