(* ===== verification/Core_Errors.thy ===== *)
theory Core_Errors
  imports Py_Numbers
begin

text \<open>
  The exceptions of \<open>core/exceptions.py\<close>, the HTTP errors the routes raise, and the mapping
  of a failed upstream call to a provider error in \<open>providers/base.py\<close>.  A raised exception
  is a value of \<open>exn\<close>; besides the application's own classes it has the built-in ones the code
  lets escape.
\<close>

subsection \<open>core/exceptions.py\<close>

text \<open>
  \<open>ProviderError\<close> and its three subclasses.  The two strings are the message and the
  \<open>provider\<close> attribute; a rate-limit error also carries the upstream \<open>Retry-After\<close>.
\<close>

datatype provider_error =
    ProviderError (pe_message: string) (pe_provider: string)
  | ProviderTimeoutError (pe_message: string) (pe_provider: string)
  | ProviderRateLimitedError (pe_message: string) (pe_provider: string) (pe_retry_after: "string option")
  | ProviderAuthError (pe_message: string) (pe_provider: string)

record no_provider_available =
  npa_message :: string
  attempted_providers :: "string list"
  last_error :: "provider_error option"

text \<open>\<open>HTTPException\<close>: a plain detail text, or the OpenAI-style error object.\<close>

datatype http_detail =
    PlainDetail string
  | ErrorDetail (ed_message: string) (ed_type: string) (ed_attempted: "string list option")

record http_exception =
  status_code :: nat
  detail :: http_detail
  exc_headers :: "(string \<times> string) list"

datatype exn =
    ProviderExn provider_error
  | NoProviderExn no_provider_available
  | InvalidVirtualKeyExn string
  | HttpExn http_exception
  | ValueErr string
  | KeyErr string
  | IndexErr
  | TypeErr
  | AttributeErr
  | InvalidStateErr
  | DbErr string

text \<open>\<open>isinstance(exc, ValueError)\<close> and \<open>isinstance(exc, KeyError)\<close>: all that \<open>_parse_response\<close> wraps.\<close>

fun is_value_or_key_error :: "exn \<Rightarrow> bool" where
  "is_value_or_key_error (ValueErr m) = True"
| "is_value_or_key_error (KeyErr k) = True"
| "is_value_or_key_error _ = False"

text \<open>\<open>str(exc)\<close>; a \<open>KeyError\<close> shows the key's \<open>repr\<close>.\<close>

fun exn_text :: "exn \<Rightarrow> string" where
  "exn_text (ValueErr m) = m"
| "exn_text (KeyErr k) = [CHR 0x27] @ k @ [CHR 0x27]"
| "exn_text (ProviderExn e) = pe_message e"
| "exn_text (NoProviderExn e) = npa_message e"
| "exn_text (InvalidVirtualKeyExn m) = m"
| "exn_text _ = []"

subsection \<open>providers/base.py: failed calls\<close>

text \<open>
  What \<open>httpx\<close> reports of a failed call: \<open>TimeoutException\<close>, \<open>HTTPStatusError\<close> with the status
  and the \<open>retry-after\<close> header, or another \<open>RequestError\<close> with its text.
\<close>

datatype http_failure =
    TimeoutException
  | HTTPStatusError nat "string option"
  | RequestError string

definition map_provider_error :: "string \<Rightarrow> pyfloat \<Rightarrow> http_failure \<Rightarrow> provider_error" where
  "map_provider_error name timeout exc =
     (case exc of
        TimeoutException \<Rightarrow>
          ProviderTimeoutError
            (''Provider '' @ [CHR 0x27] @ name @ [CHR 0x27] @ '' timed out after '' @ frepr timeout @ ''s'') name
      | HTTPStatusError status retry_after \<Rightarrow>
          (if status = 429 then
             ProviderRateLimitedError
               (''Provider '' @ [CHR 0x27] @ name @ [CHR 0x27] @ '' rate limited (429)'') name retry_after
           else if status = 401 then
             ProviderAuthError (''Provider '' @ [CHR 0x27] @ name @ [CHR 0x27] @ '' auth failed (401)'') name
           else
             ProviderError
               (''Provider '' @ [CHR 0x27] @ name @ [CHR 0x27] @ '' returned HTTP '' @ str_int (int status)) name)
      | RequestError m \<Rightarrow>
          ProviderError (''Provider '' @ [CHR 0x27] @ name @ [CHR 0x27] @ '' request failed: '' @ m) name)"

text \<open>
  \<open>BaseProvider._parse_response\<close>: \<open>body\<close> is \<open>response.json()\<close>, \<open>None\<close> when the upstream sent no JSON
  (a \<open>ValueError\<close>); \<open>parse\<close> is the adapter's translation.  Only \<open>ValueError\<close> and \<open>KeyError\<close>
  become a \<open>ProviderError\<close>; any other exception escapes as it is.
\<close>

definition parse_response ::
    "string \<Rightarrow> 'j option \<Rightarrow> ('j \<Rightarrow> exn + 'r) \<Rightarrow> exn + 'r" where
  "parse_response name body parse =
     (case (case body of None \<Rightarrow> Inl (ValueErr ''invalid JSON'') | Some data \<Rightarrow> parse data) of
        Inr r \<Rightarrow> Inr r
      | Inl e \<Rightarrow>
          (if is_value_or_key_error e then
             Inl (ProviderExn (ProviderError
               (''Provider '' @ [CHR 0x27] @ name @ [CHR 0x27] @ '' returned an unparseable response: '' @ exn_text e)
               name))
           else Inl e))"

lemma map_provider_error_provider [simp]: "pe_provider (map_provider_error name t e) = name"
  by (auto simp: map_provider_error_def split: http_failure.splits)

lemma parse_response_Inr_iff:
  "parse_response name body parse = Inr r \<longleftrightarrow> (\<exists>data. body = Some data \<and> parse data = Inr r)"
  by (auto simp: parse_response_def split: option.splits sum.splits if_splits)

lemma parse_response_Inl:
  "parse_response name body parse = Inl e \<Longrightarrow>
     (\<exists>m. e = ProviderExn (ProviderError m name)) \<or>
     (\<exists>data. body = Some data \<and> parse data = Inl e \<and> \<not> is_value_or_key_error e)"
  by (auto simp: parse_response_def split: option.splits sum.splits if_splits)

end
