(* ===== verification/Json_Text.thy ===== *)
theory Json_Text
  imports Py_Numbers
begin

text \<open>
  Python's \<open>json\<close> module as the gateway uses it: \<open>json.dumps\<close> with its default separators
  (the SSE events) and with \<open>separators=(",", ":")\<close>, \<open>sort_keys=True\<close> (the cache key), and
  \<open>json.loads\<close>.  A float is its literal text, which determines it.  The reader recurses on
  fuel; \<open>loads\<close> hands it twice the length of the text, and \<open>parse_val_fuel\<close> shows that a
  result found with any amount is found with that one.  The printer/reader round trip closes the theory and
  is offered to the clients as the interpretation of an interface, \<open>json_codec\<close>.
\<close>

datatype json =
    JNull
  | JBool bool
  | JInt int
  | JFloat string
  | JStr string
  | JArr "json list"
  | JObj "(string \<times> json) list"

type_synonym jobj = "(string \<times> json) list"

subsection \<open>\<open>json.dumps\<close>\<close>

definition hex_char :: "nat \<Rightarrow> char" where
  "hex_char n = (if n < 10 then char_of (48 + n) else char_of (87 + n))"

text \<open>\<open>ensure_ascii=True\<close>: everything outside the printable ASCII range is escaped.\<close>

definition esc_char :: "char \<Rightarrow> string" where
  "esc_char c =
     (if c = CHR 0x22 then [CHR 0x5C, CHR 0x22]
      else if c = CHR 0x5C then [CHR 0x5C, CHR 0x5C]
      else if c = CHR 0x0A then [CHR 0x5C, CHR ''n'']
      else if c = CHR 0x0D then [CHR 0x5C, CHR ''r'']
      else if c = CHR 0x09 then [CHR 0x5C, CHR ''t'']
      else if c = CHR 0x0C then [CHR 0x5C, CHR ''f'']
      else if c = CHR 0x08 then [CHR 0x5C, CHR ''b'']
      else let n = of_char c :: nat
           in if 32 \<le> n \<and> n \<le> 126 then [c]
              else [CHR 0x5C, CHR ''u'', CHR ''0'', CHR ''0'',
                    hex_char (n div 16), hex_char (n mod 16)])"

definition dump_str :: "string \<Rightarrow> string" where
  "dump_str s = CHR 0x22 # concat (map esc_char s) @ [CHR 0x22]"

fun dump_val :: "string \<Rightarrow> string \<Rightarrow> json \<Rightarrow> string"
  and dump_elems :: "string \<Rightarrow> string \<Rightarrow> json list \<Rightarrow> string"
  and dump_members :: "string \<Rightarrow> string \<Rightarrow> jobj \<Rightarrow> string" where
  "dump_val is ks JNull = ''null''"
| "dump_val is ks (JBool b) = (if b then ''true'' else ''false'')"
| "dump_val is ks (JInt i) = str_int i"
| "dump_val is ks (JFloat t) = t"
| "dump_val is ks (JStr s) = dump_str s"
| "dump_val is ks (JArr vs) = CHR ''['' # dump_elems is ks vs @ '']''"
| "dump_val is ks (JObj ms) = CHR ''{'' # dump_members is ks ms @ ''}''"
| "dump_elems is ks [] = []"
| "dump_elems is ks [v] = dump_val is ks v"
| "dump_elems is ks (v # w # vs) = dump_val is ks v @ is @ dump_elems is ks (w # vs)"
| "dump_members is ks [] = []"
| "dump_members is ks [(k, v)] = dump_str k @ ks @ dump_val is ks v"
| "dump_members is ks ((k, v) # m # ms) =
     dump_str k @ ks @ dump_val is ks v @ is @ dump_members is ks (m # ms)"

definition dumps :: "json \<Rightarrow> string" where
  "dumps = dump_val '', '' '': ''"

text \<open>\<open>sort_keys=True\<close> sorts every object by key, code point by code point.\<close>

fun str_less_eq :: "string \<Rightarrow> string \<Rightarrow> bool" where
  "str_less_eq [] t = True"
| "str_less_eq (c # s) [] = False"
| "str_less_eq (c # s) (d # t) =
     ((of_char c :: nat) < of_char d \<or> (c = d \<and> str_less_eq s t))"

fun insert_member :: "string \<times> 'v \<Rightarrow> (string \<times> 'v) list \<Rightarrow> (string \<times> 'v) list" where
  "insert_member m [] = [m]"
| "insert_member m (n # ns) =
     (if str_less_eq (fst m) (fst n) then m # n # ns else n # insert_member m ns)"

fun sort_keys :: "json \<Rightarrow> json" where
  "sort_keys (JArr vs) = JArr (map sort_keys vs)"
| "sort_keys (JObj ms) = JObj (foldr insert_member (map (\<lambda>(k, v). (k, sort_keys v)) ms) [])"
| "sort_keys v = v"

definition dumps_sorted_compact :: "json \<Rightarrow> string" where
  "dumps_sorted_compact v = dump_val '','' '':'' (sort_keys v)"

subsection \<open>\<open>json.loads\<close>\<close>

definition json_ws :: "char \<Rightarrow> bool" where
  "json_ws c \<longleftrightarrow> c \<in> {CHR 0x20, CHR 0x09, CHR 0x0A, CHR 0x0D}"

abbreviation skip_ws :: "string \<Rightarrow> string" where
  "skip_ws \<equiv> dropWhile json_ws"

definition expect :: "char \<Rightarrow> string \<Rightarrow> string option" where
  "expect c s = (case s of [] \<Rightarrow> None | d # r \<Rightarrow> if d = c then Some r else None)"

definition hex_digit :: "char \<Rightarrow> nat option" where
  "hex_digit c =
     (let n = of_char c :: nat
      in if 48 \<le> n \<and> n \<le> 57 then Some (n - 48)
         else if 97 \<le> n \<and> n \<le> 102 then Some (n - 87)
         else if 65 \<le> n \<and> n \<le> 70 then Some (n - 55)
         else None)"

definition simple_escape :: "char \<Rightarrow> char option" where
  "simple_escape c =
     (if c = CHR 0x22 then Some (CHR 0x22)
      else if c = CHR 0x5C then Some (CHR 0x5C)
      else if c = CHR ''/'' then Some (CHR ''/'')
      else if c = CHR ''b'' then Some (CHR 0x08)
      else if c = CHR ''f'' then Some (CHR 0x0C)
      else if c = CHR ''n'' then Some (CHR 0x0A)
      else if c = CHR ''r'' then Some (CHR 0x0D)
      else if c = CHR ''t'' then Some (CHR 0x09)
      else None)"

text \<open>
  The rest of a string literal after its opening quote.  Control characters are refused, as
  \<open>json.loads\<close> does by default.  An escape for a code point above 255 is outside the texts of
  the model and is refused too.
\<close>

fun parse_str :: "string \<Rightarrow> (string \<times> string) option" where
  "parse_str [] = None"
| "parse_str (c # s) =
     (if c = CHR 0x22 then Some ([], s)
      else if c = CHR 0x5C then
        (case s of
           [] \<Rightarrow> None
         | e # s' \<Rightarrow>
             (if e = CHR ''u'' then
                (case s' of
                   h1 # h2 # h3 # h4 # s'' \<Rightarrow>
                     (case (hex_digit h1, hex_digit h2, hex_digit h3, hex_digit h4) of
                        (Some a, Some b, Some x, Some y) \<Rightarrow>
                          (if a = 0 \<and> b = 0
                           then map_option (\<lambda>(t, r). (char_of (16 * x + y) # t, r)) (parse_str s'')
                           else None)
                      | _ \<Rightarrow> None)
                 | _ \<Rightarrow> None)
              else
                (case simple_escape e of
                   None \<Rightarrow> None
                 | Some d \<Rightarrow> map_option (\<lambda>(t, r). (d # t, r)) (parse_str s'))))
      else if (of_char c :: nat) < 32 then None
      else map_option (\<lambda>(t, r). (c # t, r)) (parse_str s))"

text \<open>Numbers, by the expression \<open>-?(0|[1-9][0-9]*)(\.[0-9]+)?([eE][-+]?[0-9]+)?\<close>.\<close>

definition int_part :: "string \<Rightarrow> (string \<times> string) option" where
  "int_part s =
     (case s of
        [] \<Rightarrow> None
      | c # r \<Rightarrow>
          (if c = CHR ''0'' then Some (''0'', r)
           else if is_digit c then Some (takeWhile is_digit s, dropWhile is_digit s)
           else None))"

definition frac_part :: "string \<Rightarrow> string \<times> string" where
  "frac_part s =
     (case expect (CHR ''.'') s of
        None \<Rightarrow> ([], s)
      | Some r \<Rightarrow>
          (if takeWhile is_digit r = [] then ([], s)
           else (CHR ''.'' # takeWhile is_digit r, dropWhile is_digit r)))"

definition exp_sign :: "string \<Rightarrow> string \<times> string" where
  "exp_sign s =
     (case s of
        [] \<Rightarrow> ([], s)
      | c # r \<Rightarrow> if c = CHR ''+'' \<or> c = CHR ''-'' then ([c], r) else ([], s))"

definition exp_part :: "string \<Rightarrow> string \<times> string" where
  "exp_part s =
     (case s of
        [] \<Rightarrow> ([], s)
      | c # r \<Rightarrow>
          (if c \<noteq> CHR ''e'' \<and> c \<noteq> CHR ''E'' then ([], s)
           else (case exp_sign r of
                   (sg, ds) \<Rightarrow>
                     (if takeWhile is_digit ds = [] then ([], s)
                      else (c # sg @ takeWhile is_digit ds, dropWhile is_digit ds)))))"

definition parse_number :: "string \<Rightarrow> (json \<times> string) option" where
  "parse_number s =
     (case (case expect (CHR ''-'') s of None \<Rightarrow> ([], s) | Some r \<Rightarrow> (''-'', r)) of
        (sg, s1) \<Rightarrow>
          (case int_part s1 of
             None \<Rightarrow> None
           | Some (ip, s2) \<Rightarrow>
               (case frac_part s2 of
                  (fp, s3) \<Rightarrow>
                    (case exp_part s3 of
                       (ep, s4) \<Rightarrow>
                         (if fp = [] \<and> ep = []
                          then Some (JInt ((if sg = [] then 1 else - 1) * int (nat_of_digits ip)), s4)
                          else Some (JFloat (sg @ ip @ fp @ ep), s4))))))"

text \<open>The keyword literals, and Python's three non-standard float literals.\<close>

definition parse_atom :: "string \<Rightarrow> (json \<times> string) option" where
  "parse_atom s =
     (if py_startswith s ''null'' then Some (JNull, drop 4 s)
      else if py_startswith s ''true'' then Some (JBool True, drop 4 s)
      else if py_startswith s ''false'' then Some (JBool False, drop 5 s)
      else case parse_number s of
             Some p \<Rightarrow> Some p
           | None \<Rightarrow>
               (if py_startswith s ''NaN'' then Some (JFloat ''NaN'', drop 3 s)
                else if py_startswith s ''Infinity'' then Some (JFloat ''Infinity'', drop 8 s)
                else if py_startswith s ''-Infinity'' then Some (JFloat ''-Infinity'', drop 9 s)
                else None))"

text \<open>Building a \<open>dict\<close> from the pairs read: a repeated key keeps its place and takes the last value.\<close>

definition dict_of :: "(string \<times> 'v) list \<Rightarrow> (string \<times> 'v) list" where
  "dict_of ms = foldl (\<lambda>d (k, v). AList.update k v d) [] ms"

fun parse_val :: "nat \<Rightarrow> string \<Rightarrow> (json \<times> string) option"
  and parse_elems :: "nat \<Rightarrow> string \<Rightarrow> (json list \<times> string) option"
  and parse_members :: "nat \<Rightarrow> string \<Rightarrow> (jobj \<times> string) option" where
  "parse_val 0 s = None"
| "parse_val (Suc n) s =
     (case s of
        [] \<Rightarrow> None
      | c # r \<Rightarrow>
          (if c = CHR 0x22 then map_option (\<lambda>(t, r'). (JStr t, r')) (parse_str r)
           else if c = CHR ''['' then
             (case expect (CHR '']'') (skip_ws r) of
                Some r' \<Rightarrow> Some (JArr [], r')
              | None \<Rightarrow> map_option (\<lambda>(vs, r'). (JArr vs, r')) (parse_elems n (skip_ws r)))
           else if c = CHR ''{'' then
             (case expect (CHR ''}'') (skip_ws r) of
                Some r' \<Rightarrow> Some (JObj [], r')
              | None \<Rightarrow> map_option (\<lambda>(ms, r'). (JObj (dict_of ms), r')) (parse_members n (skip_ws r)))
           else parse_atom s))"
| "parse_elems 0 s = None"
| "parse_elems (Suc n) s =
     (case parse_val n s of
        None \<Rightarrow> None
      | Some (v, r) \<Rightarrow>
          (case expect (CHR '']'') (skip_ws r) of
             Some r' \<Rightarrow> Some ([v], r')
           | None \<Rightarrow>
               (case expect (CHR '','') (skip_ws r) of
                  None \<Rightarrow> None
                | Some r' \<Rightarrow> map_option (\<lambda>(vs, r''). (v # vs, r'')) (parse_elems n (skip_ws r')))))"
| "parse_members 0 s = None"
| "parse_members (Suc n) s =
     (case expect (CHR 0x22) s of
        None \<Rightarrow> None
      | Some r \<Rightarrow>
          (case parse_str r of
             None \<Rightarrow> None
           | Some (k, r1) \<Rightarrow>
               (case expect (CHR '':'') (skip_ws r1) of
                  None \<Rightarrow> None
                | Some r2 \<Rightarrow>
                    (case parse_val n (skip_ws r2) of
                       None \<Rightarrow> None
                     | Some (v, r3) \<Rightarrow>
                         (case expect (CHR ''}'') (skip_ws r3) of
                            Some r4 \<Rightarrow> Some ([(k, v)], r4)
                          | None \<Rightarrow>
                              (case expect (CHR '','') (skip_ws r3) of
                                 None \<Rightarrow> None
                               | Some r4 \<Rightarrow>
                                   map_option (\<lambda>(ms, r5). ((k, v) # ms, r5))
                                     (parse_members n (skip_ws r4))))))))"

text \<open>\<open>None\<close> is \<open>json.JSONDecodeError\<close>, a \<open>ValueError\<close>.\<close>

definition loads :: "string \<Rightarrow> json option" where
  "loads s =
     (case parse_val (length (s @ s)) (skip_ws s) of
        None \<Rightarrow> None
      | Some (v, r) \<Rightarrow> if skip_ws r = [] then Some v else None)"

subsection \<open>The fuel is enough\<close>

lemma expect_Some: "expect c s = Some r \<longleftrightarrow> s = c # r"
  by (auto simp: expect_def split: list.splits)

lemma expect_Cons [simp]: "expect c (d # r) = (if d = c then Some r else None)"
  by (simp add: expect_def)

lemma expect_Nil [simp]: "expect c [] = None"
  by (simp add: expect_def)

lemma length_skip_ws: "length (dropWhile p s) \<le> length s"
  by (rule length_dropWhile_le)

lemma parse_str_consumes: "parse_str s = Some (t, r) \<Longrightarrow> length r < length s"
proof (induction s arbitrary: t r rule: parse_str.induct)
  case 1
  then show ?case by simp
next
  case (2 c s)
  then show ?case
    by (fastforce split: if_splits list.splits option.splits prod.splits)
qed

lemma int_part_consumes: "int_part s = Some (ip, r) \<Longrightarrow> length r < length s"
  using length_dropWhile_le [of is_digit]
  by (fastforce simp: int_part_def less_Suc_eq_le split: list.splits if_splits)

lemma frac_part_length: "frac_part s = (fp, r) \<Longrightarrow> length r \<le> length s"
  using length_dropWhile_le [of is_digit]
  by (fastforce simp: frac_part_def expect_Some le_SucI split: option.splits if_splits)

lemma exp_part_length: "exp_part s = (ep, r) \<Longrightarrow> length r \<le> length s"
  using length_dropWhile_le [of is_digit]
  by (fastforce simp: exp_part_def exp_sign_def intro: le_SucI split: list.splits prod.splits if_splits)

lemma parse_number_consumes:
  assumes "parse_number s = Some (v, r)"
  shows "length r < length s"
proof -
  define s1 where "s1 = (case expect (CHR ''-'') s of None \<Rightarrow> s | Some r \<Rightarrow> r)"
  have s1: "length s1 \<le> length s"
    by (auto simp: s1_def expect_Some split: option.splits)
  from assms obtain ip s2 where ip: "int_part s1 = Some (ip, s2)"
    by (auto simp: parse_number_def s1_def split: option.splits prod.splits)
  obtain fp s3 where fp: "frac_part s2 = (fp, s3)" by (cases "frac_part s2")
  obtain ep s4 where ep: "exp_part s3 = (ep, s4)" by (cases "exp_part s3")
  from assms ip fp ep have "r = s4"
    by (auto simp: parse_number_def s1_def split: option.splits if_splits)
  with s1 int_part_consumes [OF ip] frac_part_length [OF fp] exp_part_length [OF ep]
  show ?thesis by simp
qed

lemma startswith_length: "py_startswith s p \<Longrightarrow> length p \<le> length s"
  by (auto simp: py_startswith_iff)

lemma parse_atom_consumes: "parse_atom s = Some (v, r) \<Longrightarrow> length r < length s"
  by (auto simp: parse_atom_def dest!: startswith_length dest: parse_number_consumes
      split: if_splits option.splits)

lemmas parse_consumes = parse_str_consumes parse_atom_consumes

lemma expect_ws_consumes: "expect c (skip_ws s) = Some r \<Longrightarrow> length r < length s"
  using length_skip_ws [of json_ws s] by (simp add: expect_Some)

lemma parse_val_consumes_step:
  assumes elems: "\<And>s vs r. parse_elems n s = Some (vs, r) \<Longrightarrow> length r < length s"
    and members: "\<And>s ms r. parse_members n s = Some (ms, r) \<Longrightarrow> length r < length s"
    and ret: "parse_val (Suc n) s = Some (v, r)"
  shows "length r < length s"
proof -
  from ret obtain c t where s: "s = c # t" by (cases s) auto
  have el: "length r' < Suc (length t)" if "parse_elems n (skip_ws t) = Some (vs, r')" for vs r'
    using elems [OF that] length_skip_ws [of json_ws t] by simp
  have me: "length r' < Suc (length t)" if "parse_members n (skip_ws t) = Some (ms, r')" for ms r'
    using members [OF that] length_skip_ws [of json_ws t] by simp
  from ret s show ?thesis
    by (auto dest: parse_consumes expect_ws_consumes el me split: if_splits option.splits)
qed

lemma parse_elems_consumes_step:
  assumes val: "\<And>s v r. parse_val n s = Some (v, r) \<Longrightarrow> length r < length s"
    and elems: "\<And>s vs r. parse_elems n s = Some (vs, r) \<Longrightarrow> length r < length s"
    and ret: "parse_elems (Suc n) s = Some (vs, r)"
  shows "length r < length s"
proof -
  from ret obtain v r1 where v: "parse_val n s = Some (v, r1)" by (auto split: option.splits)
  have el: "length r' < length r2" if "parse_elems n (skip_ws r2) = Some (ws, r')" for ws r' r2
    using elems [OF that] length_skip_ws [of json_ws r2] by simp
  from ret v val [OF v] show ?thesis
    by (auto dest!: expect_ws_consumes el split: option.splits)
qed

lemma parse_members_consumes_step:
  assumes val: "\<And>s v r. parse_val n s = Some (v, r) \<Longrightarrow> length r < length s"
    and members: "\<And>s ms r. parse_members n s = Some (ms, r) \<Longrightarrow> length r < length s"
    and ret: "parse_members (Suc n) s = Some (ms, r)"
  shows "length r < length s"
proof -
  have va: "length r' < length r2" if "parse_val n (skip_ws r2) = Some (w, r')" for w r' r2
    using val [OF that] length_skip_ws [of json_ws r2] by simp
  have me: "length r' < length r2" if "parse_members n (skip_ws r2) = Some (ws, r')" for ws r' r2
    using members [OF that] length_skip_ws [of json_ws r2] by simp
  from ret show ?thesis
    by (auto simp: expect_Some [of _ s] dest!: parse_str_consumes expect_ws_consumes va me
        split: option.splits)
qed

lemma parse_consumes_all:
  "(\<forall>s v r. parse_val n s = Some (v, r) \<longrightarrow> length r < length s) \<and>
   (\<forall>s vs r. parse_elems n s = Some (vs, r) \<longrightarrow> length r < length s) \<and>
   (\<forall>s ms r. parse_members n s = Some (ms, r) \<longrightarrow> length r < length s)"
proof (induction n)
  case 0
  then show ?case by simp
next
  case (Suc n)
  then have val: "\<And>s v r. parse_val n s = Some (v, r) \<Longrightarrow> length r < length s"
    and elems: "\<And>s vs r. parse_elems n s = Some (vs, r) \<Longrightarrow> length r < length s"
    and members: "\<And>s ms r. parse_members n s = Some (ms, r) \<Longrightarrow> length r < length s"
    by blast+
  have "length r < length s" if "parse_val (Suc n) s = Some (v, r)" for s v r
    by (rule parse_val_consumes_step [OF _ _ that]) (erule elems members)+
  moreover have "length r < length s" if "parse_elems (Suc n) s = Some (vs, r)" for s vs r
    by (rule parse_elems_consumes_step [OF _ _ that]) (erule val elems)+
  moreover have "length r < length s" if "parse_members (Suc n) s = Some (ms, r)" for s ms r
    by (rule parse_members_consumes_step [OF _ _ that]) (erule val members)+
  ultimately show ?case by blast
qed

lemma parse_val_consumes: "parse_val n s = Some (v, r) \<Longrightarrow> length r < length s"
  and parse_elems_consumes: "parse_elems n s = Some (vs, r) \<Longrightarrow> length r < length s"
  and parse_members_consumes: "parse_members n s = Some (ms, r) \<Longrightarrow> length r < length s"
  using parse_consumes_all by blast+

text \<open>
  Twice the length of the text is enough for a value, one unit more for the tail of an array
  or object: with that much, any result found with some amount is found again.
\<close>

lemma double_skip_ws: "2 * length s \<le> m \<Longrightarrow> 2 * length (skip_ws s) \<le> m"
  using length_skip_ws [of json_ws s] by linarith

lemma parse_val_fuel_step:
  assumes elems: "\<And>s x m. parse_elems n s = Some x \<Longrightarrow> 2 * length s < m \<Longrightarrow> parse_elems m s = Some x"
    and members: "\<And>s x m. parse_members n s = Some x \<Longrightarrow> 2 * length s < m \<Longrightarrow> parse_members m s = Some x"
    and ret: "parse_val (Suc n) s = Some x" and fuel: "2 * length s \<le> m"
  shows "parse_val m s = Some x"
proof -
  from ret obtain c t where s: "s = c # t" by (cases s) auto
  from fuel s obtain k where m: "m = Suc k" and k: "2 * length (skip_ws t) < k"
    using length_skip_ws [of json_ws t] by (cases m) auto
  have el: "parse_elems k (skip_ws t) = Some y" if "parse_elems n (skip_ws t) = Some y" for y
    using elems [OF that k] .
  have me: "parse_members k (skip_ws t) = Some y" if "parse_members n (skip_ws t) = Some y" for y
    using members [OF that k] .
  from ret s m show ?thesis
    by (auto split: if_splits option.splits dest: el me)
qed

lemma parse_elems_fuel_step:
  assumes val: "\<And>s x m. parse_val n s = Some x \<Longrightarrow> 2 * length s \<le> m \<Longrightarrow> parse_val m s = Some x"
    and elems: "\<And>s x m. parse_elems n s = Some x \<Longrightarrow> 2 * length s < m \<Longrightarrow> parse_elems m s = Some x"
    and ret: "parse_elems (Suc n) s = Some x" and fuel: "2 * length s < m"
  shows "parse_elems m s = Some x"
proof -
  from ret obtain v r where v: "parse_val n s = Some (v, r)" by (auto split: option.splits)
  from fuel obtain k where m: "m = Suc k" and k: "2 * length s \<le> k" by (cases m) auto
  have el: "parse_elems k (skip_ws r') = Some y"
    if "parse_elems n (skip_ws r') = Some y" and "length r' < length r" for y r'
  proof (rule elems [OF that(1)])
    show "2 * length (skip_ws r') < k"
      using that(2) parse_val_consumes [OF v] k length_skip_ws [of json_ws r'] by linarith
  qed
  from ret v m val [OF v k] show ?thesis
    by (auto split: option.splits dest: el expect_ws_consumes)
qed

lemma parse_members_fuel_step:
  assumes val: "\<And>s x m. parse_val n s = Some x \<Longrightarrow> 2 * length s \<le> m \<Longrightarrow> parse_val m s = Some x"
    and members: "\<And>s x m. parse_members n s = Some x \<Longrightarrow> 2 * length s < m \<Longrightarrow> parse_members m s = Some x"
    and ret: "parse_members (Suc n) s = Some x" and fuel: "2 * length s < m"
  shows "parse_members m s = Some x"
proof -
  from fuel obtain k where m: "m = Suc k" and k: "2 * length s \<le> k" by (cases m) auto
  from ret obtain r0 ky r1 r2 v r3 where
    r0: "expect (CHR 0x22) s = Some r0" and r1: "parse_str r0 = Some (ky, r1)" and
    r2: "expect (CHR '':'') (skip_ws r1) = Some r2" and
    v: "parse_val n (skip_ws r2) = Some (v, r3)"
    by (auto split: option.splits)
  have len: "length r2 < length s" "length r3 < length s"
    using r0 parse_str_consumes [OF r1] expect_ws_consumes [OF r2] parse_val_consumes [OF v]
      length_skip_ws [of json_ws r2] by (auto simp: expect_Some)
  have v': "parse_val k (skip_ws r2) = Some (v, r3)"
    using val [OF v] len k length_skip_ws [of json_ws r2] by simp
  have me: "parse_members k (skip_ws r') = Some y"
    if "parse_members n (skip_ws r') = Some y" and "length r' < length r3" for y r'
  proof (rule members [OF that(1)])
    show "2 * length (skip_ws r') < k"
      using that(2) len k length_skip_ws [of json_ws r'] by linarith
  qed
  from ret r0 r1 r2 v v' m show ?thesis
    by (auto split: option.splits dest: me expect_ws_consumes)
qed

lemma parse_fuel_all:
  "(\<forall>s x m. parse_val n s = Some x \<longrightarrow> 2 * length s \<le> m \<longrightarrow> parse_val m s = Some x) \<and>
   (\<forall>s x m. parse_elems n s = Some x \<longrightarrow> 2 * length s < m \<longrightarrow> parse_elems m s = Some x) \<and>
   (\<forall>s x m. parse_members n s = Some x \<longrightarrow> 2 * length s < m \<longrightarrow> parse_members m s = Some x)"
proof (induction n)
  case 0
  then show ?case by simp
next
  case (Suc n)
  then have val: "\<And>s x m. parse_val n s = Some x \<Longrightarrow> 2 * length s \<le> m \<Longrightarrow> parse_val m s = Some x"
    and elems: "\<And>s x m. parse_elems n s = Some x \<Longrightarrow> 2 * length s < m \<Longrightarrow> parse_elems m s = Some x"
    and members: "\<And>s x m. parse_members n s = Some x \<Longrightarrow> 2 * length s < m \<Longrightarrow> parse_members m s = Some x"
    by blast+
  show ?case
    using parse_val_fuel_step [of n, OF elems members]
      parse_elems_fuel_step [of n, OF val elems]
      parse_members_fuel_step [of n, OF val members] by blast
qed

lemma parse_val_fuel:
  "parse_val n s = Some x \<Longrightarrow> 2 * length s \<le> m \<Longrightarrow> parse_val m s = Some x"
  using parse_fuel_all by blast

lemma loads_enough:
  assumes "parse_val n (skip_ws s) = Some (v, r)" and "skip_ws r = []"
  shows "loads s = Some v"
proof -
  have "parse_val (length (s @ s)) (skip_ws s) = Some (v, r)"
    using assms(1) by (rule parse_val_fuel) (use length_skip_ws [of json_ws s] in simp)
  with assms(2) show ?thesis by (simp add: loads_def)
qed

subsection \<open>Reading back what was printed\<close>

lemma hex_digit_hex_char: "n < 16 \<Longrightarrow> hex_digit (hex_char n) = Some n"
  by (auto simp: hex_digit_def hex_char_def Let_def)

lemma parse_str_esc_char:
  "parse_str (esc_char c @ t) = map_option (\<lambda>(u, r). (c # u, r)) (parse_str t)"
proof -
  have n: "(of_char c :: nat) < 256" by simp
  have hex: "hex_digit (hex_char (of_char c div 16)) = Some (of_char c div 16)"
    "hex_digit (hex_char (of_char c mod 16)) = Some (of_char c mod 16)"
    using n by (simp_all add: hex_digit_hex_char less_mult_imp_div_less)
  have c: "char_of (16 * (of_char c div 16) + of_char c mod 16 :: nat) = c"
    by simp
  have zero: "hex_digit (CHR ''0'') = Some 0" by (simp add: hex_digit_def)
  show ?thesis
    by (simp add: esc_char_def simple_escape_def Let_def hex c zero)
qed

lemma parse_str_dump: "parse_str (concat (map esc_char s) @ CHR 0x22 # r) = Some (s, r)"
  by (induction s) (simp_all add: parse_str_esc_char)

text \<open>
  \<open>num_end r\<close>: no number literal can be continued by \<open>r\<close>.  What the printer puts after a value
  (a separator, a closing bracket or nothing) has this property.
\<close>

definition num_end :: "string \<Rightarrow> bool" where
  "num_end r \<longleftrightarrow>
     (case r of [] \<Rightarrow> True
      | c # _ \<Rightarrow> \<not> is_digit c \<and> c \<notin> {CHR ''.'', CHR ''e'', CHR ''E'', CHR ''+'', CHR ''-''})"

lemma num_end_Nil [simp]: "num_end []"
  by (simp add: num_end_def)

lemma num_end_Cons:
  "num_end (c # r) \<longleftrightarrow> \<not> is_digit c \<and> c \<notin> {CHR ''.'', CHR ''e'', CHR ''E'', CHR ''+'', CHR ''-''}"
  by (simp add: num_end_def)

lemma num_end_span:
  assumes "num_end r"
  shows "takeWhile is_digit (s @ r) = takeWhile is_digit s"
    and "dropWhile is_digit (s @ r) = dropWhile is_digit s @ r"
proof -
  have r: "takeWhile is_digit r = []" "dropWhile is_digit r = r"
    using assms by (cases r; simp add: num_end_Cons)+
  show "takeWhile is_digit (s @ r) = takeWhile is_digit s"
    and "dropWhile is_digit (s @ r) = dropWhile is_digit s @ r"
    by (induction s) (simp_all add: r)
qed

lemma num_end_int_part: "num_end r \<Longrightarrow> int_part r = None"
proof (cases r)
  case (Cons c t)
  moreover assume "num_end r"
  moreover have "is_digit (CHR ''0'')" by (simp add: is_digit_def)
  ultimately show ?thesis by (auto simp: int_part_def num_end_Cons)
qed (simp add: int_part_def)

lemma int_part_append:
  assumes "num_end r"
  shows "int_part (s @ r) = map_option (\<lambda>(ip, t). (ip, t @ r)) (int_part s)"
proof (cases s)
  case Nil
  moreover have "int_part [] = None" by (simp add: int_part_def)
  ultimately show ?thesis using assms by (simp add: num_end_int_part)
next
  case (Cons c u)
  then show ?thesis
    using num_end_span [OF assms, of "c # u"] by (cases "is_digit c") (simp_all add: int_part_def)
qed

lemma frac_part_append:
  assumes "num_end r"
  shows "frac_part (s @ r) = (case frac_part s of (fp, t) \<Rightarrow> (fp, t @ r))"
proof (cases s)
  case Nil
  with assms show ?thesis by (cases r) (auto simp: num_end_Cons frac_part_def)
next
  case (Cons c t)
  then show ?thesis by (simp add: frac_part_def num_end_span [OF assms])
qed

lemma exp_sign_append:
  "num_end r \<Longrightarrow> exp_sign (s @ r) = (case exp_sign s of (sg, t) \<Rightarrow> (sg, t @ r))"
  by (cases s; cases r) (auto simp: exp_sign_def num_end_Cons)

lemma exp_part_append:
  assumes "num_end r"
  shows "exp_part (s @ r) = (case exp_part s of (ep, t) \<Rightarrow> (ep, t @ r))"
proof (cases s)
  case Nil
  with assms show ?thesis by (cases r) (auto simp: num_end_Cons exp_part_def)
next
  case (Cons c t)
  then show ?thesis
    by (cases "exp_sign t")
      (simp add: exp_part_def exp_sign_append [OF assms] num_end_span [OF assms])
qed

lemma parse_number_append:
  assumes "num_end r" and "parse_number s = Some (v, t)"
  shows "parse_number (s @ r) = Some (v, t @ r)"
proof -
  from assms(2) have "s \<noteq> []" by (auto simp: parse_number_def int_part_def)
  then obtain c u where s: "s = c # u" by (cases s) auto
  let ?body = "\<lambda>s1. (if c = CHR ''-'' then (''-'', s1) else ([], s))"
  from assms(2) s show ?thesis
    by (auto simp: parse_number_def int_part_append [OF assms(1)] frac_part_append [OF assms(1)]
        exp_part_append [OF assms(1)] int_part_append [OF assms(1), of "c # u", simplified]
        split: option.splits prod.splits if_splits)
qed

lemma parse_number_hd:
  "parse_number s = Some x \<Longrightarrow> s \<noteq> [] \<and> (hd s = CHR ''-'' \<or> is_digit (hd s))"
  by (cases s) (auto simp: parse_number_def int_part_def is_digit_def split: option.splits if_splits)

lemma parse_number_str_int: "parse_number (str_int i) = Some (JInt i, [])"
proof -
  have digits: "int_part (digits_of_nat n) = Some (digits_of_nat n, [])" for n
  proof (cases "n = 0")
    case True
    then show ?thesis by (simp add: int_part_def)
  next
    case False
    obtain c t where ct: "digits_of_nat n = c # t" by (cases "digits_of_nat n") auto
    with False digits_of_nat_hd [of n] have "c \<noteq> CHR ''0''" by simp
    moreover have "\<forall>d \<in> set (digits_of_nat n). is_digit d" by (simp add: digits_of_nat_digits)
    ultimately show ?thesis
      using ct by (simp add: int_part_def takeWhile_eq_all_conv dropWhile_eq_Nil_conv)
  qed
  have minus: "expect (CHR ''-'') (digits_of_nat n) = None" for n
  proof (cases "digits_of_nat n")
    case (Cons c t)
    then have "is_digit c" using digits_of_nat_digits [of c n] by simp
    with Cons show ?thesis by (simp add: digits_hd_not_sign)
  qed simp
  show ?thesis
    by (simp add: parse_number_def str_int_def digits minus frac_part_def exp_part_def)
qed

text \<open>
  The values for which printing loses nothing: float literals are number literals of JSON and
  no object repeats a key (a \<open>dict\<close> never does).
\<close>

definition float_lit :: "string \<Rightarrow> bool" where
  "float_lit t \<longleftrightarrow> parse_number t = Some (JFloat t, [])"

fun json_wf :: "json \<Rightarrow> bool" where
  "json_wf (JFloat t) = float_lit t"
| "json_wf (JArr vs) = list_all json_wf vs"
| "json_wf (JObj ms) = (distinct (map fst ms) \<and> list_all (\<lambda>(k, v). json_wf v) ms)"
| "json_wf v = True"

definition sep_for :: "char \<Rightarrow> string \<Rightarrow> bool" where
  "sep_for c s \<longleftrightarrow> s \<noteq> [] \<and> hd s = c \<and> list_all json_ws (tl s)"

lemma sep_for_expect:
  assumes "sep_for c s"
  shows "\<exists>w. s = c # w \<and> (\<forall>t. skip_ws (w @ t) = skip_ws t)"
proof -
  from assms obtain w where s: "s = c # w" and w: "list_all json_ws w"
    by (cases s) (auto simp: sep_for_def)
  from w have "skip_ws (w @ t) = skip_ws t" for t by (induction w) simp_all
  with s show ?thesis by blast
qed

lemma dict_of_distinct_acc:
  "distinct (map fst (al @ ms)) \<Longrightarrow> foldl (\<lambda>d (k, v). AList.update k v d) al ms = al @ ms"
proof (induction ms arbitrary: al)
  case (Cons m ms)
  then have "AList.update (fst m) (snd m) al = al @ [m]"
    by (subst update_fresh) auto
  with Cons show ?case by (cases m) simp
qed simp

lemma dict_of_distinct: "distinct (map fst ms) \<Longrightarrow> dict_of ms = ms"
  using dict_of_distinct_acc [of "[]" ms] by (simp add: dict_of_def)

text \<open>The first character of a printed value: never white space, never a closing bracket.\<close>

definition value_start :: "char \<Rightarrow> bool" where
  "value_start c \<longleftrightarrow> \<not> json_ws c \<and> c \<noteq> CHR '']'' \<and> c \<noteq> CHR ''}''"

lemma value_start_digit: "is_digit c \<or> c = CHR ''-'' \<Longrightarrow> value_start c"
  by (auto simp: value_start_def json_ws_def is_digit_def)

lemma digits_start: "\<exists>c t. digits_of_nat n = c # t \<and> value_start c"
proof (cases "digits_of_nat n")
  case (Cons c t)
  then have "is_digit c" using digits_of_nat_digits [of c n] by simp
  with Cons show ?thesis by (simp add: value_start_digit)
qed simp

lemma dump_val_start: "json_wf v \<Longrightarrow> \<exists>c t. dump_val is ks v = c # t \<and> value_start c"
proof (cases v)
  case (JFloat x)
  moreover assume "json_wf v"
  ultimately show ?thesis
    using parse_number_hd [of x] by (cases x) (auto simp: float_lit_def intro: value_start_digit)
next
  case (JInt i)
  then show ?thesis
    using digits_start [of "nat i"] by (auto simp: str_int_def value_start_digit)
qed (auto simp: value_start_def json_ws_def dump_str_def)

lemma skip_ws_dump_val:
  "json_wf v \<Longrightarrow> skip_ws (dump_val is ks v @ r) = dump_val is ks v @ r"
  using dump_val_start [of v "is" ks] by (auto simp: value_start_def)

lemma expect_dump_val:
  "json_wf v \<Longrightarrow> c = CHR '']'' \<or> c = CHR ''}'' \<Longrightarrow> expect c (dump_val is ks v @ r) = None"
  using dump_val_start [of v "is" ks] by (auto simp: value_start_def)

lemma parse_atom_number:
  assumes "parse_number t = Some (v, [])" and "num_end r"
  shows "parse_val (Suc n) (t @ r) = Some (v, r)"
proof -
  from parse_number_hd [OF assms(1)] obtain c u where t: "t = c # u"
    and c: "c = CHR ''-'' \<or> is_digit c" by (cases t) auto
  have p: "parse_number (c # u @ r) = Some (v, r)"
    using parse_number_append [OF assms(2,1)] t by simp
  have "c \<noteq> CHR 0x22" "c \<noteq> CHR ''[''" "c \<noteq> CHR ''{''" "c \<noteq> CHR ''n''" "c \<noteq> CHR ''t''" "c \<noteq> CHR ''f''"
    using c by (auto simp: is_digit_def)
  with p show ?thesis
    by (simp add: t parse_atom_def py_startswith_def)
qed

lemma num_end_sep: "sep_for (CHR '','') is \<Longrightarrow> num_end (is @ t)"
  using sep_for_expect [of "CHR '',''" "is"] by (auto simp: num_end_Cons is_digit_def)

lemma num_end_close [simp]: "num_end (CHR '']'' # r)" "num_end (CHR ''}'' # r)"
  by (simp_all add: num_end_Cons is_digit_def)

lemma json_ws_close [simp]:
  "\<not> json_ws (CHR '']'')" "\<not> json_ws (CHR ''}'')" "\<not> json_ws (CHR '','')" "\<not> json_ws (CHR '':'')"
  "\<not> json_ws (CHR 0x22)"
  by (simp_all add: json_ws_def)

text \<open>
  The round trip, by induction on the fuel: values at one level use arrays and objects of the
  level below.
\<close>

definition reads_val :: "string \<Rightarrow> string \<Rightarrow> nat \<Rightarrow> bool" where
  "reads_val sp ks n \<longleftrightarrow>
     (\<forall>v r. json_wf v \<longrightarrow> num_end r \<longrightarrow> length (dump_val sp ks v) \<le> n \<longrightarrow>
        parse_val n (dump_val sp ks v @ r) = Some (v, r))"

definition reads_elems :: "string \<Rightarrow> string \<Rightarrow> nat \<Rightarrow> bool" where
  "reads_elems sp ks n \<longleftrightarrow>
     (\<forall>vs r. vs \<noteq> [] \<longrightarrow> list_all json_wf vs \<longrightarrow> length (dump_elems sp ks vs) < n \<longrightarrow>
        parse_elems n (dump_elems sp ks vs @ CHR '']'' # r) = Some (vs, r))"

definition reads_members :: "string \<Rightarrow> string \<Rightarrow> nat \<Rightarrow> bool" where
  "reads_members sp ks n \<longleftrightarrow>
     (\<forall>ms r. ms \<noteq> [] \<longrightarrow> list_all (\<lambda>(k, v). json_wf v) ms \<longrightarrow> length (dump_members sp ks ms) < n \<longrightarrow>
        parse_members n (dump_members sp ks ms @ CHR ''}'' # r) = Some (ms, r))"

lemma dump_elems_Cons:
  "dump_elems sp ks (v # vs) = dump_val sp ks v @ (if vs = [] then [] else sp @ dump_elems sp ks vs)"
  by (cases vs) simp_all

lemma dump_members_Cons:
  "dump_members sp ks ((k, v) # ms) =
     dump_str k @ ks @ dump_val sp ks v @ (if ms = [] then [] else sp @ dump_members sp ks ms)"
  by (cases ms) simp_all

lemma dump_elems_start:
  "vs \<noteq> [] \<Longrightarrow> list_all json_wf vs \<Longrightarrow> \<exists>c t. dump_elems sp ks vs = c # t \<and> value_start c"
  using dump_val_start [of "hd vs" sp ks] by (cases vs) (auto simp: dump_elems_Cons)

lemma dump_members_start:
  "ms \<noteq> [] \<Longrightarrow> \<exists>t. dump_members sp ks ms = CHR 0x22 # t"
  by (cases ms) (auto simp: dump_members_Cons dump_str_def)

lemma reads_val_step:
  assumes elems: "reads_elems sp ks n" and members: "reads_members sp ks n"
  shows "reads_val sp ks (Suc n)"
  unfolding reads_val_def
proof (intro allI impI)
  fix v r
  assume wf: "json_wf v" and r: "num_end r" and len: "length (dump_val sp ks v) \<le> Suc n"
  show "parse_val (Suc n) (dump_val sp ks v @ r) = Some (v, r)"
  proof (cases v)
    case (JInt i)
    then show ?thesis using parse_atom_number [OF parse_number_str_int r] by simp
  next
    case (JFloat x)
    with wf show ?thesis using parse_atom_number [OF _ r] by (simp add: float_lit_def)
  next
    case (JStr s)
    then show ?thesis by (simp add: dump_str_def parse_str_dump)
  next
    case (JArr vs)
    show ?thesis
    proof (cases "vs = []")
      case False
      with JArr wf len have "parse_elems n (dump_elems sp ks vs @ CHR '']'' # r) = Some (vs, r)"
        using elems by (simp add: reads_elems_def)
      with JArr False wf show ?thesis
        using dump_elems_start [of vs sp ks] by (auto simp: value_start_def)
    qed (simp add: JArr)
  next
    case (JObj ms)
    show ?thesis
    proof (cases "ms = []")
      case False
      with JObj wf len have "parse_members n (dump_members sp ks ms @ CHR ''}'' # r) = Some (ms, r)"
        using members by (simp add: reads_members_def)
      with JObj False wf show ?thesis
        using dump_members_start [of ms sp ks] by (auto simp: dict_of_distinct)
    qed (simp add: JObj)
  qed (auto simp: parse_atom_def py_startswith_def)
qed

lemma reads_elems_step:
  assumes sp: "sep_for (CHR '','') sp"
    and val: "reads_val sp ks n" and elems: "reads_elems sp ks n"
  shows "reads_elems sp ks (Suc n)"
  unfolding reads_elems_def
proof (intro allI impI)
  fix vs r
  assume "vs \<noteq> []" and wf: "list_all json_wf vs" and len: "length (dump_elems sp ks vs) < Suc n"
  then obtain v ws where vs: "vs = v # ws" by (cases vs) auto
  obtain w where w: "sp = CHR '','' # w" "\<And>t. skip_ws (w @ t) = skip_ws t"
    using sep_for_expect [OF sp] by blast
  from wf vs have v: "json_wf v" by simp
  show "parse_elems (Suc n) (dump_elems sp ks vs @ CHR '']'' # r) = Some (vs, r)"
  proof (cases "ws = []")
    case True
    with val v len vs have "parse_val n (dump_val sp ks v @ CHR '']'' # r) = Some (v, CHR '']'' # r)"
      by (simp add: reads_val_def)
    with True vs show ?thesis by simp
  next
    case False
    let ?r = "sp @ dump_elems sp ks ws @ CHR '']'' # r"
    from val v len vs False have "parse_val n (dump_val sp ks v @ ?r) = Some (v, ?r)"
      by (simp add: reads_val_def dump_elems_Cons num_end_sep [OF sp])
    moreover have "parse_elems n (dump_elems sp ks ws @ CHR '']'' # r) = Some (ws, r)"
      using elems False wf vs len w by (simp add: reads_elems_def dump_elems_Cons)
    moreover have "skip_ws (dump_elems sp ks ws @ CHR '']'' # r) = dump_elems sp ks ws @ CHR '']'' # r"
      using dump_elems_start [of ws sp ks] False wf vs by (auto simp: value_start_def)
    ultimately show ?thesis using False vs w by (simp add: dump_elems_Cons)
  qed
qed

lemma reads_members_step:
  assumes sp: "sep_for (CHR '','') sp" and ks: "sep_for (CHR '':'') ks"
    and val: "reads_val sp ks n" and members: "reads_members sp ks n"
  shows "reads_members sp ks (Suc n)"
  unfolding reads_members_def
proof (intro allI impI)
  fix ms r
  assume "ms \<noteq> []" and wf: "list_all (\<lambda>(k, v). json_wf v) ms"
    and len: "length (dump_members sp ks ms) < Suc n"
  then obtain k v ns where ms: "ms = (k, v) # ns" by (cases ms) auto
  obtain w where w: "sp = CHR '','' # w" "\<And>t. skip_ws (w @ t) = skip_ws t"
    using sep_for_expect [OF sp] by blast
  obtain u where u: "ks = CHR '':'' # u" "\<And>t. skip_ws (u @ t) = skip_ws t"
    using sep_for_expect [OF ks] by blast
  from wf ms have v: "json_wf v" by simp
  show "parse_members (Suc n) (dump_members sp ks ms @ CHR ''}'' # r) = Some (ms, r)"
  proof (cases "ns = []")
    case True
    with val v len ms have "parse_val n (dump_val sp ks v @ CHR ''}'' # r) = Some (v, CHR ''}'' # r)"
      by (simp add: reads_val_def)
    with True ms u v show ?thesis by (simp add: dump_str_def parse_str_dump skip_ws_dump_val)
  next
    case False
    let ?r = "sp @ dump_members sp ks ns @ CHR ''}'' # r"
    from val v len ms False have pv: "parse_val n (dump_val sp ks v @ ?r) = Some (v, ?r)"
      by (simp add: reads_val_def dump_members_Cons num_end_sep [OF sp])
    moreover have "parse_members n (dump_members sp ks ns @ CHR ''}'' # r) = Some (ns, r)"
      using members False wf ms len w by (simp add: reads_members_def dump_members_Cons)
    moreover have "skip_ws (dump_members sp ks ns @ CHR ''}'' # r) = dump_members sp ks ns @ CHR ''}'' # r"
      using dump_members_start [of ns sp ks] False by auto
    ultimately show ?thesis
      using False ms w u v skip_ws_dump_val [OF v, of sp ks ?r]
      by (simp add: dump_members_Cons dump_str_def parse_str_dump)
  qed
qed

lemma reads_all:
  assumes sp: "sep_for (CHR '','') sp" and ks: "sep_for (CHR '':'') ks"
  shows "reads_val sp ks n \<and> reads_elems sp ks n \<and> reads_members sp ks n"
proof (induction n)
  case 0
  have "length (dump_val sp ks v) > 0" if "json_wf v" for v
    using dump_val_start [OF that, of sp ks] by auto
  then show ?case by (auto simp: reads_val_def reads_elems_def reads_members_def)
next
  case (Suc n)
  then show ?case
    using reads_val_step reads_elems_step [OF sp] reads_members_step [OF sp ks] by blast
qed

lemma loads_dump_val:
  assumes sp: "sep_for (CHR '','') sp" and ks: "sep_for (CHR '':'') ks" and wf: "json_wf v"
  shows "loads (dump_val sp ks v) = Some v"
proof (rule loads_enough)
  have "reads_val sp ks (length (dump_val sp ks v))" using reads_all [OF sp ks] by blast
  with wf have "parse_val (length (dump_val sp ks v)) (dump_val sp ks v @ []) = Some (v, [])"
    unfolding reads_val_def by (metis num_end_Nil order_refl)
  with skip_ws_dump_val [OF wf, of sp ks "[]"]
  show "parse_val (length (dump_val sp ks v)) (skip_ws (dump_val sp ks v)) = Some (v, [])"
    by simp
qed simp

subsection \<open>Sorting the keys\<close>

lemma insert_member_set: "set (insert_member m ns) = insert m (set ns)"
  by (induction ns) auto

lemma insert_member_distinct:
  "distinct (map fst (insert_member m ns)) \<longleftrightarrow> fst m \<notin> fst ` set ns \<and> distinct (map fst ns)"
  by (induction ns) (auto simp: insert_member_set)

definition sort_members :: "(string \<times> 'v) list \<Rightarrow> (string \<times> 'v) list" where
  "sort_members ms = foldr insert_member ms []"

lemma set_sort_members [simp]: "set (sort_members ms) = set ms"
  by (induction ms) (simp_all add: sort_members_def insert_member_set)

lemma distinct_sort_members [simp]:
  "distinct (map fst (sort_members ms)) \<longleftrightarrow> distinct (map fst ms)"
proof (induction ms)
  case (Cons m ms)
  then show ?case
    using set_sort_members [of ms] by (simp add: sort_members_def insert_member_distinct)
qed (simp add: sort_members_def)

lemma map_of_sort_members:
  "distinct (map fst ms) \<Longrightarrow> map_of (sort_members ms) = map_of ms"
  by (rule map_of_inject_set [THEN iffD2]) simp_all

lemma sort_keys_JObj:
  "sort_keys (JObj ms) = JObj (sort_members (map (\<lambda>(k, v). (k, sort_keys v)) ms))"
  by (simp add: sort_members_def)

lemma json_wf_sort_keys: "json_wf v \<Longrightarrow> json_wf (sort_keys v)"
proof (induction v rule: sort_keys.induct)
  case (1 vs)
  then show ?case by (auto simp: list_all_iff)
next
  case (2 ms)
  let ?ns = "map (\<lambda>(k, v). (k, sort_keys v)) ms"
  have "map fst ?ns = map fst ms" by (simp add: case_prod_unfold)
  with 2 have "distinct (map fst (sort_members ?ns))" by (simp del: map_map)
  moreover have "json_wf (sort_keys v)" if "(k, v) \<in> set ms" for k v
    using 2 that by (auto simp: list_all_iff)
  then have "list_all (\<lambda>(k, v). json_wf v) (sort_members ?ns)" by (auto simp: list_all_iff)
  ultimately show ?case by (simp add: sort_keys_JObj del: sort_keys.simps)
qed auto

text \<open>The equations that evaluate the codec on a given text.\<close>

lemmas json_eval =
  loads_def dumps_def json_ws_def parse_atom_def py_startswith_def parse_number_def int_part_def
  is_digit_def frac_part_def exp_part_def exp_sign_def nat_of_digits_def digit_val_def
  dump_str_def esc_char_def hex_char_def hex_digit_def simple_escape_def dict_of_def

subsection \<open>The codec as an interface\<close>

text \<open>
  What the clients of the module rely on: a printer and a reader of one another, on the values a
  predicate delimits.  Two prints are equal only for equal values.
\<close>

locale json_codec =
  fixes print :: "json \<Rightarrow> string" and read :: "string \<Rightarrow> json option" and good :: "json \<Rightarrow> bool"
  assumes read_print: "good v \<Longrightarrow> read (print v) = Some v"
begin

lemma print_inject: "good v \<Longrightarrow> good w \<Longrightarrow> print v = print w \<longleftrightarrow> v = w"
  by (metis option.inject read_print)

end

interpretation sse_codec: json_codec dumps loads json_wf
  by unfold_locales (simp add: dumps_def loads_dump_val sep_for_def json_ws_def)

interpretation compact_codec: json_codec "dump_val '','' '':''" loads json_wf
  by unfold_locales (simp add: loads_dump_val sep_for_def)

lemma dumps_sorted_inject:
  "json_wf v \<Longrightarrow> json_wf w \<Longrightarrow>
     dumps_sorted_compact v = dumps_sorted_compact w \<longleftrightarrow> sort_keys v = sort_keys w"
  by (simp add: dumps_sorted_compact_def compact_codec.print_inject json_wf_sort_keys)

end
