(* ===== verification/Py_Dynamic.thy ===== *)
theory Py_Dynamic
  imports Core_Errors Json_Text
begin

text \<open>
  Python's dynamically typed operations on decoded JSON values, with the exception each raises on
  a value of the wrong type: subscription, \<open>.get\<close>, truth value, iteration, \<open>+\<close>, \<open>int()\<close>.  The
  adapters and the stream accumulator apply them to whatever an upstream sent.
\<close>

text \<open>A float literal denotes zero when its mantissa has digits and all of them are 0.\<close>

definition float_zero :: "string \<Rightarrow> bool" where
  "float_zero t =
     (let m = takeWhile (\<lambda>c. c \<noteq> CHR ''e'' \<and> c \<noteq> CHR ''E'') t
      in list_ex is_digit m \<and> list_all (\<lambda>c. is_digit c \<longrightarrow> c = CHR ''0'') m)"

fun py_truthy :: "json \<Rightarrow> bool" where
  "py_truthy JNull = False"
| "py_truthy (JBool b) = b"
| "py_truthy (JInt i) = (i \<noteq> 0)"
| "py_truthy (JFloat t) = (\<not> float_zero t)"
| "py_truthy (JStr s) = (s \<noteq> [])"
| "py_truthy (JArr vs) = (vs \<noteq> [])"
| "py_truthy (JObj ms) = (ms \<noteq> [])"

text \<open>\<open>x or y\<close>.\<close>

definition py_or :: "json \<Rightarrow> json \<Rightarrow> json" where
  "py_or x y = (if py_truthy x then x else y)"

text \<open>\<open>x.get(k, d)\<close>: only a \<open>dict\<close> has the attribute.\<close>

fun py_get :: "json \<Rightarrow> string \<Rightarrow> json \<Rightarrow> exn + json" where
  "py_get (JObj ms) k d = Inr (case map_of ms k of None \<Rightarrow> d | Some v \<Rightarrow> v)"
| "py_get _ k d = Inl AttributeErr"

text \<open>\<open>x[k]\<close> with a string key.\<close>

fun py_getitem :: "json \<Rightarrow> string \<Rightarrow> exn + json" where
  "py_getitem (JObj ms) k = (case map_of ms k of None \<Rightarrow> Inl (KeyErr k) | Some v \<Rightarrow> Inr v)"
| "py_getitem _ k = Inl TypeErr"

text \<open>\<open>x[0]\<close>; a decoded object has string keys only.\<close>

fun py_first :: "json \<Rightarrow> exn + json" where
  "py_first (JArr vs) = (case vs of [] \<Rightarrow> Inl IndexErr | v # _ \<Rightarrow> Inr v)"
| "py_first (JStr s) = (case s of [] \<Rightarrow> Inl IndexErr | c # _ \<Rightarrow> Inr (JStr [c]))"
| "py_first (JObj ms) = Inl (KeyErr ''0'')"
| "py_first _ = Inl TypeErr"

text \<open>\<open>for v in x\<close>.\<close>

fun py_iter :: "json \<Rightarrow> exn + json list" where
  "py_iter (JArr vs) = Inr vs"
| "py_iter (JStr s) = Inr (map (\<lambda>c. JStr [c]) s)"
| "py_iter (JObj ms) = Inr (map (\<lambda>m. JStr (fst m)) ms)"
| "py_iter _ = Inl TypeErr"

fun is_dict :: "json \<Rightarrow> bool" where
  "is_dict (JObj ms) = True"
| "is_dict _ = False"

text \<open>The integer a value stands for under \<open>isinstance(v, int)\<close>: a \<open>bool\<close> is one.\<close>

fun int_instance :: "json \<Rightarrow> int option" where
  "int_instance (JInt i) = Some i"
| "int_instance (JBool b) = Some (if b then 1 else 0)"
| "int_instance _ = None"

definition jstr_opt :: "string option \<Rightarrow> json" where
  "jstr_opt s = (case s of None \<Rightarrow> JNull | Some t \<Rightarrow> JStr t)"

lemma py_get_error: "py_get x k d = Inl e \<Longrightarrow> e = AttributeErr \<and> \<not> is_dict x"
  by (cases x) auto

lemma py_get_Inr_iff: "(\<exists>v. py_get x k d = Inr v) \<longleftrightarrow> is_dict x"
  by (cases x) auto

end
