(* ===== verification/Api_Models.thy ===== *)
theory Api_Models
  imports Py_Dynamic "HOL-Library.Monad_Syntax"
begin

text \<open>
  The Pydantic models of \<open>models/api.py\<close>, \<open>models/provider.py\<close> and \<open>models/usage.py\<close>: their
  fields as records, the validators of the responses, and the JSON form (\<open>model_dump\<close>, \<open>model_validate\<close>) the
  cache and the adapters use; what a request body has to satisfy is in \<open>Request_Body\<close>.  Pydantic's own
  coercion of a JSON value to \<open>int\<close> is library code: it is the parameter \<open>to_int\<close> of the definitions that
  validate a body.
\<close>

subsection \<open>Messages and requests\<close>

datatype role = System | User | Assistant

record chat_message =
  msg_role :: role
  msg_content :: string

datatype stop_seq = StopStr string | StopList "string list"

record chat_request =
  req_model :: string
  messages :: "chat_message list"
  temperature :: pyfloat
  top_p :: "pyfloat option"
  frequency_penalty :: "pyfloat option"
  presence_penalty :: "pyfloat option"
  max_tokens :: "int option"
  stop :: "stop_seq option"
  seed :: "int option"
  user :: "string option"
  response_format :: "jobj option"
  stream :: bool

definition max_content :: nat where
  "max_content = 50000"

subsection \<open>Usage and responses\<close>

record usage =
  prompt_tokens :: int
  completion_tokens :: int
  total_tokens :: int

text \<open>The \<open>mode="before"\<close> validator: it sees the raw value, so only a negative \<^emph>\<open>integer\<close> is clamped.\<close>

fun never_negative :: "json \<Rightarrow> json" where
  "never_negative (JInt n) = (if n < 0 then JInt 0 else JInt n)"
| "never_negative v = v"

definition mk_usage :: "int \<Rightarrow> int \<Rightarrow> int \<Rightarrow> usage" where
  \<comment> \<open>\<open>Usage(prompt_tokens=p, completion_tokens=c, total_tokens=t)\<close> on integers\<close>
  "mk_usage p c t = \<lparr>prompt_tokens = max 0 p, completion_tokens = max 0 c, total_tokens = max 0 t\<rparr>"

definition zero_usage :: usage where
  "zero_usage = mk_usage 0 0 0"

definition usage_nonneg :: "usage \<Rightarrow> bool" where
  "usage_nonneg u \<longleftrightarrow> 0 \<le> prompt_tokens u \<and> 0 \<le> completion_tokens u \<and> 0 \<le> total_tokens u"

datatype finish_reason = Stop | Length | ContentFilter

record choice =
  choice_index :: int
  choice_message :: chat_message
  choice_finish :: finish_reason

record chat_response =
  resp_id :: string
  resp_created :: int
  resp_model :: string
  choices :: "choice list"
  resp_usage :: usage

subsection \<open>Provider configuration and usage records\<close>

text \<open>
  Prices are floats used only through \<open>Decimal(str(price))\<close>, the decimal their \<open>repr\<close> denotes; that of \<open>0.0\<close> has one
  decimal place.
\<close>

record model_pricing =
  input_cost_per_1m :: dec
  output_cost_per_1m :: dec

definition free_pricing :: model_pricing where
  "free_pricing = \<lparr>input_cost_per_1m = mk_dec 0 (- 1), output_cost_per_1m = mk_dec 0 (- 1)\<rparr>"

text \<open>A rate of at most two decimals, as all rates of the price tables are.\<close>

definition rate_ok :: "dec \<Rightarrow> bool" where
  "rate_ok r \<longleftrightarrow> - 2 \<le> expo r \<and> expo r \<le> 0 \<and> 0 \<le> coef r \<and> coef r \<le> 10 ^ 9"

record provider_config =
  cfg_name :: string
  base_url :: string
  supported_models :: "string list"
  priority :: int
  cfg_timeout :: pyfloat
  model_pricing_table :: "(string \<times> model_pricing) list"

definition pricing_for :: "provider_config \<Rightarrow> string \<Rightarrow> model_pricing" where
  "pricing_for c model =
     (case map_of (model_pricing_table c) model of None \<Rightarrow> free_pricing | Some p \<Rightarrow> p)"

record usage_record =
  ur_virtual_key_id :: int
  ur_provider :: string
  ur_model :: string
  ur_input_tokens :: int
  ur_output_tokens :: int
  ur_latency_ms :: int
  ur_estimated_cost :: dec

subsection \<open>JSON form of a request\<close>

fun role_text :: "role \<Rightarrow> string" where
  "role_text System = ''system''"
| "role_text User = ''user''"
| "role_text Assistant = ''assistant''"

definition message_json :: "chat_message \<Rightarrow> json" where
  "message_json m = JObj [(''role'', JStr (role_text (msg_role m))), (''content'', JStr (msg_content m))]"

fun stop_json :: "stop_seq \<Rightarrow> json" where
  "stop_json (StopStr s) = JStr s"
| "stop_json (StopList ss) = JArr (map JStr ss)"

text \<open>A field left out when it is \<open>None\<close> (\<open>exclude_none=True\<close>).\<close>

definition opt_field :: "string \<Rightarrow> ('a \<Rightarrow> json) \<Rightarrow> 'a option \<Rightarrow> jobj" where
  "opt_field k f x = (case x of None \<Rightarrow> [] | Some v \<Rightarrow> [(k, f v)])"

definition model_dump :: "chat_request \<Rightarrow> jobj" where
  "model_dump r =
     [(''model'', JStr (req_model r)), (''messages'', JArr (map message_json (messages r))),
      (''temperature'', JFloat (frepr (temperature r)))]
   @ opt_field ''top_p'' (\<lambda>f. JFloat (frepr f)) (top_p r)
   @ opt_field ''frequency_penalty'' (\<lambda>f. JFloat (frepr f)) (frequency_penalty r)
   @ opt_field ''presence_penalty'' (\<lambda>f. JFloat (frepr f)) (presence_penalty r)
   @ opt_field ''max_tokens'' JInt (max_tokens r)
   @ opt_field ''stop'' stop_json (stop r)
   @ opt_field ''seed'' JInt (seed r)
   @ opt_field ''user'' JStr (user r)
   @ opt_field ''response_format'' JObj (response_format r)
   @ [(''stream'', JBool (stream r))]"

subsection \<open>JSON form of a response\<close>

fun finish_text :: "finish_reason \<Rightarrow> string" where
  "finish_text Stop = ''stop''"
| "finish_text Length = ''length''"
| "finish_text ContentFilter = ''content_filter''"

definition usage_json :: "usage \<Rightarrow> json" where
  "usage_json u =
     JObj [(''prompt_tokens'', JInt (prompt_tokens u)),
           (''completion_tokens'', JInt (completion_tokens u)),
           (''total_tokens'', JInt (total_tokens u))]"

definition choice_json :: "choice \<Rightarrow> json" where
  "choice_json c =
     JObj [(''index'', JInt (choice_index c)), (''message'', message_json (choice_message c)),
           (''finish_reason'', JStr (finish_text (choice_finish c)))]"

definition response_json :: "chat_response \<Rightarrow> json" where
  "response_json r =
     JObj [(''id'', JStr (resp_id r)), (''object'', JStr ''chat.completion''),
           (''created'', JInt (resp_created r)), (''model'', JStr (resp_model r)),
           (''choices'', JArr (map choice_json (choices r))), (''usage'', usage_json (resp_usage r))]"

text \<open>
  Validation of a decoded body (\<open>ChatResponse.model_validate\<close>), \<open>None\<close> for a \<open>ValidationError\<close>.
  Unknown keys are ignored; \<open>field\<close> is a required field, \<open>field_or\<close> one with a default.
\<close>

definition field :: "jobj \<Rightarrow> string \<Rightarrow> (json \<Rightarrow> 'a option) \<Rightarrow> 'a option" where
  "field ms k f = (case map_of ms k of None \<Rightarrow> None | Some v \<Rightarrow> f v)"

definition field_or :: "jobj \<Rightarrow> string \<Rightarrow> (json \<Rightarrow> 'a option) \<Rightarrow> 'a \<Rightarrow> 'a option" where
  "field_or ms k f d = (case map_of ms k of None \<Rightarrow> Some d | Some v \<Rightarrow> f v)"

fun as_str :: "json \<Rightarrow> string option" where
  "as_str (JStr s) = Some s"
| "as_str _ = None"

fun as_obj :: "json \<Rightarrow> jobj option" where
  "as_obj (JObj ms) = Some ms"
| "as_obj _ = None"

fun as_list :: "json \<Rightarrow> json list option" where
  "as_list (JArr vs) = Some vs"
| "as_list _ = None"

definition as_role :: "json \<Rightarrow> role option" where
  "as_role v =
     (if v = JStr ''system'' then Some System
      else if v = JStr ''user'' then Some User
      else if v = JStr ''assistant'' then Some Assistant
      else None)"

definition as_finish :: "json \<Rightarrow> finish_reason option" where
  "as_finish v =
     (if v = JStr ''stop'' then Some Stop
      else if v = JStr ''length'' then Some Length
      else if v = JStr ''content_filter'' then Some ContentFilter
      else None)"

definition as_content :: "json \<Rightarrow> string option" where
  "as_content v = (case as_str v of None \<Rightarrow> None | Some s \<Rightarrow> if length s \<le> max_content then Some s else None)"

definition message_of_json :: "json \<Rightarrow> chat_message option" where
  "message_of_json v =
     do { ms \<leftarrow> as_obj v;
          r \<leftarrow> field ms ''role'' as_role;
          c \<leftarrow> field ms ''content'' as_content;
          Some \<lparr>msg_role = r, msg_content = c\<rparr> }"

definition choice_of_json :: "(json \<Rightarrow> int option) \<Rightarrow> json \<Rightarrow> choice option" where
  "choice_of_json to_int v =
     do { ms \<leftarrow> as_obj v;
          i \<leftarrow> field_or ms ''index'' to_int 0;
          m \<leftarrow> field ms ''message'' message_of_json;
          f \<leftarrow> field_or ms ''finish_reason'' as_finish Stop;
          Some \<lparr>choice_index = i, choice_message = m, choice_finish = f\<rparr> }"

definition usage_of_json :: "(json \<Rightarrow> int option) \<Rightarrow> json \<Rightarrow> usage option" where
  "usage_of_json to_int v =
     do { ms \<leftarrow> as_obj v;
          p \<leftarrow> field_or ms ''prompt_tokens'' (to_int \<circ> never_negative) 0;
          c \<leftarrow> field_or ms ''completion_tokens'' (to_int \<circ> never_negative) 0;
          t \<leftarrow> field_or ms ''total_tokens'' (to_int \<circ> never_negative) 0;
          Some \<lparr>prompt_tokens = p, completion_tokens = c, total_tokens = t\<rparr> }"

fun map_opt :: "('a \<Rightarrow> 'b option) \<Rightarrow> 'a list \<Rightarrow> 'b list option" where
  "map_opt f [] = Some []"
| "map_opt f (x # xs) = do { y \<leftarrow> f x; ys \<leftarrow> map_opt f xs; Some (y # ys) }"

definition response_of_json :: "(json \<Rightarrow> int option) \<Rightarrow> json \<Rightarrow> chat_response option" where
  "response_of_json to_int v =
     do { ms \<leftarrow> as_obj v;
          i \<leftarrow> field ms ''id'' as_str;
          _ \<leftarrow> field_or ms ''object'' (\<lambda>ob. if ob = JStr ''chat.completion'' then Some () else None) ();
          cr \<leftarrow> field ms ''created'' to_int;
          m \<leftarrow> field ms ''model'' as_str;
          vs \<leftarrow> field ms ''choices'' as_list;
          cs \<leftarrow> map_opt (choice_of_json to_int) vs;
          u \<leftarrow> field ms ''usage'' (usage_of_json to_int);
          Some \<lparr>resp_id = i, resp_created = cr, resp_model = m, choices = cs, resp_usage = u\<rparr> }"

text \<open>
  The instances the schema admits; every response the gateway builds or accepts is one.
\<close>

definition response_ok :: "chat_response \<Rightarrow> bool" where
  "response_ok r \<longleftrightarrow>
     usage_nonneg (resp_usage r) \<and>
     list_all (\<lambda>c. length (msg_content (choice_message c)) \<le> max_content) (choices r)"

subsection \<open>Lemmas\<close>

lemma mk_usage_nonneg [simp, gw_intros]: "usage_nonneg (mk_usage p c t)"
  by (simp add: usage_nonneg_def mk_usage_def)

lemma prompt_tokens_mk_usage [simp]: "prompt_tokens (mk_usage p c t) = max 0 p"
  and completion_tokens_mk_usage [simp]: "completion_tokens (mk_usage p c t) = max 0 c"
  and total_tokens_mk_usage [simp]: "total_tokens (mk_usage p c t) = max 0 t"
  by (simp_all add: mk_usage_def)

lemma map_opt_map: "(\<And>x. x \<in> set xs \<Longrightarrow> f (g x) = Some x) \<Longrightarrow> map_opt f (map g xs) = Some xs"
  by (induction xs) auto

lemma map_opt_Some_set:
  "map_opt f xs = Some ys \<Longrightarrow> y \<in> set ys \<Longrightarrow> \<exists>x \<in> set xs. f x = Some y"
  by (induction xs arbitrary: ys) (auto split: bind_splits)

lemma message_of_json_dump:
  "length (msg_content m) \<le> max_content \<Longrightarrow> message_of_json (message_json m) = Some m"
  by (cases "msg_role m")
    (simp_all add: message_of_json_def message_json_def field_def as_role_def as_content_def)

lemma choice_of_json_dump:
  assumes "\<And>i. to_int (JInt i) = Some i" and "length (msg_content (choice_message c)) \<le> max_content"
  shows "choice_of_json to_int (choice_json c) = Some c"
  using assms
  by (cases "choice_finish c")
    (simp_all add: choice_of_json_def choice_json_def field_def field_or_def message_of_json_dump
      as_finish_def)

lemma usage_of_json_dump:
  assumes "\<And>i. to_int (JInt i) = Some i" and "usage_nonneg u"
  shows "usage_of_json to_int (usage_json u) = Some u"
  using assms
  by (simp add: usage_of_json_def usage_json_def field_or_def usage_nonneg_def not_less [symmetric])

lemma response_of_json_dump:
  assumes int: "\<And>i. to_int (JInt i) = Some i" and ok: "response_ok r"
  shows "response_of_json to_int (response_json r) = Some r"
proof -
  have "map_opt (choice_of_json to_int) (map choice_json (choices r)) = Some (choices r)"
    using ok by (intro map_opt_map choice_of_json_dump int) (simp_all add: response_ok_def list_all_iff)
  moreover have "usage_of_json to_int (usage_json (resp_usage r)) = Some (resp_usage r)"
    using ok by (intro usage_of_json_dump int) (simp add: response_ok_def)
  ultimately show ?thesis
    by (simp add: response_of_json_def response_json_def field_def field_or_def int)
qed

lemma json_wf_response_json: "json_wf (response_json r)"
  by (auto simp: response_json_def choice_json_def message_json_def usage_json_def list_all_iff)

text \<open>A concrete request, for examples.\<close>

definition sample_request :: chat_request where
  "sample_request =
     \<lparr>req_model = ''m'', messages = [\<lparr>msg_role = User, msg_content = ''hi''\<rparr>],
      temperature = mk_float 1 ''1.0'', top_p = None, frequency_penalty = None,
      presence_penalty = None, max_tokens = None, stop = None, seed = None, user = None,
      response_format = None, stream = False\<rparr>"

end
