(* ===== verification/Provider_Registry.thy ===== *)
theory Provider_Registry
  imports Core_Config Api_Models
begin

text \<open>
  \<open>providers/factory.py\<close>: the static tables, the registry keyed by provider name and
  \<open>build_registry\<close>.  A provider is its configuration, the adapter class it is an instance of,
  its key and the base address the adapter computes.
\<close>

datatype adapter = OpenAIAdapter | AnthropicAdapter | MistralAdapter

record provider =
  config :: provider_config
  adapter_class :: adapter
  api_key :: "string option"
  adapter_base_url :: string

abbreviation provider_name :: "provider \<Rightarrow> string" where
  "provider_name p \<equiv> cfg_name (config p)"

subsection \<open>Static tables\<close>

definition OPENAI_BASE_URL :: string where "OPENAI_BASE_URL = ''https://api.openai.com/v1''"
definition ANTHROPIC_BASE_URL :: string where "ANTHROPIC_BASE_URL = ''https://api.anthropic.com''"
definition MISTRAL_BASE_URL :: string where "MISTRAL_BASE_URL = ''https://api.mistral.ai/v1''"
definition GROQ_BASE_URL :: string where "GROQ_BASE_URL = ''https://api.groq.com/openai/v1''"
definition GEMINI_BASE_URL :: string where
  "GEMINI_BASE_URL = ''https://generativelanguage.googleapis.com/v1beta/openai''"

definition OPENAI_MODELS :: "string list" where
  "OPENAI_MODELS = [''gpt-4o'', ''gpt-4o-mini'']"
definition ANTHROPIC_MODELS :: "string list" where
  "ANTHROPIC_MODELS = [''claude-3-5-sonnet-latest'', ''claude-3-5-haiku-latest'']"
definition MISTRAL_MODELS :: "string list" where
  "MISTRAL_MODELS = [''mistral-large-latest'', ''mistral-small-latest'']"
definition GROQ_SUPPORTED_MODELS :: "string list" where
  "GROQ_SUPPORTED_MODELS = [''llama-3.1-70b-versatile'', ''llama-3.1-8b-instant'']"
definition GEMINI_SUPPORTED_MODELS :: "string list" where
  "GEMINI_SUPPORTED_MODELS = [''gemini-2.0-flash'', ''gemini-2.5-pro'']"
definition DEEPSEEK_SUPPORTED_MODELS :: "string list" where
  "DEEPSEEK_SUPPORTED_MODELS = [''deepseek-chat'', ''deepseek-reasoner'']"
definition OLLAMA_SUPPORTED_MODELS :: "string list" where
  "OLLAMA_SUPPORTED_MODELS = [''llama3.2'']"

text \<open>The two rates by their \<open>repr\<close>, which is what the cost is computed from.\<close>

definition price :: "string \<Rightarrow> string \<Rightarrow> model_pricing" where
  "price i out = \<lparr>input_cost_per_1m = dec_of_repr i, output_cost_per_1m = dec_of_repr out\<rparr>"

definition OPENAI_PRICING :: "(string \<times> model_pricing) list" where
  "OPENAI_PRICING = [(''gpt-4o'', price ''2.5'' ''10.0''), (''gpt-4o-mini'', price ''0.15'' ''0.6'')]"
definition GROQ_PRICING :: "(string \<times> model_pricing) list" where
  "GROQ_PRICING = [(''llama-3.1-70b-versatile'', price ''0.59'' ''0.79''), (''llama-3.1-8b-instant'', price ''0.05'' ''0.08'')]"
definition ANTHROPIC_PRICING :: "(string \<times> model_pricing) list" where
  "ANTHROPIC_PRICING =
     [(''claude-3-5-sonnet-latest'', price ''3.0'' ''15.0''), (''claude-3-5-haiku-latest'', price ''0.8'' ''4.0'')]"
definition MISTRAL_PRICING :: "(string \<times> model_pricing) list" where
  "MISTRAL_PRICING = [(''mistral-large-latest'', price ''0.5'' ''1.5''), (''mistral-small-latest'', price ''0.15'' ''0.6'')]"
definition GEMINI_PRICING :: "(string \<times> model_pricing) list" where
  "GEMINI_PRICING = [(''gemini-2.0-flash'', price ''0.1'' ''0.4''), (''gemini-2.5-pro'', price ''1.25'' ''10.0'')]"
definition DEEPSEEK_PRICING :: "(string \<times> model_pricing) list" where
  "DEEPSEEK_PRICING = [(''deepseek-chat'', price ''0.27'' ''1.1''), (''deepseek-reasoner'', price ''0.55'' ''2.19'')]"
definition OLLAMA_PRICING :: "(string \<times> model_pricing) list" where
  "OLLAMA_PRICING = []"

lemmas static_tables =
  OPENAI_MODELS_def ANTHROPIC_MODELS_def MISTRAL_MODELS_def GROQ_SUPPORTED_MODELS_def
  GEMINI_SUPPORTED_MODELS_def DEEPSEEK_SUPPORTED_MODELS_def OLLAMA_SUPPORTED_MODELS_def
  OPENAI_PRICING_def GROQ_PRICING_def ANTHROPIC_PRICING_def MISTRAL_PRICING_def
  GEMINI_PRICING_def DEEPSEEK_PRICING_def OLLAMA_PRICING_def

subsection \<open>Registry\<close>

definition mk_config ::
    "string \<Rightarrow> string \<Rightarrow> string list \<Rightarrow> (string \<times> model_pricing) list \<Rightarrow> provider_config" where
  \<comment> \<open>\<open>_config\<close>: priority and timeout keep the defaults of \<open>ProviderConfig\<close>\<close>
  "mk_config name url models pricing =
     \<lparr>cfg_name = name, base_url = url, supported_models = models, priority = 0,
      cfg_timeout = mk_float 30 ''30.0'', model_pricing_table = pricing\<rparr>"

definition mk_provider :: "adapter \<Rightarrow> string \<Rightarrow> provider_config \<Rightarrow> string option \<Rightarrow> provider" where
  \<comment> \<open>the adapters' constructors: \<open>(config.base_url or DEFAULT_BASE_URL).rstrip("/")\<close>\<close>
  "mk_provider a default_url c key =
     \<lparr>config = c, adapter_class = a, api_key = key,
      adapter_base_url =
        py_rstrip_char (CHR ''/'') (if base_url c = [] then default_url else base_url c)\<rparr>"

type_synonym registry = "(string \<times> provider) list"

definition mk_registry :: "provider list \<Rightarrow> registry" where
  "mk_registry providers = dict_of (map (\<lambda>p. (provider_name p, p)) providers)"

definition registry_get :: "registry \<Rightarrow> string \<Rightarrow> provider option" where
  "registry_get r name = map_of r name"

definition registry_all :: "registry \<Rightarrow> provider list" where
  "registry_all r = map snd r"

text \<open>A setting counts as given when it is a non-empty text.\<close>

definition given :: "string option \<Rightarrow> bool" where
  "given k \<longleftrightarrow> (case k of None \<Rightarrow> False | Some s \<Rightarrow> s \<noteq> [])"

definition configured_providers :: "settings \<Rightarrow> provider list" where
  "configured_providers s =
     (if given (OPENAI_API_KEY s) then
        [mk_provider OpenAIAdapter OPENAI_BASE_URL
           (mk_config ''openai'' OPENAI_BASE_URL OPENAI_MODELS OPENAI_PRICING) (OPENAI_API_KEY s)]
      else [])
   @ (if given (GROQ_API_KEY s) then
        [mk_provider OpenAIAdapter OPENAI_BASE_URL
           (mk_config ''groq'' GROQ_BASE_URL GROQ_SUPPORTED_MODELS GROQ_PRICING) (GROQ_API_KEY s)]
      else [])
   @ (if given (ANTHROPIC_API_KEY s) then
        [mk_provider AnthropicAdapter ANTHROPIC_BASE_URL
           (mk_config ''anthropic'' ANTHROPIC_BASE_URL ANTHROPIC_MODELS ANTHROPIC_PRICING)
           (ANTHROPIC_API_KEY s)]
      else [])
   @ (if given (MISTRAL_API_KEY s) then
        [mk_provider MistralAdapter MISTRAL_BASE_URL
           (mk_config ''mistral'' MISTRAL_BASE_URL MISTRAL_MODELS MISTRAL_PRICING) (MISTRAL_API_KEY s)]
      else [])
   @ (if given (GEMINI_API_KEY s) then
        [mk_provider OpenAIAdapter OPENAI_BASE_URL
           (mk_config ''gemini'' GEMINI_BASE_URL GEMINI_SUPPORTED_MODELS GEMINI_PRICING)
           (GEMINI_API_KEY s)]
      else [])
   @ (if given (DEEPSEEK_API_KEY s) then
        [mk_provider OpenAIAdapter OPENAI_BASE_URL
           (mk_config ''deepseek'' (DEEPSEEK_BASE_URL s) DEEPSEEK_SUPPORTED_MODELS DEEPSEEK_PRICING)
           (DEEPSEEK_API_KEY s)]
      else [])
   @ (if OLLAMA_ENABLED s then
        [mk_provider OpenAIAdapter OPENAI_BASE_URL
           (mk_config ''ollama'' (OLLAMA_BASE_URL s) OLLAMA_SUPPORTED_MODELS OLLAMA_PRICING)
           (OLLAMA_API_KEY s)]
      else [])"

definition build_registry :: "settings \<Rightarrow> registry" where
  "build_registry s = mk_registry (configured_providers s)"

subsection \<open>Lemmas\<close>

lemma config_mk_provider [simp]: "config (mk_provider a d c k) = c"
  by (simp add: mk_provider_def)

lemma mk_config_simps [simp]:
  "cfg_name (mk_config n u ms ps) = n"
  "supported_models (mk_config n u ms ps) = ms"
  "priority (mk_config n u ms ps) = 0"
  "model_pricing_table (mk_config n u ms ps) = ps"
  "fval (cfg_timeout (mk_config n u ms ps)) = 30"
  by (simp_all add: mk_config_def)

lemma mk_registry_distinct:
  "distinct (map provider_name ps) \<Longrightarrow> registry_all (mk_registry ps) = ps"
  by (simp add: mk_registry_def registry_all_def dict_of_distinct comp_def)

lemma mk_registry_get:
  "distinct (map provider_name ps) \<Longrightarrow> p \<in> set ps \<Longrightarrow> registry_get (mk_registry ps) (provider_name p) = Some p"
  by (simp add: mk_registry_def registry_get_def dict_of_distinct comp_def)

text \<open>The names come from a fixed list, so they are distinct whichever providers are enabled.\<close>

lemma subseq_if: "f x = y \<Longrightarrow> subseq (map f (if b then [x] else [])) [y]"
  by simp

lemma configured_names:
  "subseq (map provider_name (configured_providers s))
     ([''openai''] @ [''groq''] @ [''anthropic''] @ [''mistral''] @ [''gemini''] @ [''deepseek''] @ [''ollama''])"
  unfolding configured_providers_def map_append
  by (intro list_emb_append_mono subseq_if) simp_all

lemma distinct_configured: "distinct (map provider_name (configured_providers s))"
  by (rule subseq_distinctI [OF configured_names]) simp

lemma registry_all_build: "registry_all (build_registry s) = configured_providers s"
  by (simp add: build_registry_def mk_registry_distinct distinct_configured)

end
