(* ===== verification/Routing.thy ===== *)
theory Routing
  imports Provider_Registry "HOL-Library.Multiset"
begin

text \<open>
  Provider selection (\<open>services/router.py\<close>), the pre-stream model check of
  \<open>routers/chat.py\<close> and the two model endpoints of \<open>routers/models.py\<close>: four readings of
  "which provider serves this model", and how they agree.
\<close>

subsection \<open>services/router.py\<close>

definition serves :: "string \<Rightarrow> provider \<Rightarrow> bool" where
  "serves model p \<longleftrightarrow>
     supported_models (config p) = [] \<or> model \<in> set (supported_models (config p))"

definition select_providers :: "registry \<Rightarrow> string \<Rightarrow> provider list" where
  "select_providers r model =
     sort_key (\<lambda>p. priority (config p)) (filter (serves model) (registry_all r))"

subsection \<open>routers/chat.py: the check before a stream\<close>

definition streaming_model_known :: "registry \<Rightarrow> string \<Rightarrow> bool" where
  "streaming_model_known r model =
     list_ex (\<lambda>p. supported_models (config p) = [] \<or> model \<in> set (supported_models (config p)))
       (registry_all r)"

subsection \<open>routers/models.py\<close>

definition providers_by_priority :: "registry \<Rightarrow> provider list" where
  "providers_by_priority r = sort_key (\<lambda>p. priority (config p)) (registry_all r)"

definition dict_setdefault :: "string \<Rightarrow> 'v \<Rightarrow> (string \<times> 'v) list \<Rightarrow> (string \<times> 'v) list" where
  "dict_setdefault k v d = (if map_of d k = None then d @ [(k, v)] else d)"

fun add_owned :: "string \<Rightarrow> string list \<Rightarrow> (string \<times> string) list \<Rightarrow> (string \<times> string) list" where
  "add_owned owner [] owned = owned"
| "add_owned owner (m # ms) owned = add_owned owner ms (dict_setdefault m owner owned)"

fun owned_by :: "provider list \<Rightarrow> (string \<times> string) list \<Rightarrow> (string \<times> string) list" where
  "owned_by [] owned = owned"
| "owned_by (p # ps) owned = owned_by ps (add_owned (provider_name p) (supported_models (config p)) owned)"

definition model_entry :: "string \<Rightarrow> string \<Rightarrow> json" where
  "model_entry model owner =
     JObj [(''id'', JStr model), (''object'', JStr ''model''), (''created'', JInt 0),
           (''owned_by'', JStr owner)]"

definition listed_models :: "registry \<Rightarrow> (string \<times> string) list" where
  "listed_models r = sort_members (owned_by (providers_by_priority r) [])"

definition list_models :: "registry \<Rightarrow> json" where
  "list_models r =
     JObj [(''object'', JStr ''list''),
           (''data'', JArr (map (\<lambda>(model, owner). model_entry model owner) (listed_models r)))]"

text \<open>The loop of \<open>get_model\<close>: the explicit owner, or the first wildcard provider seen.\<close>

fun find_owner :: "string \<Rightarrow> provider list \<Rightarrow> string option \<Rightarrow> string option \<times> string option" where
  "find_owner model [] wildcard = (None, wildcard)"
| "find_owner model (p # ps) wildcard =
     (if supported_models (config p) = [] then
        find_owner model ps (if wildcard = None then Some (provider_name p) else wildcard)
      else if model \<in> set (supported_models (config p)) then (Some (provider_name p), wildcard)
      else find_owner model ps wildcard)"

definition model_owner :: "registry \<Rightarrow> string \<Rightarrow> string option" where
  "model_owner r model =
     (case find_owner model (providers_by_priority r) None of
        (Some owner, _) \<Rightarrow> Some owner
      | (None, wildcard) \<Rightarrow> wildcard)"

definition get_model :: "registry \<Rightarrow> string \<Rightarrow> exn + json" where
  "get_model r model =
     (case model_owner r model of
        Some owner \<Rightarrow> Inr (model_entry model owner)
      | None \<Rightarrow>
          Inl (HttpExn
            \<lparr>status_code = 404,
             detail = ErrorDetail (''model '' @ [CHR 0x27] @ model @ [CHR 0x27] @ '' not found'')
                        ''model_not_found'' None,
             exc_headers = []\<rparr>))"

subsection \<open>Lemmas\<close>

lemma select_providers_set: "set (select_providers r m) = {p \<in> set (registry_all r). serves m p}"
  by (simp add: select_providers_def)

lemma set_providers_by_priority [simp]: "set (providers_by_priority r) = set (registry_all r)"
  by (simp add: providers_by_priority_def)

lemma filter_sort_key: "filter P (sort_key f xs) = sort_key f (filter P xs)"
  by (induction xs) (auto simp: filter_insort filter_insort_triv)

lemma select_by_priority: "select_providers r m = filter (serves m) (providers_by_priority r)"
  by (simp add: select_providers_def providers_by_priority_def filter_sort_key)

lemma find_owner_explicit:
  "find_owner m ps w =
     (case filter (\<lambda>p. m \<in> set (supported_models (config p))) ps of
        p # _ \<Rightarrow> (Some (provider_name p), snd (find_owner m ps w))
      | [] \<Rightarrow> (None, (case w of Some x \<Rightarrow> Some x | None \<Rightarrow>
                    (case filter (\<lambda>p. supported_models (config p) = []) ps of
                       [] \<Rightarrow> None | p # _ \<Rightarrow> Some (provider_name p)))))"
  by (induction m ps w rule: find_owner.induct) (auto split: list.splits option.splits)

lemma model_owner_explicit:
  assumes "filter (\<lambda>p. m \<in> set (supported_models (config p))) (providers_by_priority r) = p # ps"
  shows "model_owner r m = Some (provider_name p)"
  using assms find_owner_explicit [of m "providers_by_priority r" None]
  by (auto simp: model_owner_def split: prod.splits option.splits)

lemma model_owner_wildcard:
  assumes "filter (\<lambda>p. m \<in> set (supported_models (config p))) (providers_by_priority r) = []"
  shows "model_owner r m =
    (case filter (\<lambda>p. supported_models (config p) = []) (providers_by_priority r) of
       [] \<Rightarrow> None | p # _ \<Rightarrow> Some (provider_name p))"
  using assms find_owner_explicit [of m "providers_by_priority r" None]
  by (auto simp: model_owner_def split: list.splits)

lemma model_owner_some:
  assumes "model_owner r m = Some name"
  shows "\<exists>p \<in> set (registry_all r). serves m p \<and> name = provider_name p"
proof (cases "filter (\<lambda>p. m \<in> set (supported_models (config p))) (providers_by_priority r)")
  case (Cons p ps)
  then have "p \<in> set (registry_all r) \<and> m \<in> set (supported_models (config p))"
    using filter_eq_ConsD [OF Cons] by simp
  with assms model_owner_explicit [OF Cons] show ?thesis by (auto simp: serves_def)
next
  case Nil
  with assms model_owner_wildcard [OF Nil] obtain p ps where
    eq: "filter (\<lambda>p. supported_models (config p) = []) (providers_by_priority r) = p # ps"
    and name: "name = provider_name p"
    by (auto split: list.splits)
  then have "p \<in> set (registry_all r) \<and> supported_models (config p) = []"
    using filter_eq_ConsD [OF eq] by simp
  with name show ?thesis by (auto simp: serves_def)
qed

lemma model_owner_none:
  "model_owner r m = None \<longleftrightarrow> (\<forall>p \<in> set (registry_all r). \<not> serves m p)"
proof
  assume none: "model_owner r m = None"
  then have "filter (\<lambda>p. m \<in> set (supported_models (config p))) (providers_by_priority r) = []"
    using model_owner_explicit [of m r] by (cases "filter (\<lambda>p. m \<in> set (supported_models (config p))) (providers_by_priority r)") auto
  with none model_owner_wildcard [of m r] show "\<forall>p \<in> set (registry_all r). \<not> serves m p"
    by (auto simp: serves_def filter_empty_conv split: list.splits)
next
  assume "\<forall>p \<in> set (registry_all r). \<not> serves m p"
  then show "model_owner r m = None"
    using model_owner_some by (metis not_None_eq)
qed

lemma map_of_dict_setdefault:
  "map_of (dict_setdefault k v d) m =
     (case map_of d m of Some x \<Rightarrow> Some x | None \<Rightarrow> if m = k then Some v else None)"
  by (auto simp: dict_setdefault_def map_add_def split: option.splits)

lemma map_of_add_owned:
  "map_of (add_owned o' ms owned) m =
     (case map_of owned m of Some x \<Rightarrow> Some x | None \<Rightarrow> if m \<in> set ms then Some o' else None)"
  by (induction o' ms owned rule: add_owned.induct) (auto simp: map_of_dict_setdefault split: option.splits)

lemma map_of_owned_by:
  "map_of (owned_by ps owned) m =
     (case map_of owned m of
        Some x \<Rightarrow> Some x
      | None \<Rightarrow> (case filter (\<lambda>p. m \<in> set (supported_models (config p))) ps of
                   [] \<Rightarrow> None | p # _ \<Rightarrow> Some (provider_name p)))"
  by (induction ps owned rule: owned_by.induct) (auto simp: map_of_add_owned split: option.splits)

lemma distinct_dict_setdefault:
  "distinct (map fst d) \<Longrightarrow> distinct (map fst (dict_setdefault k v d))"
  by (auto simp: dict_setdefault_def map_of_eq_None_iff)

lemma distinct_add_owned: "distinct (map fst d) \<Longrightarrow> distinct (map fst (add_owned o' ms d))"
  by (induction o' ms d rule: add_owned.induct) (simp_all add: distinct_dict_setdefault)

lemma distinct_owned_by: "distinct (map fst d) \<Longrightarrow> distinct (map fst (owned_by ps d))"
  by (induction ps d rule: owned_by.induct) (simp_all add: distinct_add_owned)

lemma model_owner_first_explicit:
  assumes "select_providers r m = p # ps" and "m \<in> set (supported_models (config p))"
  shows "model_owner r m = Some (provider_name p)"
proof -
  obtain us vs where sel: "providers_by_priority r = us @ p # vs" "\<forall>u \<in> set us. \<not> serves m u"
    using assms(1) by (auto simp: select_by_priority filter_eq_Cons_iff)
  then have "filter (\<lambda>p. m \<in> set (supported_models (config p))) (providers_by_priority r) =
      p # filter (\<lambda>p. m \<in> set (supported_models (config p))) vs"
    using assms(2) by (auto simp: serves_def filter_empty_conv)
  then show ?thesis by (rule model_owner_explicit)
qed

text \<open>The shipped tables: no model is served by two of the providers \<open>build_registry\<close> makes.\<close>

definition table_owner :: "string \<Rightarrow> string" where
  "table_owner m =
     (if m \<in> set OPENAI_MODELS then ''openai''
      else if m \<in> set GROQ_SUPPORTED_MODELS then ''groq''
      else if m \<in> set ANTHROPIC_MODELS then ''anthropic''
      else if m \<in> set MISTRAL_MODELS then ''mistral''
      else if m \<in> set GEMINI_SUPPORTED_MODELS then ''gemini''
      else if m \<in> set DEEPSEEK_SUPPORTED_MODELS then ''deepseek''
      else ''ollama'')"

lemma configured_tables:
  "p \<in> set (configured_providers s) \<Longrightarrow>
     (provider_name p, supported_models (config p), model_pricing_table (config p)) \<in>
       {(''openai'', OPENAI_MODELS, OPENAI_PRICING), (''groq'', GROQ_SUPPORTED_MODELS, GROQ_PRICING),
        (''anthropic'', ANTHROPIC_MODELS, ANTHROPIC_PRICING),
        (''mistral'', MISTRAL_MODELS, MISTRAL_PRICING),
        (''gemini'', GEMINI_SUPPORTED_MODELS, GEMINI_PRICING),
        (''deepseek'', DEEPSEEK_SUPPORTED_MODELS, DEEPSEEK_PRICING),
        (''ollama'', OLLAMA_SUPPORTED_MODELS, OLLAMA_PRICING)}"
  unfolding configured_providers_def set_append Un_iff
  by (elim disjE) (simp_all split: if_splits)

lemma table_owner_models:
  "list_all (\<lambda>m. table_owner m = ''openai'') OPENAI_MODELS"
  "list_all (\<lambda>m. table_owner m = ''groq'') GROQ_SUPPORTED_MODELS"
  "list_all (\<lambda>m. table_owner m = ''anthropic'') ANTHROPIC_MODELS"
  "list_all (\<lambda>m. table_owner m = ''mistral'') MISTRAL_MODELS"
  "list_all (\<lambda>m. table_owner m = ''gemini'') GEMINI_SUPPORTED_MODELS"
  "list_all (\<lambda>m. table_owner m = ''deepseek'') DEEPSEEK_SUPPORTED_MODELS"
  "list_all (\<lambda>m. table_owner m = ''ollama'') OLLAMA_SUPPORTED_MODELS"
  by code_simp+

lemma configured_owner:
  assumes "p \<in> set (configured_providers s)" and "serves m p"
  shows "provider_name p = table_owner m"
proof -
  have "supported_models (config p) \<noteq> [] \<and>
      list_all (\<lambda>m. table_owner m = provider_name p) (supported_models (config p))"
    using configured_tables [OF assms(1)]
    by (elim insertE emptyE) (simp_all add: table_owner_models, simp_all add: static_tables)
  with assms(2) show ?thesis by (auto simp: serves_def list_all_iff)
qed

definition rated :: "(string \<times> model_pricing) list \<Rightarrow> string \<Rightarrow> bool" where
  "rated table m =
     (case map_of table m of
        None \<Rightarrow> False
      | Some q \<Rightarrow>
          0 < coef (input_cost_per_1m q) \<and> rate_ok (input_cost_per_1m q) \<and>
          0 < coef (output_cost_per_1m q) \<and> rate_ok (output_cost_per_1m q))"

lemma rated_tables:
  "list_all (rated OPENAI_PRICING) OPENAI_MODELS"
  "list_all (rated GROQ_PRICING) GROQ_SUPPORTED_MODELS"
  "list_all (rated ANTHROPIC_PRICING) ANTHROPIC_MODELS"
  "list_all (rated MISTRAL_PRICING) MISTRAL_MODELS"
  "list_all (rated GEMINI_PRICING) GEMINI_SUPPORTED_MODELS"
  "list_all (rated DEEPSEEK_PRICING) DEEPSEEK_SUPPORTED_MODELS"
  by code_simp+

lemma same_image_at_most_one:
  assumes "distinct (map f xs)" and "\<And>x. x \<in> set xs \<Longrightarrow> f x = c"
  shows "length xs \<le> 1"
proof (cases xs)
  case (Cons x ys)
  with assms show ?thesis by (cases ys) auto
qed simp

subsection \<open>Properties\<close>

text \<open>
  The readings of "unknown model" coincide: the check before a stream fails exactly when the router
  finds no candidate, and exactly then no provider owns the model.
\<close>

lemma streaming_model_known_iff: "streaming_model_known r m \<longleftrightarrow> select_providers r m \<noteq> []"
proof -
  have "select_providers r m = [] \<longleftrightarrow> (\<forall>p \<in> set (registry_all r). \<not> serves m p)"
    using select_providers_set [of r m] by (auto simp flip: set_empty)
  then show ?thesis by (auto simp: streaming_model_known_def serves_def list_ex_iff)
qed

text \<open>
  The owner the model endpoints report, read off the router's candidates: the first candidate that
  names the model in its list, else the first one.
\<close>

lemma explicit_candidates:
  "filter (\<lambda>p. m \<in> set (supported_models (config p))) (select_providers r m) =
   filter (\<lambda>p. m \<in> set (supported_models (config p))) (providers_by_priority r)"
  by (auto simp: select_by_priority serves_def intro: filter_cong)

lemma wildcard_candidates:
  assumes "filter (\<lambda>p. m \<in> set (supported_models (config p))) (select_providers r m) = []"
  shows "select_providers r m = filter (\<lambda>p. supported_models (config p) = []) (providers_by_priority r)"
proof -
  have "serves m p \<longleftrightarrow> supported_models (config p) = []" if "p \<in> set (providers_by_priority r)" for p
    using assms that by (auto simp: select_by_priority serves_def filter_empty_conv)
  then show ?thesis unfolding select_by_priority by (rule filter_cong [OF refl])
qed

lemma model_owner_candidates:
  "model_owner r m =
     (case filter (\<lambda>p. m \<in> set (supported_models (config p))) (select_providers r m) @ select_providers r m of
        [] \<Rightarrow> None | p # _ \<Rightarrow> Some (provider_name p))"
proof (cases "filter (\<lambda>p. m \<in> set (supported_models (config p))) (select_providers r m)")
  case Nil
  with model_owner_wildcard [of m r] show ?thesis
    by (simp add: explicit_candidates wildcard_candidates split: list.splits)
next
  case (Cons p ps)
  with model_owner_explicit [of m r p ps] show ?thesis by (simp add: explicit_candidates)
qed

lemma listed_models_candidates:
  "map_of (listed_models r) m =
     (case filter (\<lambda>p. m \<in> set (supported_models (config p))) (select_providers r m) of
        [] \<Rightarrow> None | p # _ \<Rightarrow> Some (provider_name p))"
  by (simp add: listed_models_def map_of_sort_members distinct_owned_by map_of_owned_by
      explicit_candidates)

text \<open>
  C1. Routing, and its agreement with the rest of the API.  A provider is a candidate exactly when
  it is registered and either lists the model or lists none; candidates come in ascending priority,
  those of one priority in the order of registration.  A stream is refused as unknown exactly when
  there is no candidate.  \<open>GET /v1/models/{id}\<close> reports the first candidate that names the model,
  else the first candidate, else answers 404; \<open>GET /v1/models\<close> lists the model exactly when some
  candidate names it, under the same owner.
\<close>

theorem routing_agrees:
  "(p \<in> set (select_providers r m) \<longleftrightarrow>
      p \<in> set (registry_all r) \<and>
      (supported_models (config p) = [] \<or> m \<in> set (supported_models (config p)))) \<and>
   sorted (map (\<lambda>q. priority (config q)) (select_providers r m)) \<and>
   filter (\<lambda>q. priority (config q) = k) (select_providers r m) =
     filter (\<lambda>q. priority (config q) = k \<and>
        (supported_models (config q) = [] \<or> m \<in> set (supported_models (config q)))) (registry_all r) \<and>
   (streaming_model_known r m \<longleftrightarrow> select_providers r m \<noteq> []) \<and>
   get_model r m =
     (case filter (\<lambda>q. m \<in> set (supported_models (config q))) (select_providers r m) @ select_providers r m of
        q # _ \<Rightarrow> Inr (model_entry m (provider_name q))
      | [] \<Rightarrow>
          Inl (HttpExn
            \<lparr>status_code = 404,
             detail = ErrorDetail (''model '' @ [CHR 0x27] @ m @ [CHR 0x27] @ '' not found'')
                        ''model_not_found'' None,
             exc_headers = []\<rparr>)) \<and>
   map_of (listed_models r) m =
     (case filter (\<lambda>q. m \<in> set (supported_models (config q))) (select_providers r m) of
        q # _ \<Rightarrow> Some (provider_name q)
      | [] \<Rightarrow> None)"
proof (intro conjI)
  show "get_model r m =
     (case filter (\<lambda>q. m \<in> set (supported_models (config q))) (select_providers r m) @ select_providers r m of
        q # _ \<Rightarrow> Inr (model_entry m (provider_name q))
      | [] \<Rightarrow>
          Inl (HttpExn
            \<lparr>status_code = 404,
             detail = ErrorDetail (''model '' @ [CHR 0x27] @ m @ [CHR 0x27] @ '' not found'')
                        ''model_not_found'' None,
             exc_headers = []\<rparr>))"
    by (simp add: get_model_def model_owner_candidates split: list.splits)
  show "filter (\<lambda>q. priority (config q) = k) (select_providers r m) =
     filter (\<lambda>q. priority (config q) = k \<and>
        (supported_models (config q) = [] \<or> m \<in> set (supported_models (config q)))) (registry_all r)"
    by (simp add: select_providers_def sort_key_stable serves_def conj_commute)
qed (auto simp: select_providers_set serves_def streaming_model_known_iff listed_models_candidates
      select_providers_def split: list.splits)

definition sample_provider :: "string \<Rightarrow> int \<Rightarrow> string list \<Rightarrow> provider" where
  \<comment> \<open>a provider for the witnesses: a name, a priority and the models it lists\<close>
  "sample_provider name prio models =
     mk_provider OpenAIAdapter OPENAI_BASE_URL
       ((mk_config name OPENAI_BASE_URL models [])\<lparr>priority := prio\<rparr>) None"

lemma sample_provider_simps [simp]:
  "cfg_name (config (sample_provider n k ms)) = n"
  "supported_models (config (sample_provider n k ms)) = ms"
  "priority (config (sample_provider n k ms)) = k"
  "model_pricing_table (config (sample_provider n k ms)) = []"
  by (simp_all add: sample_provider_def mk_config_def)

text \<open>
  The endpoints do not report the provider the router tries first when that one is a wildcard
  (no model list) of better priority than an explicit owner: the router's chain starts with the
  wildcard provider, \<open>GET /v1/models/{id}\<close> and \<open>GET /v1/models\<close> name the explicit one.
\<close>

theorem wildcard_first_owner_differs:
  "let w = sample_provider ''wild'' 0 []; e = sample_provider ''explicit'' 1 [''m''];
       r = mk_registry [w, e]
   in select_providers r ''m'' = [w, e] \<and>
      get_model r ''m'' = Inr (model_entry ''m'' ''explicit'') \<and>
      listed_models r = [(''m'', ''explicit'')]"
  by (simp add: mk_registry_def dict_of_def select_providers_def registry_all_def serves_def Let_def
      get_model_def model_owner_def providers_by_priority_def listed_models_def
      dict_setdefault_def sort_members_def)

text \<open>
  C16. With the shipped tables every model has at most one candidate: whatever keys are configured,
  the chain the router hands to the fallback engine has length at most one.
\<close>

theorem default_registry_single_candidate:
  "length (select_providers (build_registry s) m) \<le> 1"
proof (rule same_image_at_most_one)
  have "distinct (map provider_name (filter (serves m) (configured_providers s)))"
    using distinct_configured [of s] by (simp add: distinct_map inj_on_def)
  then show "distinct (map provider_name (select_providers (build_registry s) m))"
    by (simp add: select_providers_def registry_all_build distinct_map inj_on_def)
  fix p
  assume "p \<in> set (select_providers (build_registry s) m)"
  then show "provider_name p = table_owner m"
    using configured_owner [of p s m] by (simp add: select_providers_set registry_all_build)
qed

text \<open>
  Every model of every provider \<open>build_registry\<close> registers, Ollama's excepted, has a strictly
  positive input and output rate of at most two decimals: no paid model is accounted at zero cost by omission, and its
  cost is computed without rounding.
\<close>

theorem registered_models_are_priced:
  assumes "p \<in> set (registry_all (build_registry s))" and "provider_name p \<noteq> ''ollama''"
    and "m \<in> set (supported_models (config p))"
  shows "0 < dec_val (input_cost_per_1m (pricing_for (config p) m)) \<and> rate_ok (input_cost_per_1m (pricing_for (config p) m)) \<and>
         0 < dec_val (output_cost_per_1m (pricing_for (config p) m)) \<and> rate_ok (output_cost_per_1m (pricing_for (config p) m))"
proof -
  have "list_all (rated (model_pricing_table (config p))) (supported_models (config p))"
    using configured_tables [of p s] assms(1,2)
    by (auto simp: registry_all_build rated_tables)
  with assms(3) have "rated (model_pricing_table (config p)) m" by (simp add: list_all_iff)
  then show ?thesis by (auto simp: rated_def pricing_for_def dec_val_def split: option.splits)
qed

theorem registered_models_are_priced_witness:
  "0 < dec_val (input_cost_per_1m (pricing_for (mk_config ''openai'' OPENAI_BASE_URL OPENAI_MODELS
          OPENAI_PRICING) ''gpt-4o'')) \<and>
   0 < dec_val (output_cost_per_1m (pricing_for (mk_config ''openai'' OPENAI_BASE_URL OPENAI_MODELS
          OPENAI_PRICING) ''gpt-4o''))"
  using registered_models_are_priced
    [of "mk_provider OpenAIAdapter OPENAI_BASE_URL
           (mk_config ''openai'' OPENAI_BASE_URL OPENAI_MODELS OPENAI_PRICING) (Some ''k'')"
        "default_settings\<lparr>OPENAI_API_KEY := Some ''k''\<rparr>" "''gpt-4o''"]
  by (simp add: registry_all_build configured_providers_def default_settings_def given_def
      OPENAI_MODELS_def)

end
