(* ===== verification/Fallback.thy ===== *)
theory Fallback
  imports Routing
begin

text \<open>
  The fallback engine: \<open>services/fallback.py\<close> for complete responses and the provider loop of
  \<open>stream_chat_completion\<close> in \<open>services/streaming.py\<close> for streams.  The upstream providers are
  parameters: \<open>call p req w\<close> is the awaited \<open>provider.chat_completion(request)\<close> in the outside
  world \<open>w\<close>; \<open>open_stream p req w\<close> is the run of the provider's line iterator, its lines and the
  exception it ends with, if any.
\<close>

type_synonym ('w, 'r) provider_call = "provider \<Rightarrow> chat_request \<Rightarrow> 'w \<Rightarrow> (exn + 'r) \<times> 'w"
type_synonym 'w stream_call = "provider \<Rightarrow> chat_request \<Rightarrow> 'w \<Rightarrow> (string list \<times> exn option) \<times> 'w"

fun join_names :: "string list \<Rightarrow> string" where
  "join_names [] = []"
| "join_names [n] = n"
| "join_names (n # m # ns) = n @ '', '' @ join_names (m # ns)"

definition no_provider :: "string \<Rightarrow> string list \<Rightarrow> provider_error option \<Rightarrow> exn" where
  "no_provider model attempted lst =
     NoProviderExn
       \<lparr>npa_message = ''No provider available for model '' @ [CHR 0x27] @ model @ [CHR 0x27] @
                      '' (attempted: '' @ join_names attempted @ '')'',
        attempted_providers = attempted, last_error = lst\<rparr>"

subsection \<open>services/fallback.py\<close>

fun try_providers ::
    "('w, 'r) provider_call \<Rightarrow> provider list \<Rightarrow> chat_request \<Rightarrow> string list \<Rightarrow>
     provider_error option \<Rightarrow> 'w \<Rightarrow> (exn + provider \<times> 'r) \<times> 'w" where
  "try_providers call [] req attempted lst w =
     (Inl (no_provider (req_model req) attempted lst), w)"
| "try_providers call (p # ps) req attempted lst w =
     (case call p req w of
        (Inr response, w') \<Rightarrow> (Inr (p, response), w')
      | (Inl exc, w') \<Rightarrow>
          (case exc of
             ProviderExn e \<Rightarrow>
               try_providers call ps req (attempted @ [provider_name p]) (Some e) w'
           | _ \<Rightarrow> (Inl exc, w')))"

definition execute_with_fallback ::
    "('w, 'r) provider_call \<Rightarrow> provider list \<Rightarrow> chat_request \<Rightarrow> 'w \<Rightarrow> (exn + provider \<times> 'r) \<times> 'w" where
  "execute_with_fallback call providers req w = try_providers call providers req [] None w"

subsection \<open>services/streaming.py: \<open>stream_chat_completion\<close>\<close>

fun try_streams ::
    "'w stream_call \<Rightarrow> provider list \<Rightarrow> chat_request \<Rightarrow> string list \<Rightarrow>
     provider_error option \<Rightarrow> 'w \<Rightarrow> ((provider \<times> string) list \<times> exn option) \<times> 'w" where
  "try_streams open_stream [] req attempted lst w =
     (([], Some (no_provider (req_model req) attempted lst)), w)"
| "try_streams open_stream (p # ps) req attempted lst w =
     (case open_stream p req w of
        (([], None), w') \<Rightarrow>
          try_streams open_stream ps req (attempted @ [provider_name p]) lst w'
      | (([], Some exc), w') \<Rightarrow>
          (case exc of
             ProviderExn e \<Rightarrow>
               try_streams open_stream ps req (attempted @ [provider_name p]) (Some e) w'
           | _ \<Rightarrow> (([], Some exc), w'))
      | ((first # rest, final), w') \<Rightarrow> ((map (Pair p) (first # rest), final), w'))"

definition stream_chat_completion ::
    "'w stream_call \<Rightarrow> registry \<Rightarrow> chat_request \<Rightarrow> 'w \<Rightarrow> ((provider \<times> string) list \<times> exn option) \<times> 'w" where
  "stream_chat_completion open_stream r req w =
     try_streams open_stream (select_providers r (req_model req)) req [] None w"

subsection \<open>Runs of failing providers\<close>

text \<open>
  The calls of providers that all fail with a provider error, in order: the errors and the world
  they leave; \<open>None\<close> when one of them does not fail that way.
\<close>

fun failing_calls ::
    "('w, 'r) provider_call \<Rightarrow> provider list \<Rightarrow> chat_request \<Rightarrow> 'w \<Rightarrow> (provider_error list \<times> 'w) option" where
  "failing_calls call [] req w = Some ([], w)"
| "failing_calls call (p # ps) req w =
     (case call p req w of
        (Inl (ProviderExn e), w') \<Rightarrow>
          (case failing_calls call ps req w' of
             None \<Rightarrow> None | Some (es, w'') \<Rightarrow> Some (e # es, w''))
      | _ \<Rightarrow> None)"

definition last_of :: "'a option \<Rightarrow> 'a list \<Rightarrow> 'a option" where
  "last_of d es = (if es = [] then d else Some (last es))"

lemma last_of_simps [simp]: "last_of d [] = d" "last_of d (e # es) = last_of (Some e) es"
  by (simp_all add: last_of_def)

lemma try_providers_failing:
  "failing_calls call us req w = Some (es, w') \<Longrightarrow>
     try_providers call (us @ vs) req att l w =
     try_providers call vs req (att @ map provider_name us) (last_of l es) w'"
  by (induction us arbitrary: w es att l)
    (auto split: prod.splits sum.splits exn.splits option.splits)

text \<open>
  Either all providers fail, or there is a first one that does not: its answer, or the exception
  that is no provider error, is the result, in the world its call left.
\<close>

lemma failing_calls_split:
  obtains es w' where "failing_calls call ps req w = Some (es, w')"
  | us p vs es w1 x w' where "ps = us @ p # vs" and "failing_calls call us req w = Some (es, w1)"
      and "call p req w1 = (x, w')" and "\<forall>e. x \<noteq> Inl (ProviderExn e)"
proof (induction ps arbitrary: w thesis)
  case Nil
  show ?case by (rule Nil(1) [of "[]" w]) simp
next
  case (Cons q ps)
  obtain x w1 where x: "call q req w = (x, w1)" by (cases "call q req w")
  show ?case
  proof (cases "\<exists>e. x = Inl (ProviderExn e)")
    case True
    with x obtain e where e: "call q req w = (Inl (ProviderExn e), w1)" by blast
    show ?thesis
    proof (rule Cons.IH [of w1])
      fix es w' assume "failing_calls call ps req w1 = Some (es, w')"
      with e show ?thesis by (intro Cons.prems(1) [of "e # es" w']) simp
    next
      fix us p vs es w2 y w'
      assume "ps = us @ p # vs" "failing_calls call us req w1 = Some (es, w2)"
        "call p req w2 = (y, w')" "\<forall>e. y \<noteq> Inl (ProviderExn e)"
      with e show ?thesis by (intro Cons.prems(2) [of "q # us" p vs "e # es" w2 y w']) simp_all
    qed
  next
    case False
    with x show ?thesis by (intro Cons.prems(2) [of "[]" q ps "[]" w x w1]) simp_all
  qed
qed

lemma try_providers_first:
  assumes "failing_calls call us req w = Some (es, w1)" and "call p req w1 = (x, w')"
    and "\<forall>e. x \<noteq> Inl (ProviderExn e)"
  shows "try_providers call (us @ p # vs) req att l w =
    ((case x of Inr r \<Rightarrow> Inr (p, r) | Inl e \<Rightarrow> Inl e), w')"
  using assms by (auto simp: try_providers_failing [OF assms(1)] split: sum.splits exn.splits)

lemma try_providers_Inr:
  assumes "try_providers call ps req att l w = (Inr (p, r), w')"
  shows "\<exists>us vs es w1. ps = us @ p # vs \<and> failing_calls call us req w = Some (es, w1) \<and>
                   call p req w1 = (Inr r, w')"
  using failing_calls_split [of call ps req w]
proof cases
  case (1 es w1)
  with assms try_providers_failing [OF 1, of "[]" att l] show ?thesis by simp
next
  case (2 us q vs es w1 x w2)
  with assms try_providers_first [OF 2(2-4), of vs att l] show ?thesis
    by (auto split: sum.splits)
qed


text \<open>
  The runs of providers that gave no line, in order: each ended, or failed with a provider error;
  the last such error and the world they leave, \<open>None\<close> when one of them did otherwise.
\<close>

fun silent_streams ::
    "'w stream_call \<Rightarrow> provider list \<Rightarrow> chat_request \<Rightarrow> provider_error option \<Rightarrow> 'w \<Rightarrow>
     (provider_error option \<times> 'w) option" where
  "silent_streams open_stream [] req lst w = Some (lst, w)"
| "silent_streams open_stream (p # ps) req lst w =
     (case open_stream p req w of
        (([], None), w') \<Rightarrow> silent_streams open_stream ps req lst w'
      | (([], Some (ProviderExn e)), w') \<Rightarrow> silent_streams open_stream ps req (Some e) w'
      | _ \<Rightarrow> None)"

definition silent :: "string list \<Rightarrow> exn option \<Rightarrow> bool" where
  "silent ls fin \<longleftrightarrow> ls = [] \<and> (fin = None \<or> (\<exists>e. fin = Some (ProviderExn e)))"

lemma try_streams_silent:
  "silent_streams open_stream us req lst w = Some (l, w') \<Longrightarrow>
     try_streams open_stream (us @ vs) req att lst w =
     try_streams open_stream vs req (att @ map provider_name us) l w'"
  by (induction us arbitrary: w lst att)
    (auto split: prod.splits list.splits option.splits exn.splits)

lemma silent_streams_split:
  obtains l w' where "silent_streams open_stream ps req lst w = Some (l, w')"
  | us p vs l w1 ls fin w' where "ps = us @ p # vs" and "silent_streams open_stream us req lst w = Some (l, w1)"
      and "open_stream p req w1 = ((ls, fin), w')" and "\<not> silent ls fin"
proof (induction ps arbitrary: w lst thesis)
  case Nil
  show ?case by (rule Nil(1) [of lst w]) simp
next
  case (Cons q ps)
  obtain ls fin w1 where x: "open_stream q req w = ((ls, fin), w1)" by (metis prod.exhaust)
  show ?case
  proof (cases "silent ls fin")
    case True
    define lst' where "lst' = (case fin of Some (ProviderExn e) \<Rightarrow> Some e | _ \<Rightarrow> lst)"
    have skip: "silent_streams open_stream (q # us) req lst w = silent_streams open_stream us req lst' w1"
      for us using True x by (auto simp: silent_def lst'_def)
    show ?thesis
    proof (rule Cons.IH [where w = w1 and lst = lst'])
      fix l w' assume "silent_streams open_stream ps req lst' w1 = Some (l, w')"
      then show ?thesis using skip [of ps] by (intro Cons.prems(1) [of l w']) simp
    next
      fix us p vs l w2 ls fin w'
      assume "ps = us @ p # vs" "silent_streams open_stream us req lst' w1 = Some (l, w2)"
        "open_stream p req w2 = ((ls, fin), w')" "\<not> silent ls fin"
      then show ?thesis using skip [of us] by (intro Cons.prems(2) [of "q # us" p vs l w2 ls fin w']) simp_all
    qed
  next
    case False
    with x show ?thesis by (intro Cons.prems(2) [of "[]" q ps lst w ls fin w1]) simp_all
  qed
qed

lemma try_streams_first:
  assumes "silent_streams open_stream us req lst w = Some (l, w1)"
    and "open_stream p req w1 = ((ls, fin), w')" and "\<not> silent ls fin"
  shows "try_streams open_stream (us @ p # vs) req att lst w = ((map (Pair p) ls, fin), w')"
  using assms(2,3)
  by (auto simp: try_streams_silent [OF assms(1)] silent_def split: list.splits option.splits exn.splits)

lemma try_streams_source:
  assumes "try_streams open_stream ps req att lst w = ((out, fin), w')" and "out \<noteq> []"
  shows "\<exists>p ls w1. p \<in> set ps \<and> out = map (Pair p) ls \<and> open_stream p req w1 = ((ls, fin), w')"
  using silent_streams_split [of open_stream ps req lst w]
proof cases
  case (1 l w1)
  with assms try_streams_silent [OF 1, of "[]" att] show ?thesis by simp
next
  case (2 us p vs l w1 ls fin' w2)
  with assms(1) try_streams_first [OF 2(2-4), of vs att] have
    "p \<in> set ps \<and> out = map (Pair p) ls \<and> open_stream p req w1 = ((ls, fin), w')" by simp
  then show ?thesis by blast
qed

subsection \<open>Properties\<close>

text \<open>
  C2. Every outcome of the fallback chain.  A response is returned with provider \<open>p\<close> exactly when
  every provider before \<open>p\<close> was called, in order, and raised a provider error, and \<open>p\<close>'s own call
  returned the response; an exception is raised exactly when either all providers failed and it is
  the "no provider" error naming them all, or it is no provider error and was raised by the first
  provider that did not fail with one.  The world is the one the last of these calls left, so no
  later provider was called.
\<close>

theorem fallback_returns_first_success:
  "execute_with_fallback call ps req w = (res, w') \<longleftrightarrow>
     (case res of
        Inr (p, r) \<Rightarrow>
          (\<exists>us vs es w1. ps = us @ p # vs \<and> failing_calls call us req w = Some (es, w1) \<and>
                         call p req w1 = (Inr r, w'))
      | Inl exc \<Rightarrow>
          (\<exists>es. failing_calls call ps req w = Some (es, w') \<and>
                exc = no_provider (req_model req) (map provider_name ps) (last_of None es)) \<or>
          (\<exists>us p vs es w1. ps = us @ p # vs \<and> failing_calls call us req w = Some (es, w1) \<and>
                           call p req w1 = (Inl exc, w') \<and> (\<forall>e. exc \<noteq> ProviderExn e)))"
    (is "?run \<longleftrightarrow> ?outcome")
proof
  assume ?run
  with failing_calls_split [of call ps req w] show ?outcome
  proof cases
    case (1 es w1)
    with \<open>?run\<close> try_providers_failing [OF 1, of "[]" "[]" None] show ?thesis
      by (auto simp: execute_with_fallback_def)
  next
    case (2 us p vs es w1 x w2)
    with \<open>?run\<close> try_providers_first [OF 2(2-4), of vs "[]" None]
    have "(case x of Inr r \<Rightarrow> Inr (p, r) | Inl e \<Rightarrow> Inl e) = res" "w2 = w'"
      by (simp_all add: execute_with_fallback_def)
    with 2 show ?thesis by (cases x) (clarsimp, blast)+
  qed
next
  assume ?outcome
  then show ?run
  proof (cases res)
    case (Inr pr)
    with \<open>?outcome\<close> show ?thesis
      by (auto simp: execute_with_fallback_def try_providers_failing split: prod.splits)
  next
    case (Inl exc)
    with \<open>?outcome\<close> consider es where "failing_calls call ps req w = Some (es, w')"
        "exc = no_provider (req_model req) (map provider_name ps) (last_of None es)"
      | us p vs es w1 where "ps = us @ p # vs" "failing_calls call us req w = Some (es, w1)"
          "call p req w1 = (Inl exc, w')" "\<forall>e. exc \<noteq> ProviderExn e" by auto
    then show ?thesis
    proof cases
      case 1
      with Inl try_providers_failing [OF 1(1), of "[]" "[]" None] show ?thesis
        by (simp add: execute_with_fallback_def)
    next
      case 2
      with Inl try_providers_first [OF 2(2,3), of vs "[]" None] show ?thesis
        by (simp add: execute_with_fallback_def)
    qed
  qed
qed




text \<open>
  C4. Every outcome of a stream.  A client never sees a mixture: the lines come, in order, from the
  first candidate that produced one, all those before it having ended or failed with a provider
  error without a line, and the stream ends the way that provider's iterator ended (a failure in
  mid-stream is not retried elsewhere).  An exception that is no provider error, raised before any
  line, ends the stream with no line; and when no candidate produced a line or raised such an
  exception the stream ends with the "no provider" error that names them all in order and carries
  the last provider error.
\<close>

theorem stream_has_single_source:
  "stream_chat_completion open_stream r req w = ((out, fin), w') \<longleftrightarrow>
     (\<exists>us p vs lst w1 l ls.
        select_providers r (req_model req) = us @ p # vs \<and>
        silent_streams open_stream us req None w = Some (lst, w1) \<and>
        open_stream p req w1 = ((l # ls, fin), w') \<and> out = map (Pair p) (l # ls)) \<or>
     (\<exists>us p vs lst w1 exc.
        select_providers r (req_model req) = us @ p # vs \<and>
        silent_streams open_stream us req None w = Some (lst, w1) \<and>
        open_stream p req w1 = (([], Some exc), w') \<and> (\<forall>e. exc \<noteq> ProviderExn e) \<and>
        out = [] \<and> fin = Some exc) \<or>
     (\<exists>lst. silent_streams open_stream (select_providers r (req_model req)) req None w = Some (lst, w') \<and>
        out = [] \<and>
        fin = Some (no_provider (req_model req)
                      (map provider_name (select_providers r (req_model req))) lst))"
    (is "?run \<longleftrightarrow> ?lines \<or> ?raised \<or> ?none")
proof
  assume run: ?run
  from silent_streams_split [of open_stream "select_providers r (req_model req)" req None w]
  show "?lines \<or> ?raised \<or> ?none"
  proof cases
    case (1 l w1)
    with run try_streams_silent [OF 1, of "[]" "[]"] have ?none
      by (simp add: stream_chat_completion_def)
    then show ?thesis by blast
  next
    case (2 us p vs l w1 ls fin' w2)
    with run try_streams_first [OF 2(2-4), of vs "[]"]
    have eq: "out = map (Pair p) ls" "fin' = fin" "w2 = w'" by (simp_all add: stream_chat_completion_def)
    show ?thesis
    proof (cases ls)
      case Nil
      with 2(4) eq(2) obtain exc where "fin = Some exc" "\<forall>e. exc \<noteq> ProviderExn e"
        by (auto simp: silent_def)
      with 2(1-3) Nil eq have ?raised by blast
      then show ?thesis by blast
    next
      case (Cons l ls')
      with 2(1-3) eq have ?lines by blast
      then show ?thesis by blast
    qed
  qed
next
  assume "?lines \<or> ?raised \<or> ?none"
  then show ?run
  proof (elim disjE exE conjE)
    fix lst
    assume run: "silent_streams open_stream (select_providers r (req_model req)) req None w = Some (lst, w')"
    assume "out = []" "fin = Some (no_provider (req_model req)
      (map provider_name (select_providers r (req_model req))) lst)"
    with try_streams_silent [OF run, of "[]" "[]"] show ?run by (simp add: stream_chat_completion_def)
  qed (simp_all add: stream_chat_completion_def try_streams_first silent_def del: list.map)
qed

definition flaky_stream :: "nat stream_call" where
  \<comment> \<open>provider \<open>a\<close> fails before its first line, any other sends two lines and dies\<close>
  "flaky_stream p req n =
     (if provider_name p = ''a'' then ([], Some (ProviderExn (ProviderAuthError ''bad key'' ''a'')))
      else ([''x'', ''y''], Some (ProviderExn (ProviderError ''cut'' (provider_name p)))), Suc n)"

theorem stream_has_single_source_witness:
  "stream_chat_completion flaky_stream
       [(''a'', sample_provider ''a'' 0 []), (''b'', sample_provider ''b'' 0 [])] sample_request 0 =
     (([(sample_provider ''b'' 0 [], ''x''), (sample_provider ''b'' 0 [], ''y'')],
       Some (ProviderExn (ProviderError ''cut'' ''b''))), 2)"
proof (subst stream_has_single_source, rule disjI1, intro exI conjI)
  show "select_providers [(''a'', sample_provider ''a'' 0 []), (''b'', sample_provider ''b'' 0 [])]
      (req_model sample_request) = [sample_provider ''a'' 0 []] @ sample_provider ''b'' 0 [] # []"
    by (simp add: select_providers_def registry_all_def serves_def)
qed (simp_all add: flaky_stream_def eval_nat_numeral, simp_all)

end
