(* ===== verification/Redis_Service.thy ===== *)
theory Redis_Service
  imports Py_Numbers
begin

text \<open>
  The Redis server behind \<open>storage/redis.py\<close>.  The client is an argument of the code that uses it: a
  function that sends a list of commands (one command, or the transaction of a pipeline) and
  returns the replies or a \<open>RedisError\<close>.  The locale \<open>redis_service\<close> states what the code relies on:
  a call that succeeds has done what the Redis documentation says the commands do, a call that fails
  has done either that or nothing.  The documented semantics of the commands in use are the definitions
  below, on a keyspace with deadlines; an in-memory server, as the unit tests use one, is the interpretation.
\<close>

subsection \<open>Commands and replies\<close>

datatype redis_cmd =
    ZRemRangeByScore string rat rat
  | ZAdd string string rat
  | ZCard string
  | Expire string int
  | ZRem string string
  | Get string
  | SetEx string string int
  | SetNxEx string string int
  | Del string
  | EvalRelease string string

datatype redis_reply = RInt int | RNil | ROk | RBulk string | RErr string

fun is_err :: "redis_reply \<Rightarrow> bool" where
  "is_err (RErr m) = True"
| "is_err _ = False"

datatype redis_value = RString string | RZset "(string \<times> rat) list"

type_synonym keyspace = "string \<rightharpoonup> redis_value \<times> rat option"

text \<open>A key whose deadline has passed does not exist any more.\<close>

definition live :: "rat \<Rightarrow> keyspace \<Rightarrow> string \<Rightarrow> redis_value option" where
  "live t ks k =
     (case ks k of
        None \<Rightarrow> None
      | Some (v, None) \<Rightarrow> Some v
      | Some (v, Some dl) \<Rightarrow> if dl \<le> t then None else Some v)"

definition deadline :: "keyspace \<Rightarrow> string \<Rightarrow> rat option" where
  "deadline ks k = (case ks k of None \<Rightarrow> None | Some (v, dl) \<Rightarrow> dl)"

text \<open>A sorted set that becomes empty is removed with its key.\<close>

definition put_zset :: "string \<Rightarrow> (string \<times> rat) list \<Rightarrow> rat option \<Rightarrow> keyspace \<Rightarrow> keyspace" where
  "put_zset k zs dl ks = (if zs = [] then ks(k := None) else ks(k \<mapsto> (RZset zs, dl)))"

definition wrong_type :: redis_reply where
  "wrong_type = RErr ''WRONGTYPE Operation against a key holding the wrong kind of value''"

definition with_zset ::
    "rat \<Rightarrow> keyspace \<Rightarrow> string \<Rightarrow> ((string \<times> rat) list \<Rightarrow> rat option \<Rightarrow> redis_reply \<times> keyspace) \<Rightarrow>
     redis_reply \<times> keyspace" where
  "with_zset t ks k f =
     (case live t ks k of
        None \<Rightarrow> f [] None
      | Some (RZset zs) \<Rightarrow> f zs (deadline ks k)
      | Some (RString s) \<Rightarrow> (wrong_type, ks))"

fun run_cmd :: "rat \<Rightarrow> redis_cmd \<Rightarrow> keyspace \<Rightarrow> redis_reply \<times> keyspace" where
  "run_cmd t (ZRemRangeByScore k lo hi) ks =
     with_zset t ks k (\<lambda>zs dl.
       let keep = filter (\<lambda>ms. \<not> (lo \<le> snd ms \<and> snd ms \<le> hi)) zs
       in (RInt (int (length zs - length keep)), put_zset k keep dl ks))"
| "run_cmd t (ZAdd k m s) ks =
     with_zset t ks k (\<lambda>zs dl.
       (RInt (if m \<in> fst ` set zs then 0 else 1), put_zset k (AList.update m s zs) dl ks))"
| "run_cmd t (ZCard k) ks = with_zset t ks k (\<lambda>zs dl. (RInt (int (length zs)), ks))"
| "run_cmd t (Expire k n) ks =
     (case live t ks k of
        None \<Rightarrow> (RInt 0, ks)
      | Some v \<Rightarrow> (RInt 1, if n \<le> 0 then ks(k := None) else ks(k \<mapsto> (v, Some (t + of_int n)))))"
| "run_cmd t (ZRem k m) ks =
     with_zset t ks k (\<lambda>zs dl.
       (RInt (if m \<in> fst ` set zs then 1 else 0), put_zset k (filter (\<lambda>ms. fst ms \<noteq> m) zs) dl ks))"
| "run_cmd t (Get k) ks =
     (case live t ks k of
        None \<Rightarrow> (RNil, ks)
      | Some (RString s) \<Rightarrow> (RBulk s, ks)
      | Some (RZset zs) \<Rightarrow> (wrong_type, ks))"
| "run_cmd t (SetEx k v n) ks =
     (if n \<le> 0 then (RErr ''ERR invalid expire time in SET'', ks)
      else (ROk, ks(k \<mapsto> (RString v, Some (t + of_int n)))))"
| "run_cmd t (SetNxEx k v n) ks =
     (if n \<le> 0 then (RErr ''ERR invalid expire time in SET'', ks)
      else if live t ks k \<noteq> None then (RNil, ks)
      else (ROk, ks(k \<mapsto> (RString v, Some (t + of_int n)))))"
| "run_cmd t (Del k) ks = (RInt (if live t ks k = None then 0 else 1), ks(k := None))"
| "run_cmd t (EvalRelease k v) ks =
     (case live t ks k of
        Some (RString s) \<Rightarrow> if s = v then (RInt 1, ks(k := None)) else (RInt 0, ks)
      | Some (RZset zs) \<Rightarrow> (wrong_type, ks)
      | None \<Rightarrow> (RInt 0, ks))"

fun run_cmds :: "rat \<Rightarrow> redis_cmd list \<Rightarrow> keyspace \<Rightarrow> redis_reply list \<times> keyspace" where
  "run_cmds t [] ks = ([], ks)"
| "run_cmds t (c # cs) ks =
     (let (r, ks1) = run_cmd t c ks; (rs, ks2) = run_cmds t cs ks1 in (r # rs, ks2))"

subsection \<open>The service\<close>

type_synonym 'w redis = "redis_cmd list \<Rightarrow> 'w \<Rightarrow> (string + redis_reply list) \<times> 'w"

text \<open>
  \<open>redis_documented exec view server_time\<close>: \<open>exec\<close> is a client of a server whose keys in world \<open>w\<close> are \<open>view w\<close>
  and whose clock shows \<open>server_time w\<close>; its commands do what the documentation says and its clock does not go back.
\<close>

definition redis_documented :: "'w redis \<Rightarrow> ('w \<Rightarrow> keyspace) \<Rightarrow> ('w \<Rightarrow> rat) \<Rightarrow> bool" where
  "redis_documented exec view server_time \<longleftrightarrow>
     (\<forall>cs w rs w'. exec cs w = (Inr rs, w') \<longrightarrow>
        run_cmds (server_time w) cs (view w) = (rs, view w') \<and> \<not> list_ex is_err rs) \<and>
     (\<forall>cs w m w'. exec cs w = (Inl m, w') \<longrightarrow>
        view w' = view w \<or> view w' = snd (run_cmds (server_time w) cs (view w))) \<and>
     (\<forall>cs w. server_time w \<le> server_time (snd (exec cs w)))"

locale redis_service =
  fixes exec :: "'w redis"
    and view :: "'w \<Rightarrow> keyspace"
    and server_time :: "'w \<Rightarrow> rat"
  assumes documented: "redis_documented exec view server_time"
begin

lemma answered:
  "exec cs w = (Inr rs, w') \<Longrightarrow>
     run_cmds (server_time w) cs (view w) = (rs, view w') \<and> \<not> list_ex is_err rs"
  and failed:
  "exec cs w = (Inl m, w') \<Longrightarrow>
     view w' = view w \<or> view w' = snd (run_cmds (server_time w) cs (view w))"
  and time_mono: "server_time w \<le> server_time (snd (exec cs w))"
  using documented unfolding redis_documented_def by blast+

lemma time_mono': "exec cs w = (r, w') \<Longrightarrow> server_time w \<le> server_time w'"
  using time_mono [of w cs] by simp

lemma single_answer:
  "exec [c] w = (Inr [r], w') \<Longrightarrow> run_cmd (server_time w) c (view w) = (r, view w')"
  using answered [of "[c]" w "[r]" w'] by (auto split: prod.splits)

lemma answered_view: "exec cs w = (Inr rs, w') \<Longrightarrow> view w' = snd (run_cmds (server_time w) cs (view w))"
  using answered [of cs w rs w'] by simp

lemma answered_eqs:
  "exec cs w = (Inr rs, w') \<Longrightarrow>
     rs = fst (run_cmds (server_time w) cs (view w)) \<and> view w' = snd (run_cmds (server_time w) cs (view w)) \<and>
     \<not> list_ex is_err rs"
  using answered [of cs w rs w'] by simp

lemma outcome:
  "exec cs w = (r, w') \<Longrightarrow>
     view w' = view w \<or> view w' = snd (run_cmds (server_time w) cs (view w))"
  using failed answered_view by (cases r) blast+

end

subsection \<open>An in-memory server\<close>

text \<open>
  Its next calls answer, are lost before the server saw them, or are lost on the way back.
\<close>

datatype fault = Answered | LostBefore | LostAfter

record mem_redis =
  mem_keys :: keyspace
  mem_time :: rat
  mem_faults :: "fault list"

definition mem_exec :: "mem_redis redis" where
  "mem_exec cs w =
     (let rest = w\<lparr>mem_faults := tl (mem_faults w)\<rparr>;
          after = run_cmds (mem_time w) cs (mem_keys w)
      in case (case mem_faults w of [] \<Rightarrow> Answered | f # fs \<Rightarrow> f) of
           LostBefore \<Rightarrow> (Inl ''connection lost'', rest)
         | LostAfter \<Rightarrow> (Inl ''timeout'', rest\<lparr>mem_keys := snd after\<rparr>)
         | Answered \<Rightarrow>
             if list_ex is_err (fst after) then (Inl ''response error'', rest\<lparr>mem_keys := snd after\<rparr>)
             else (Inr (fst after), rest\<lparr>mem_keys := snd after\<rparr>))"

definition mem_start :: mem_redis where
  "mem_start = \<lparr>mem_keys = Map.empty, mem_time = 0, mem_faults = []\<rparr>"

lemma mem_documented: "redis_documented mem_exec mem_keys mem_time"
  by (auto simp: redis_documented_def mem_exec_def Let_def split: fault.splits if_splits list.splits)

interpretation mem: redis_service mem_exec mem_keys mem_time
  by unfold_locales (rule mem_documented)

end
