(* ===== verification/Usage_Metrics.thy ===== *)
theory Usage_Metrics
  imports Api_Models
begin

text \<open>
  Cost and metrics of a request: \<open>services/metrics.py\<close> (the usage record and its estimated cost)
  and \<open>services/prometheus_metrics.py\<close> (the counters and the bounded catalogue of model labels).
  A counter is a map from label tuples to values, and incrementing one by a negative amount
  raises \<open>ValueError\<close>, as the client library documents.  Counter values are kept exact.
\<close>

subsection \<open>services/metrics.py\<close>

definition estimated_cost :: "model_pricing \<Rightarrow> usage \<Rightarrow> dec" where
  "estimated_cost pricing u =
     dec_add (dec_div_million (dec_mul_int (input_cost_per_1m pricing) (prompt_tokens u)))
             (dec_div_million (dec_mul_int (output_cost_per_1m pricing) (completion_tokens u)))"

definition build_usage_record ::
    "int \<Rightarrow> string \<Rightarrow> model_pricing \<Rightarrow> string \<Rightarrow> usage \<Rightarrow> int \<Rightarrow> usage_record" where
  "build_usage_record virtual_key_id provider_nm pricing model u latency_ms =
     \<lparr>ur_virtual_key_id = virtual_key_id, ur_provider = provider_nm, ur_model = model,
      ur_input_tokens = prompt_tokens u, ur_output_tokens = completion_tokens u,
      ur_latency_ms = latency_ms, ur_estimated_cost = estimated_cost pricing u\<rparr>"

subsection \<open>services/prometheus_metrics.py\<close>

record prom =
  requests_total :: "string \<times> string \<times> string \<rightharpoonup> rat"
  tokens_count :: "string \<times> string \<rightharpoonup> rat"
  cost_usd :: "string \<rightharpoonup> rat"
  latency_seconds :: "string \<rightharpoonup> rat list"
  cache_events :: "string \<rightharpoonup> rat"
  served_models :: "string list"

definition empty_prom :: prom where
  "empty_prom =
     \<lparr>requests_total = Map.empty, tokens_count = Map.empty, cost_usd = Map.empty,
      latency_seconds = Map.empty, cache_events = Map.empty, served_models = []\<rparr>"

definition MAX_TRACKED_MODELS :: nat where
  "MAX_TRACKED_MODELS = 50"

definition safe_label :: "string \<Rightarrow> string" where
  "safe_label value = (if value = [] then ''unknown'' else value)"

definition remember_model :: "string \<Rightarrow> prom \<Rightarrow> prom" where
  "remember_model model p =
     (if model \<in> set (served_models p) \<or> MAX_TRACKED_MODELS \<le> length (served_models p) then p
      else p\<lparr>served_models := served_models p @ [model]\<rparr>)"

definition model_label :: "prom \<Rightarrow> string \<Rightarrow> string" where
  "model_label p model =
     (if model = [] then ''unknown''
      else if model \<in> set (served_models p) then model else ''unknown'')"

definition inc :: "rat \<Rightarrow> rat option \<Rightarrow> rat option" where
  "inc x v = Some (x + (case v of None \<Rightarrow> 0 | Some y \<Rightarrow> y))"

definition count_request :: "string \<Rightarrow> string \<Rightarrow> string \<Rightarrow> prom \<Rightarrow> prom" where
  "count_request provider_nm model status p =
     p\<lparr>requests_total := (requests_total p)
         ((provider_nm, model, status) := inc 1 (requests_total p (provider_nm, model, status)))\<rparr>"

definition count_tokens :: "string \<Rightarrow> string \<Rightarrow> int \<Rightarrow> prom \<Rightarrow> prom" where
  "count_tokens provider_nm direction n p =
     p\<lparr>tokens_count := (tokens_count p)
         ((provider_nm, direction) := inc (of_int n) (tokens_count p (provider_nm, direction)))\<rparr>"

definition count_cost :: "string \<Rightarrow> rat \<Rightarrow> prom \<Rightarrow> prom" where
  "count_cost provider_nm x p =
     p\<lparr>cost_usd := (cost_usd p)(provider_nm := inc x (cost_usd p provider_nm))\<rparr>"

definition observe_latency :: "string \<Rightarrow> rat \<Rightarrow> prom \<Rightarrow> prom" where
  "observe_latency provider_nm x p =
     p\<lparr>latency_seconds := (latency_seconds p)
         (provider_nm := Some ((case latency_seconds p provider_nm of None \<Rightarrow> [] | Some xs \<Rightarrow> xs) @ [x]))\<rparr>"

text \<open>
  \<open>record_usage\<close> stops at the first counter it would decrement; what was counted before stays, and
  \<open>.labels(...)\<close> has already created the failing series, at 0 when it is new.
\<close>

definition counter_error :: exn where
  "counter_error = ValueErr ''Counters can only be incremented by non-negative amounts.''"

definition record_usage :: "usage_record \<Rightarrow> prom \<Rightarrow> exn option \<times> prom" where
  "record_usage r p =
     (let provider_nm = safe_label (ur_provider r);
          model = safe_label (ur_model r);
          p1 = count_request provider_nm model ''ok'' (remember_model model p)
      in if ur_input_tokens r < 0 then (Some counter_error, count_tokens provider_nm ''input'' 0 p1)
         else let p2 = count_tokens provider_nm ''input'' (ur_input_tokens r) p1
         in if ur_output_tokens r < 0 then (Some counter_error, count_tokens provider_nm ''output'' 0 p2)
         else let p3 = count_tokens provider_nm ''output'' (ur_output_tokens r) p2
         in if dec_val (ur_estimated_cost r) < 0 then (Some counter_error, count_cost provider_nm 0 p3)
         else (None, observe_latency provider_nm (of_int (ur_latency_ms r) / 1000)
                       (count_cost provider_nm (dec_val (ur_estimated_cost r)) p3)))"

definition record_failure :: "string \<Rightarrow> string \<Rightarrow> string \<Rightarrow> prom \<Rightarrow> prom" where
  "record_failure provider_nm model error_type p =
     count_request (safe_label provider_nm) (model_label p model) (''error:'' @ error_type) p"

definition record_cache_event :: "string \<Rightarrow> prom \<Rightarrow> prom" where
  "record_cache_event result p =
     p\<lparr>cache_events := (cache_events p)(result := inc 1 (cache_events p result))\<rparr>"

text \<open>\<open>emit_metric\<close>: the log line has no effect on the state.\<close>

definition emit_metric :: "usage_record \<Rightarrow> prom \<Rightarrow> exn option \<times> prom" where
  "emit_metric r p = record_usage r p"

lemmas prom_defs [gw_defs] =
  record_usage_def record_failure_def record_cache_event_def emit_metric_def count_request_def
  count_tokens_def count_cost_def observe_latency_def remember_model_def

subsection \<open>Lemmas\<close>

lemma estimated_cost_nonneg:
  assumes "usage_nonneg u" and "0 \<le> coef (input_cost_per_1m q)" and "0 \<le> coef (output_cost_per_1m q)"
  shows "0 \<le> dec_val (estimated_cost q u)"
  using assms by (auto simp: dec_val_nonneg_iff estimated_cost_def usage_nonneg_def intro: gw_intros)

lemma round_half_even_zero [simp]: "round_half_even 0 m = 0"
  by (simp add: round_half_even_def Let_def)

lemma strip_zeros_zero [simp]: "coef d = 0 \<Longrightarrow> coef (strip_zeros n d) = 0"
  by (induction n arbitrary: d) simp_all

lemma dec_fix_zero [simp]: "coef d = 0 \<Longrightarrow> coef (dec_fix d) = 0"
  by (simp add: dec_fix_def Let_def)

lemma estimated_cost_free: "dec_val (estimated_cost free_pricing u) = 0"
  by (simp add: estimated_cost_def free_pricing_def dec_val_def dec_add_def
      dec_div_million_def dec_mul_int_def Let_def)

text \<open>The records that are counted without an error, which are those that are queued.\<close>

definition countable :: "usage_record \<Rightarrow> bool" where
  "countable r \<longleftrightarrow> 0 \<le> ur_input_tokens r \<and> 0 \<le> ur_output_tokens r \<and> 0 \<le> dec_val (ur_estimated_cost r)"

lemma emit_metric_countable: "fst (emit_metric r p) = (if countable r then None else Some counter_error)"
  by (auto simp: emit_metric_def record_usage_def countable_def Let_def)

definition prom_ok :: "prom \<Rightarrow> bool" where
  "prom_ok p \<longleftrightarrow> length (served_models p) \<le> MAX_TRACKED_MODELS \<and> distinct (served_models p)"

lemma prom_ok_remember: "prom_ok p \<Longrightarrow> prom_ok (remember_model m p)"
  by (auto simp: prom_ok_def remember_model_def)

lemma served_models_count [simp]:
  "served_models (count_request a b c p) = served_models p"
  "served_models (count_tokens a b n p) = served_models p"
  "served_models (count_cost a x p) = served_models p"
  "served_models (observe_latency a x p) = served_models p"
  "served_models (record_failure a b c p) = served_models p"
  "served_models (record_cache_event a p) = served_models p"
  by (simp_all add: count_request_def count_tokens_def count_cost_def observe_latency_def
      record_failure_def record_cache_event_def)

lemma served_models_record_usage:
  "served_models (snd (record_usage r p)) = served_models (remember_model (safe_label (ur_model r)) p)"
  by (simp add: record_usage_def Let_def)

lemma prom_ok_empty [simp]: "prom_ok empty_prom"
  by (simp add: prom_ok_def empty_prom_def MAX_TRACKED_MODELS_def)

text \<open>The events that reach the metrics, and a history of them.\<close>

datatype prom_event =
    Served usage_record
  | Failed string string string
  | CacheEvent string

fun prom_step :: "prom_event \<Rightarrow> prom \<Rightarrow> prom" where
  "prom_step (Served r) p = snd (record_usage r p)"
| "prom_step (Failed pn m e) p = record_failure pn m e p"
| "prom_step (CacheEvent x) p = record_cache_event x p"

definition prom_run :: "prom_event list \<Rightarrow> prom" where
  "prom_run evs = foldl (\<lambda>p e. prom_step e p) empty_prom evs"

text \<open>Series of failed requests are labelled from the bounded catalogue only.\<close>

definition prom_inv :: "prom \<Rightarrow> bool" where
  "prom_inv p \<longleftrightarrow>
     prom_ok p \<and>
     (\<forall>pn m st. (pn, m, st) \<in> dom (requests_total p) \<longrightarrow> st = ''ok'' \<or> m = ''unknown'' \<or> m \<in> set (served_models p))"

lemma requests_total_count [simp]:
  "requests_total (count_tokens a b n p) = requests_total p"
  "requests_total (count_cost a x p) = requests_total p"
  "requests_total (observe_latency a y p) = requests_total p"
  "requests_total (record_cache_event a p) = requests_total p"
  "requests_total (remember_model m p) = requests_total p"
  by (simp_all add: gw_defs)

lemma requests_total_count_request:
  "dom (requests_total (count_request pn m st p)) = insert (pn, m, st) (dom (requests_total p))"
  by (auto simp: count_request_def inc_def)

lemma requests_total_record_usage:
  "dom (requests_total (snd (record_usage r p))) =
     insert (safe_label (ur_provider r), safe_label (ur_model r), ''ok'') (dom (requests_total p))"
proof -
  have "requests_total (snd (record_usage r p)) =
      requests_total (count_request (safe_label (ur_provider r)) (safe_label (ur_model r)) ''ok''
        (remember_model (safe_label (ur_model r)) p))"
    by (simp add: record_usage_def Let_def)
  then show ?thesis by (simp only: requests_total_count_request requests_total_count)
qed

lemma served_models_remember_mono: "set (served_models p) \<subseteq> set (served_models (remember_model m p))"
  by (auto simp: remember_model_def)

lemma prom_ok_cong: "served_models p = served_models q \<Longrightarrow> prom_ok p = prom_ok q"
  by (simp add: prom_ok_def)

lemma prom_inv_step: "prom_inv p \<Longrightarrow> prom_inv (prom_step e p)"
proof (cases e)
  case (Served r)
  assume inv: "prom_inv p"
  let ?q = "snd (record_usage r p)"
  have ok: "prom_ok ?q"
    using inv prom_ok_remember prom_ok_cong [OF served_models_record_usage [of r p]]
    by (simp add: prom_inv_def)
  have mono: "set (served_models p) \<subseteq> set (served_models ?q)"
    unfolding served_models_record_usage by (rule served_models_remember_mono)
  have "\<forall>pn m st. (pn, m, st) \<in> dom (requests_total ?q) \<longrightarrow>
      st = ''ok'' \<or> m = ''unknown'' \<or> m \<in> set (served_models ?q)"
    unfolding requests_total_record_usage using inv mono unfolding prom_inv_def by blast
  then show ?thesis using ok Served by (simp add: prom_inv_def)
next
  case (Failed pn m err)
  moreover assume "prom_inv p"
  moreover have "model_label p m = ''unknown'' \<or> model_label p m \<in> set (served_models p)"
    by (simp add: model_label_def)
  ultimately show ?thesis
    using prom_ok_cong [of "record_failure pn m err p" p]
    by (auto simp: prom_inv_def record_failure_def requests_total_count_request)
next
  case (CacheEvent x)
  moreover assume "prom_inv p"
  ultimately show ?thesis
    using prom_ok_cong [of "record_cache_event x p" p] by (simp add: prom_inv_def)
qed

lemma prom_inv_foldl: "prom_inv p \<Longrightarrow> prom_inv (foldl (\<lambda>p e. prom_step e p) p evs)"
  by (induction evs arbitrary: p) (simp_all add: prom_inv_step)

text \<open>What tokens cost at a rate of at most two decimals.\<close>

lemma priced_tokens:
  assumes "rate_ok r" and "0 \<le> n \<and> n \<le> 10 ^ 15"
  shows "dec_val (dec_div_million (dec_mul_int r n)) = dec_val r * of_int n / 1000000"
    and "\<bar>dec_val (dec_div_million (dec_mul_int r n))\<bar> \<le> 10 ^ 18"
    and "- 8 \<le> expo (dec_div_million (dec_mul_int r n))"
proof -
  let ?c = "coef r * n"
  have c: "0 \<le> ?c" using assms by (simp add: rate_ok_def)
  have "?c \<le> 10 ^ 9 * 10 ^ 15" using assms by (intro mult_mono) (simp_all add: rate_ok_def)
  note c = c this
  then have exact: "dec_mul_int r n = mk_dec ?c (expo r)" by (simp add: dec_mul_int_def dec_fix_exact dec_prec_def)
  show val: "dec_val (dec_div_million (dec_mul_int r n)) = dec_val r * of_int n / 1000000"
    unfolding exact dec_div_million_val by (simp add: dec_val_def)
  have c': "0 \<le> rat_of_int ?c" using c(1) by (simp only: of_int_0_le_iff)
  have "(10 :: rat) powi expo r \<le> 10 powi 0" using assms(1) by (intro power_int_increasing) (simp_all add: rate_ok_def)
  then have "(10 :: rat) powi expo r \<le> 1" by simp
  then have "rat_of_int ?c * 10 powi expo r \<le> rat_of_int ?c * 1" by (rule mult_left_mono [OF _ c'])
  also have "\<dots> \<le> rat_of_int (10 ^ 24)" using c(2) by (simp only: of_int_le_iff mult_1_right) simp
  finally have "rat_of_int ?c * 10 powi expo r \<le> 10 ^ 24" by simp
  moreover have "0 \<le> rat_of_int ?c * 10 powi expo r" using c' by (intro mult_nonneg_nonneg) simp_all
  ultimately show "\<bar>dec_val (dec_div_million (dec_mul_int r n))\<bar> \<le> 10 ^ 18"
    unfolding exact dec_div_million_val by (simp add: dec_val_def)
  show "- 8 \<le> expo (dec_div_million (dec_mul_int r n))"
    using dec_div_million_expo [of "dec_mul_int r n"] assms(1) by (simp add: exact rate_ok_def)
qed

subsection \<open>Properties\<close>

text \<open>
  C5. The estimated cost is exact: for rates of at most two decimals up to ten million dollars per million
  tokens and token counts up to \<open>10 ^ 15\<close> no rounding of the 28-digit context takes place, and the cost is
  input rate times prompt tokens plus output rate times completion tokens, over a million.
\<close>

theorem usage_record_cost_exact:
  assumes "rate_ok (input_cost_per_1m q)" and "rate_ok (output_cost_per_1m q)"
    and "0 \<le> prompt_tokens u \<and> prompt_tokens u \<le> 10 ^ 15"
    and "0 \<le> completion_tokens u \<and> completion_tokens u \<le> 10 ^ 15"
  shows "dec_val (ur_estimated_cost (build_usage_record k pn q m u l)) =
           (dec_val (input_cost_per_1m q) * of_int (prompt_tokens u) +
            dec_val (output_cost_per_1m q) * of_int (completion_tokens u)) / 1000000"
proof -
  let ?a = "dec_div_million (dec_mul_int (input_cost_per_1m q) (prompt_tokens u))"
  let ?b = "dec_div_million (dec_mul_int (output_cost_per_1m q) (completion_tokens u))"
  note a = priced_tokens [OF assms(1,3)] and b = priced_tokens [OF assms(2,4)]
  have "(10 :: rat) powi (- 8) \<le> 10 powi min (expo ?a) (expo ?b)"
    using a(3) b(3) by (intro power_int_increasing) simp_all
  then have "10 ^ dec_prec * (10 :: rat) powi (- 8) \<le> 10 ^ dec_prec * 10 powi min (expo ?a) (expo ?b)"
    by (intro mult_left_mono) simp_all
  moreover have "10 ^ dec_prec * (10 :: rat) powi (- 8) = 10 ^ 20" by (simp add: dec_prec_def power_int_minus)
  moreover have "\<bar>dec_val ?a + dec_val ?b\<bar> \<le> 2 * 10 ^ 18" using a(2) b(2) by linarith
  ultimately have "\<bar>dec_val ?a + dec_val ?b\<bar> < 10 ^ dec_prec * 10 powi min (expo ?a) (expo ?b)" by simp
  from dec_add_exact [OF this] a(1) b(1) show ?thesis
    by (simp add: build_usage_record_def estimated_cost_def add_divide_distrib)
qed

theorem usage_record_cost_exact_witness:
  "dec_val (ur_estimated_cost (build_usage_record 1 ''openai''
      \<lparr>input_cost_per_1m = mk_dec 25 (- 1), output_cost_per_1m = mk_dec 100 (- 1)\<rparr> ''gpt-4o''
      (mk_usage 1000 200 1200) 35)) = 45 / 10000"
  using usage_record_cost_exact
    [of "\<lparr>input_cost_per_1m = mk_dec 25 (- 1), output_cost_per_1m = mk_dec 100 (- 1)\<rparr>"
        "mk_usage 1000 200 1200" 1 "''openai''" "''gpt-4o''" 35]
  by (simp add: rate_ok_def dec_val_def)

text \<open>
  A request never lowers the accounted spend: with the clamped token counts of a \<open>Usage\<close> built
  from integers and non-negative rates the cost is not negative, whatever the rounding.  Usage
  attributed to the cache (\<open>ModelPricing()\<close>) costs exactly nothing.
\<close>

theorem usage_record_cost_nonneg:
  assumes "0 \<le> coef (input_cost_per_1m q)" and "0 \<le> coef (output_cost_per_1m q)"
  shows "0 \<le> dec_val (ur_estimated_cost (build_usage_record k pn q m (mk_usage a b c) l)) \<and>
         dec_val (ur_estimated_cost (build_usage_record k pn free_pricing m u l)) = 0"
  using assms by (simp add: build_usage_record_def estimated_cost_nonneg estimated_cost_free)

theorem usage_record_cost_nonneg_witness:
  "0 \<le> dec_val (ur_estimated_cost (build_usage_record 1 ''p''
          \<lparr>input_cost_per_1m = mk_dec 15 (- 2), output_cost_per_1m = mk_dec 60 (- 2)\<rparr> ''m''
          (mk_usage (- 100000) 7 0) 3))"
  using usage_record_cost_nonneg
    [of "\<lparr>input_cost_per_1m = mk_dec 15 (- 2), output_cost_per_1m = mk_dec 60 (- 2)\<rparr>"
        1 "''p''" "''m''" "- 100000" 7 0 3]
  by simp

text \<open>
  Over any history of metric events the catalogue of model labels holds at most 50 distinct
  models, and every series of a failed request carries a model of that catalogue or \<open>unknown\<close>:
  error traffic cannot create label values from client text.
\<close>

theorem failure_labels_bounded:
  "prom_inv (prom_run evs) \<and>
   length (served_models (prom_run evs)) \<le> 50 \<and>
   (safe_label pn, model_label (prom_run evs) m, ''error:'' @ err) \<in>
     dom (requests_total (record_failure pn m err (prom_run evs))) \<and>
   model_label (prom_run evs) m \<in> insert ''unknown'' (set (served_models (prom_run evs)))"
proof -
  have "prom_inv empty_prom" by (simp add: prom_inv_def) (simp add: empty_prom_def)
  then have "prom_inv (prom_run evs)" unfolding prom_run_def by (rule prom_inv_foldl)
  then show ?thesis
    by (simp add: prom_inv_def prom_ok_def MAX_TRACKED_MODELS_def record_failure_def
        requests_total_count_request model_label_def)
qed

text \<open>
  The cap does not cover successful requests: once 50 models are in the catalogue, serving a
  further one leaves the catalogue as it is but still creates a series labelled with that model.
\<close>

theorem served_series_exceed_cap:
  assumes "length (served_models p) = 50" and "ur_model r \<noteq> []" and "ur_model r \<notin> set (served_models p)"
  shows "served_models (snd (record_usage r p)) = served_models p \<and>
         (safe_label (ur_provider r), ur_model r, ''ok'') \<in> dom (requests_total (snd (record_usage r p)))"
  using assms
  by (simp add: served_models_record_usage remember_model_def MAX_TRACKED_MODELS_def
      requests_total_record_usage safe_label_def)

definition full_catalogue :: prom where
  "full_catalogue = empty_prom\<lparr>served_models := map (\<lambda>i. replicate i (CHR ''a'')) [1..<51]\<rparr>"

theorem served_series_exceed_cap_witness:
  "(safe_label ''wild'', ''b'', ''ok'') \<in>
     dom (requests_total (snd (record_usage
       (build_usage_record 1 ''wild'' free_pricing ''b'' zero_usage 0) full_catalogue)))"
proof -
  let ?r = "build_usage_record 1 ''wild'' free_pricing ''b'' zero_usage 0"
  have "ur_model ?r \<notin> set (served_models full_catalogue)"
    by (auto simp: full_catalogue_def build_usage_record_def Cons_replicate_eq)
  then show ?thesis
    using served_series_exceed_cap [of full_catalogue ?r]
    by (simp add: full_catalogue_def build_usage_record_def)
qed

end
