(* ===== verification/Response_Cache.thy ===== *)
theory Response_Cache
  imports Redis_Service Usage_Metrics Core_Config
begin

text \<open>
  The response cache of \<open>services/cache.py\<close>: cache keys, reading and writing entries, the single-flight lock and the
  bounded wait for another replica's result.  Arguments are the Redis client, the digest \<open>sha\<close>, the random
  lock token, the monotonic clock with \<open>asyncio.sleep\<close>, and Pydantic's JSON codec of a response:
  \<open>enc\<close> (\<open>model_dump_json\<close>) and \<open>dec\<close> (\<open>model_validate_json\<close>, \<open>None\<close> for a \<open>ValueError\<close>).
\<close>

subsection \<open>Keys\<close>

definition CACHE_PROVIDER_NAME :: string where
  "CACHE_PROVIDER_NAME = ''cache''"

definition cache_parts :: "chat_request \<Rightarrow> int option \<Rightarrow> json" where
  "cache_parts req namespace =
     JArr (JObj (model_dump req) # (case namespace of None \<Rightarrow> [] | Some n \<Rightarrow> [JInt n]))"

definition build_cache_key :: "(string \<Rightarrow> string) \<Rightarrow> chat_request \<Rightarrow> int option \<Rightarrow> string" where
  "build_cache_key sha req namespace = sha (dumps_sorted_compact (cache_parts req namespace))"

subsection \<open>Entries\<close>

text \<open>
  \<open>_parse_entry\<close>; the flag says whether an unreadable entry is counted.
\<close>

definition parse_entry ::
    "(string \<Rightarrow> chat_response option) \<Rightarrow> string \<Rightarrow> bool \<Rightarrow> prom \<Rightarrow> chat_response option \<times> prom" where
  "parse_entry dec raw record_event p =
     (case dec raw of
        Some r \<Rightarrow> (Some r, p)
      | None \<Rightarrow> (None, if record_event then record_cache_event ''error'' p else p))"

definition discard_entry :: "'w redis \<Rightarrow> string \<Rightarrow> 'w \<Rightarrow> 'w" where
  "discard_entry exec key w = snd (exec [Del key] w)"

text \<open>The value \<open>redis_client.get\<close> returns: the text under the key, or \<open>None\<close>.\<close>

fun bulk :: "redis_reply list \<Rightarrow> string option" where
  "bulk [RBulk raw] = Some raw"
| "bulk rs = None"

definition cache_get ::
    "'w redis \<Rightarrow> (string \<Rightarrow> chat_response option) \<Rightarrow> string \<Rightarrow> prom \<times> 'w \<Rightarrow> chat_response option \<times> prom \<times> 'w" where
  "cache_get exec dec key pw =
     (case exec [Get key] (snd pw) of
        (Inl m, w) \<Rightarrow> (None, record_cache_event ''error'' (fst pw), w)
      | (Inr rs, w) \<Rightarrow>
          (case bulk rs of
             None \<Rightarrow> (None, record_cache_event ''miss'' (fst pw), w)
           | Some raw \<Rightarrow>
               (case parse_entry dec raw True (fst pw) of
                  (None, p) \<Rightarrow> (None, p, discard_entry exec key w)
                | (Some r, p) \<Rightarrow> (Some r, record_cache_event ''hit'' p, w))))"

definition cache_set :: "'w redis \<Rightarrow> (chat_response \<Rightarrow> string) \<Rightarrow> settings \<Rightarrow> string \<Rightarrow> chat_response \<Rightarrow> 'w \<Rightarrow> 'w" where
  "cache_set exec enc s key value w = snd (exec [SetEx key (enc value) (CACHE_TTL_SECONDS s)] w)"

subsection \<open>The single-flight lock\<close>

definition lock_key :: "string \<Rightarrow> string" where
  "lock_key cache_key = ''lock:'' @ cache_key"

definition acquire_lock :: "'w redis \<Rightarrow> string \<Rightarrow> rat \<Rightarrow> string \<Rightarrow> 'w \<Rightarrow> string option \<times> 'w" where
  "acquire_lock exec token ttl_seconds cache_key w =
     (case exec [SetNxEx (lock_key cache_key) token \<lceil>ttl_seconds\<rceil>] w of
        (Inl m, w') \<Rightarrow> (None, w')
      | (Inr rs, w') \<Rightarrow> (if rs = [ROk] then Some token else None, w'))"

definition release_lock :: "'w redis \<Rightarrow> string \<Rightarrow> string \<Rightarrow> 'w \<Rightarrow> 'w" where
  "release_lock exec cache_key token w = snd (exec [EvalRelease (lock_key cache_key) token] w)"

text \<open>The script of the release, over the commands it calls; an error of a command ends it.\<close>

definition release_script ::
    "(redis_cmd \<Rightarrow> keyspace \<Rightarrow> redis_reply \<times> keyspace) \<Rightarrow> string \<Rightarrow> string \<Rightarrow> keyspace \<Rightarrow> redis_reply \<times> keyspace" where
  "release_script call key arg ks =
     (case call (Get key) ks of
        (r, ks1) \<Rightarrow>
          if is_err r then (r, ks1)
          else if r = RBulk arg then call (Del key) ks1
          else (RInt 0, ks1))"

lemma eval_release: "run_cmd t (EvalRelease k v) ks = release_script (run_cmd t) k v ks"
  by (auto simp: release_script_def wrong_type_def split: option.splits redis_value.splits)

definition LOCK_POLL_INTERVAL_SECONDS :: rat where
  "LOCK_POLL_INTERVAL_SECONDS = 5 / 100"

definition WAIT_TIMEOUT_SECONDS :: rat where
  "WAIT_TIMEOUT_SECONDS = 2"

text \<open>The polling loop; \<open>None\<close> outside means that it does not return.\<close>

partial_function (option) poll_result ::
    "'w redis \<Rightarrow> (string \<Rightarrow> chat_response option) \<Rightarrow> ('w \<Rightarrow> rat) \<Rightarrow> (rat \<Rightarrow> 'w \<Rightarrow> 'w) \<Rightarrow> string \<Rightarrow> rat \<Rightarrow> prom \<times> 'w \<Rightarrow>
     (chat_response option \<times> prom \<times> 'w) option" where
  "poll_result exec dec monotonic sleep cache_key dl pw =
     (if monotonic (snd pw) < dl then
        (case exec [Get cache_key] (snd pw) of
           (Inl m, w) \<Rightarrow> Some (None, fst pw, w)
         | (Inr rs, w) \<Rightarrow>
             (case bulk rs of
                Some raw \<Rightarrow> (case parse_entry dec raw False (fst pw) of (r, p) \<Rightarrow> Some (r, p, w))
              | None \<Rightarrow>
                  poll_result exec dec monotonic sleep cache_key dl
                    (fst pw, sleep LOCK_POLL_INTERVAL_SECONDS w)))
      else Some (None, pw))"

text \<open>One round of the loop: \<open>None\<close> outside means that there is no entry yet.\<close>

definition poll_once ::
    "'w redis \<Rightarrow> (string \<Rightarrow> chat_response option) \<Rightarrow> string \<Rightarrow> prom \<times> 'w \<Rightarrow> chat_response option option \<times> prom \<times> 'w" where
  "poll_once exec dec cache_key pw =
     (case exec [Get cache_key] (snd pw) of
        (Inl m, w) \<Rightarrow> (Some None, fst pw, w)
      | (Inr rs, w) \<Rightarrow>
          (case bulk rs of
             Some raw \<Rightarrow> (case parse_entry dec raw False (fst pw) of (r, p) \<Rightarrow> (Some r, p, w))
           | None \<Rightarrow> (None, fst pw, w)))"

lemma poll_result_once:
  "poll_result exec dec monotonic sleep cache_key dl pw =
     (if monotonic (snd pw) < dl then
        (case poll_once exec dec cache_key pw of
           (Some r, p, w) \<Rightarrow> Some (r, p, w)
         | (None, p, w) \<Rightarrow>
             poll_result exec dec monotonic sleep cache_key dl (p, sleep LOCK_POLL_INTERVAL_SECONDS w))
      else Some (None, pw))"
  by (subst poll_result.simps) (simp add: poll_once_def split: prod.split sum.split option.split)

definition wait_for_result ::
    "'w redis \<Rightarrow> (string \<Rightarrow> chat_response option) \<Rightarrow> ('w \<Rightarrow> rat) \<Rightarrow> (rat \<Rightarrow> 'w \<Rightarrow> 'w) \<Rightarrow> string \<Rightarrow> rat \<Rightarrow> prom \<times> 'w \<Rightarrow>
     (chat_response option \<times> prom \<times> 'w) option" where
  "wait_for_result exec dec monotonic sleep cache_key timeout_s pw =
     poll_result exec dec monotonic sleep cache_key (monotonic (snd pw) + timeout_s) pw"

subsection \<open>The codec of entries\<close>

locale response_codec =
  fixes enc :: "chat_response \<Rightarrow> string" and dec :: "string \<Rightarrow> chat_response option"
  assumes dec_enc: "response_ok r \<Longrightarrow> dec (enc r) = Some r"

fun strict_int :: "json \<Rightarrow> int option" where
  "strict_int (JInt i) = Some i"
| "strict_int _ = None"

definition json_enc :: "chat_response \<Rightarrow> string" where
  "json_enc r = dump_val '','' '':'' (response_json r)"

definition json_dec :: "string \<Rightarrow> chat_response option" where
  "json_dec s = (case loads s of None \<Rightarrow> None | Some v \<Rightarrow> response_of_json strict_int v)"

lemma json_dec_enc: "response_ok r \<Longrightarrow> json_dec (json_enc r) = Some r"
  by (simp add: json_dec_def json_enc_def compact_codec.read_print json_wf_response_json
      response_of_json_dump)

interpretation json_entries: response_codec json_enc json_dec
  by unfold_locales (rule json_dec_enc)

subsection \<open>Clocks\<close>

text \<open>What the wait relies on: sleeping takes at least the time asked for, and a Redis call takes none away.\<close>

definition clock_documented :: "'w redis \<Rightarrow> ('w \<Rightarrow> rat) \<Rightarrow> (rat \<Rightarrow> 'w \<Rightarrow> 'w) \<Rightarrow> bool" where
  "clock_documented exec monotonic sleep \<longleftrightarrow>
     (\<forall>d w. monotonic w + d \<le> monotonic (sleep d w)) \<and>
     (\<forall>cs w. monotonic w \<le> monotonic (snd (exec cs w)))"

locale waiting_client = redis_service exec view server_time
  for exec :: "'w redis" and view :: "'w \<Rightarrow> keyspace" and server_time :: "'w \<Rightarrow> rat" +
  fixes monotonic :: "'w \<Rightarrow> rat" and sleep :: "rat \<Rightarrow> 'w \<Rightarrow> 'w"
  assumes clock: "clock_documented exec monotonic sleep"
begin

lemma sleep_time: "monotonic w + d \<le> monotonic (sleep d w)"
  and exec_time: "exec cs w = (r, w') \<Longrightarrow> monotonic w \<le> monotonic w'"
  using clock unfolding clock_documented_def by (blast, metis snd_conv)

text \<open>Every round takes a poll interval: the rounds left bound the recursion.\<close>

lemma poll_terminates:
  "dl - monotonic (snd pw) \<le> of_nat n * LOCK_POLL_INTERVAL_SECONDS \<Longrightarrow>
     \<exists>r. poll_result exec dec monotonic sleep key dl pw = Some r"
proof (induction n arbitrary: pw)
  case 0
  then show ?case by (subst poll_result.simps) simp
next
  case (Suc n)
  show ?case
  proof (cases "monotonic (snd pw) < dl")
    case True
    obtain r w where e: "exec [Get key] (snd pw) = (r, w)" by fastforce
    have "monotonic (snd pw) + LOCK_POLL_INTERVAL_SECONDS \<le> monotonic (sleep LOCK_POLL_INTERVAL_SECONDS w)"
      using sleep_time [of w LOCK_POLL_INTERVAL_SECONDS] exec_time [OF e] by linarith
    then have "dl - monotonic (snd (fst pw, sleep LOCK_POLL_INTERVAL_SECONDS w)) \<le> of_nat n * LOCK_POLL_INTERVAL_SECONDS"
      using Suc.prems by (simp add: algebra_simps)
    from Suc.IH [OF this] show ?thesis
      using True by (subst poll_result.simps) (auto simp: e split: sum.splits option.splits prod.splits)
  next
    case False
    then show ?thesis by (subst poll_result.simps) simp
  qed
qed

lemma wait_terminates: "\<exists>r. wait_for_result exec dec monotonic sleep key timeout_s pw = Some r"
proof -
  obtain n where "timeout_s / LOCK_POLL_INTERVAL_SECONDS \<le> of_nat n"
    using reals_Archimedean2 less_imp_le by blast
  then have "timeout_s \<le> of_nat n * LOCK_POLL_INTERVAL_SECONDS"
    by (simp add: LOCK_POLL_INTERVAL_SECONDS_def divide_le_eq)
  then show ?thesis
    unfolding wait_for_result_def by (intro poll_terminates [of _ _ n]) simp
qed

end

text \<open>The in-memory server with a client that sleeps on the same clock.\<close>

definition mem_sleep :: "rat \<Rightarrow> mem_redis \<Rightarrow> mem_redis" where
  "mem_sleep d w = w\<lparr>mem_time := mem_time w + d\<rparr>"

lemma mem_clock: "clock_documented mem_exec mem_time mem_sleep"
  by (auto simp: clock_documented_def mem_sleep_def mem_exec_def Let_def split: fault.splits list.splits)

interpretation mem_wait: waiting_client mem_exec mem_keys mem_time mem_time mem_sleep
  by unfold_locales (rule mem_clock)

subsection \<open>What a cache key identifies\<close>

definition float_ok :: "pyfloat option \<Rightarrow> bool" where
  "float_ok x \<longleftrightarrow> (case x of None \<Rightarrow> True | Some f \<Rightarrow> float_lit (frepr f))"

text \<open>The reprs of its floats are JSON numbers, and \<open>response_format\<close> is a decoded JSON object.\<close>

definition request_wf :: "chat_request \<Rightarrow> bool" where
  "request_wf r \<longleftrightarrow>
     float_lit (frepr (temperature r)) \<and> float_ok (top_p r) \<and> float_ok (frequency_penalty r) \<and>
     float_ok (presence_penalty r) \<and>
     (case response_format r of None \<Rightarrow> True | Some ms \<Rightarrow> json_wf (JObj ms))"

text \<open>Two requests with the same body: all fields agree, \<open>response_format\<close> up to the order of keys.\<close>

definition same_body :: "chat_request \<Rightarrow> chat_request \<Rightarrow> bool" where
  "same_body r r' \<longleftrightarrow>
     req_model r = req_model r' \<and> messages r = messages r' \<and>
     frepr (temperature r) = frepr (temperature r') \<and>
     map_option frepr (top_p r) = map_option frepr (top_p r') \<and>
     map_option frepr (frequency_penalty r) = map_option frepr (frequency_penalty r') \<and>
     map_option frepr (presence_penalty r) = map_option frepr (presence_penalty r') \<and>
     max_tokens r = max_tokens r' \<and> stop r = stop r' \<and> seed r = seed r' \<and> user r = user r' \<and>
     map_option (\<lambda>ms. sort_keys (JObj ms)) (response_format r) =
       map_option (\<lambda>ms. sort_keys (JObj ms)) (response_format r') \<and>
     stream r = stream r'"

lemma map_of_opt_field [simp]:
  "map_of (opt_field k f x) k' = (if k = k' then map_option f x else None)"
  by (simp add: opt_field_def split: option.split)

lemma model_dump_lookup:
  "map_of (model_dump r) ''model'' = Some (JStr (req_model r))"
  "map_of (model_dump r) ''messages'' = Some (JArr (map message_json (messages r)))"
  "map_of (model_dump r) ''temperature'' = Some (JFloat (frepr (temperature r)))"
  "map_of (model_dump r) ''top_p'' = map_option (\<lambda>f. JFloat (frepr f)) (top_p r)"
  "map_of (model_dump r) ''frequency_penalty'' = map_option (\<lambda>f. JFloat (frepr f)) (frequency_penalty r)"
  "map_of (model_dump r) ''presence_penalty'' = map_option (\<lambda>f. JFloat (frepr f)) (presence_penalty r)"
  "map_of (model_dump r) ''max_tokens'' = map_option JInt (max_tokens r)"
  "map_of (model_dump r) ''stop'' = map_option stop_json (stop r)"
  "map_of (model_dump r) ''seed'' = map_option JInt (seed r)"
  "map_of (model_dump r) ''user'' = map_option JStr (user r)"
  "map_of (model_dump r) ''response_format'' = map_option JObj (response_format r)"
  "map_of (model_dump r) ''stream'' = Some (JBool (stream r))"
  by (simp_all add: model_dump_def map_add_def split: option.split)

definition dump_keys :: "string list" where
  "dump_keys = [''model'', ''messages'', ''temperature'', ''top_p'', ''frequency_penalty'', ''presence_penalty'',
                ''max_tokens'', ''stop'', ''seed'', ''user'', ''response_format'', ''stream'']"

lemma subseq_opt_field: "subseq (map fst (opt_field k f x)) [k]"
  by (simp add: opt_field_def split: option.split)

lemma model_dump_keys: "subseq (map fst (model_dump r)) dump_keys"
proof -
  have "subseq ([''model'', ''messages'', ''temperature''] @ map fst (opt_field ''top_p'' (\<lambda>f. JFloat (frepr f)) (top_p r))
     @ map fst (opt_field ''frequency_penalty'' (\<lambda>f. JFloat (frepr f)) (frequency_penalty r))
     @ map fst (opt_field ''presence_penalty'' (\<lambda>f. JFloat (frepr f)) (presence_penalty r))
     @ map fst (opt_field ''max_tokens'' JInt (max_tokens r)) @ map fst (opt_field ''stop'' stop_json (stop r))
     @ map fst (opt_field ''seed'' JInt (seed r)) @ map fst (opt_field ''user'' JStr (user r))
     @ map fst (opt_field ''response_format'' JObj (response_format r)) @ [''stream''])
    ([''model'', ''messages'', ''temperature''] @ [''top_p''] @ [''frequency_penalty''] @ [''presence_penalty'']
     @ [''max_tokens''] @ [''stop''] @ [''seed''] @ [''user''] @ [''response_format''] @ [''stream''])"
    by (intro list_emb_append_mono subseq_opt_field subseq_order.order_refl)
  then show ?thesis by (simp add: model_dump_def dump_keys_def)
qed

lemma distinct_dump_keys: "distinct dump_keys"
  by code_simp

lemma distinct_model_dump [simp]: "distinct (map fst (model_dump r))"
  using subseq_distinctI [OF model_dump_keys distinct_dump_keys] .

lemma sort_keys_dump_lookup:
  assumes "sort_keys (JObj (model_dump r)) = sort_keys (JObj (model_dump r'))"
  shows "map_option sort_keys (map_of (model_dump r) k) = map_option sort_keys (map_of (model_dump r') k)"
proof -
  let ?ns = "\<lambda>r. map (\<lambda>(k, v). (k, sort_keys v)) (model_dump r)"
  have look: "map_of (sort_members (?ns r)) k = map_option sort_keys (map_of (model_dump r) k)" for r
  proof -
    have "map fst (?ns r) = map fst (model_dump r)" by (simp add: case_prod_unfold)
    then have "distinct (map fst (?ns r))" by (simp del: map_map)
    then have "map_of (sort_members (?ns r)) = map_of (?ns r)" by (rule map_of_sort_members)
    then show ?thesis by (simp add: map_of_map)
  qed
  have "sort_members (?ns r) = sort_members (?ns r')"
    using assms unfolding sort_keys_JObj by simp
  with look [of r] look [of r'] show ?thesis by simp
qed

lemma sort_message_inject: "sort_keys (message_json m) = sort_keys (message_json m') \<Longrightarrow> m = m'"
  by (cases "msg_role m"; cases "msg_role m'") (simp_all add: message_json_def)

lemma sort_stop [simp]: "sort_keys (stop_json x) = stop_json x"
  by (cases x) (simp_all add: comp_def)

lemma stop_json_inject: "stop_json x = stop_json y \<Longrightarrow> x = y"
  by (cases x; cases y) (auto simp: inj_map_eq_map inj_def)

lemma same_body_iff:
  "sort_keys (JObj (model_dump r)) = sort_keys (JObj (model_dump r')) \<longleftrightarrow> same_body r r'"
proof
  assume "sort_keys (JObj (model_dump r)) = sort_keys (JObj (model_dump r'))"
  note look = sort_keys_dump_lookup [OF this]
  have msgs: "map (\<lambda>m. sort_keys (message_json m)) (messages r) = map (\<lambda>m. sort_keys (message_json m)) (messages r')"
    using look [of "''messages''"] by (simp add: model_dump_lookup comp_def)
  have "messages r = messages r'"
    by (rule map_injective [OF msgs]) (auto simp: inj_def dest: sort_message_inject)
  moreover have "stop r = stop r'"
    using look [of "''stop''"] by (cases "stop r"; cases "stop r'") (auto simp: model_dump_lookup dest: stop_json_inject)
  moreover have "max_tokens r = max_tokens r'"
    using look [of "''max_tokens''"] by (cases "max_tokens r"; cases "max_tokens r'") (auto simp: model_dump_lookup)
  moreover have "seed r = seed r'"
    using look [of "''seed''"] by (cases "seed r"; cases "seed r'") (auto simp: model_dump_lookup)
  moreover have "user r = user r'"
    using look [of "''user''"] by (cases "user r"; cases "user r'") (auto simp: model_dump_lookup)
  moreover have "map_option frepr (top_p r) = map_option frepr (top_p r')"
    using look [of "''top_p''"] by (cases "top_p r"; cases "top_p r'") (auto simp: model_dump_lookup)
  moreover have "map_option frepr (frequency_penalty r) = map_option frepr (frequency_penalty r')"
    using look [of "''frequency_penalty''"]
    by (cases "frequency_penalty r"; cases "frequency_penalty r'") (auto simp: model_dump_lookup)
  moreover have "map_option frepr (presence_penalty r) = map_option frepr (presence_penalty r')"
    using look [of "''presence_penalty''"]
    by (cases "presence_penalty r"; cases "presence_penalty r'") (auto simp: model_dump_lookup)
  moreover have "map_option (\<lambda>ms. sort_keys (JObj ms)) (response_format r) =
      map_option (\<lambda>ms. sort_keys (JObj ms)) (response_format r')"
    using look [of "''response_format''"]
    by (cases "response_format r"; cases "response_format r'") (auto simp: model_dump_lookup)
  ultimately show "same_body r r'"
    using look [of "''model''"] look [of "''temperature''"] look [of "''stream''"]
    by (simp add: same_body_def model_dump_lookup)
next
  have opt: "map (\<lambda>(k, v). (k, sort_keys v)) (opt_field k f x) = opt_field k (\<lambda>a. sort_keys (f a)) x"
    for k and f :: "'z \<Rightarrow> json" and x
    by (simp add: opt_field_def split: option.split)
  have float: "opt_field k (\<lambda>a. JFloat (frepr a)) x = opt_field k (\<lambda>a. JFloat (frepr a)) y"
    if "map_option frepr x = map_option frepr y" for k x y
    using that by (cases x; cases y) (simp_all add: opt_field_def)
  have cong: "opt_field k f x = opt_field k f y" if "map_option f x = map_option f y"
    for k and f :: "'z \<Rightarrow> json" and x y
    using that by (cases x; cases y) (simp_all add: opt_field_def)
  assume same: "same_body r r'"
  then have fmt: "opt_field k (\<lambda>ms. sort_keys (JObj ms)) (response_format r) =
      opt_field k (\<lambda>ms. sort_keys (JObj ms)) (response_format r')" for k
    by (intro cong) (simp add: same_body_def del: sort_keys.simps)
  from same have fl: "opt_field k (\<lambda>a. JFloat (frepr a)) (top_p r) = opt_field k (\<lambda>a. JFloat (frepr a)) (top_p r')"
    "opt_field k (\<lambda>a. JFloat (frepr a)) (frequency_penalty r) = opt_field k (\<lambda>a. JFloat (frepr a)) (frequency_penalty r')"
    "opt_field k (\<lambda>a. JFloat (frepr a)) (presence_penalty r) = opt_field k (\<lambda>a. JFloat (frepr a)) (presence_penalty r')" for k
    by (auto simp: same_body_def intro!: float)
  have "map (\<lambda>(k, v). (k, sort_keys v)) (model_dump r) = map (\<lambda>(k, v). (k, sort_keys v)) (model_dump r')"
    using same by (simp add: model_dump_def opt fmt fl same_body_def del: sort_keys.simps(2))
  then show "sort_keys (JObj (model_dump r)) = sort_keys (JObj (model_dump r'))"
    by (simp add: sort_keys_JObj del: sort_keys.simps)
qed

lemma list_all_opt_field:
  "list_all P (opt_field k f x) \<longleftrightarrow> (case x of None \<Rightarrow> True | Some a \<Rightarrow> P (k, f a))"
  by (simp add: opt_field_def split: option.split)

lemma json_wf_stop [simp]: "json_wf (stop_json x)"
  by (cases x) (simp_all add: list_all_iff)

lemma json_wf_message [simp]: "json_wf (message_json m)"
  by (simp add: message_json_def)

lemma json_wf_model_dump:
  assumes "request_wf r"
  shows "json_wf (JObj (model_dump r))"
proof -
  have "list_all (\<lambda>(k, v). json_wf v) (model_dump r)"
    using assms unfolding model_dump_def list_all_append list_all_opt_field
    by (simp add: request_wf_def float_ok_def list_all_iff split: option.splits)
  then show ?thesis by simp
qed

subsection \<open>Holders of a lock\<close>

text \<open>
  \<open>lk_holders\<close>: the tokens \<open>acquire_lock\<close> returned and that were not released yet, with the end of their TTL on the
  server's clock.  A token differs from those of the current holders; everything but the lock's own
  operations leaves the lock key alone.
\<close>

record 'w lk_conf =
  lk_world :: 'w
  lk_holders :: "(string \<times> rat) list"

inductive lk_step ::
    "'w redis \<Rightarrow> ('w \<Rightarrow> keyspace) \<Rightarrow> ('w \<Rightarrow> rat) \<Rightarrow> string \<Rightarrow> 'w lk_conf \<Rightarrow> 'w lk_conf \<Rightarrow> bool"
  for exec :: "'w redis" and view :: "'w \<Rightarrow> keyspace" and server_time :: "'w \<Rightarrow> rat" and key :: string where
  Acquired: "lk_step exec view server_time key c
      (c\<lparr>lk_world := w', lk_holders := lk_holders c @ [(token, server_time (lk_world c) + of_int \<lceil>ttl\<rceil>)]\<rparr>)"
    if "acquire_lock exec token ttl key (lk_world c) = (Some token, w')" and "token \<notin> fst ` set (lk_holders c)"
| Busy: "lk_step exec view server_time key c (c\<lparr>lk_world := w'\<rparr>)"
    if "acquire_lock exec token ttl key (lk_world c) = (None, w')"
| Released: "lk_step exec view server_time key c
      (c\<lparr>lk_world := release_lock exec key token (lk_world c),
         lk_holders := filter (\<lambda>h. fst h \<noteq> token) (lk_holders c)\<rparr>)"
    if "token \<in> fst ` set (lk_holders c)"
| OtherKeys: "lk_step exec view server_time key c (c\<lparr>lk_world := w'\<rparr>)"
    if "view w' (lock_key key) = view (lk_world c) (lock_key key)" and "server_time (lk_world c) \<le> server_time w'"

definition lk_inv :: "('w \<Rightarrow> keyspace) \<Rightarrow> ('w \<Rightarrow> rat) \<Rightarrow> string \<Rightarrow> 'w lk_conf \<Rightarrow> bool" where
  "lk_inv view server_time key c \<longleftrightarrow>
     distinct (map fst (lk_holders c)) \<and>
     (\<forall>(token, dl) \<in> set (lk_holders c). server_time (lk_world c) < dl \<longrightarrow>
        view (lk_world c) (lock_key key) = Some (RString token, Some dl))"

lemma lk_inv_same_key:
  "lk_inv view server_time key c \<Longrightarrow> view w' (lock_key key) = view (lk_world c) (lock_key key) \<Longrightarrow>
     server_time (lk_world c) \<le> server_time w' \<Longrightarrow> lk_inv view server_time key (c\<lparr>lk_world := w'\<rparr>)"
  by (fastforce simp: lk_inv_def)

lemma lk_inv_free:
  "lk_inv view server_time key c \<Longrightarrow> live (server_time (lk_world c)) (view (lk_world c)) (lock_key key) = None \<Longrightarrow>
     (token, dl) \<in> set (lk_holders c) \<Longrightarrow> dl \<le> server_time (lk_world c)"
  by (rule ccontr) (auto simp: lk_inv_def live_def)

context redis_service
begin

lemma acquire_effect:
  assumes "acquire_lock exec token ttl key w = (r, w')"
  shows "server_time w \<le> server_time w' \<and>
    (view w' (lock_key key) = view w (lock_key key) \<and> r = None \<or>
     live (server_time w) (view w) (lock_key key) = None \<and>
     view w' (lock_key key) = Some (RString token, Some (server_time w + of_int \<lceil>ttl\<rceil>)))"
proof -
  obtain x where e: "exec [SetNxEx (lock_key key) token \<lceil>ttl\<rceil>] w = (x, w')"
    using assms by (auto simp: acquire_lock_def split: prod.splits sum.splits)
  show ?thesis
  proof (cases x)
    case (Inl m)
    with e assms have "r = None" by (simp add: acquire_lock_def)
    with e Inl failed [of "[SetNxEx (lock_key key) token \<lceil>ttl\<rceil>]" w m w'] time_mono' [OF e] show ?thesis
      by (auto split: if_splits)
  next
    case (Inr rs)
    with e assms have "r = (if rs = [ROk] then Some token else None)" by (simp add: acquire_lock_def)
    with e Inr answered_eqs [of "[SetNxEx (lock_key key) token \<lceil>ttl\<rceil>]" w rs w'] time_mono' [OF e] show ?thesis
      by (auto split: if_splits)
  qed
qed

lemma release_effect:
  "server_time w \<le> server_time (release_lock exec key token w) \<and>
   (view (release_lock exec key token w) (lock_key key) = view w (lock_key key) \<or>
    live (server_time w) (view w) (lock_key key) = Some (RString token))"
proof -
  obtain x w' where e: "exec [EvalRelease (lock_key key) token] w = (x, w')" by fastforce
  from outcome [OF e] time_mono' [OF e] show ?thesis
    by (auto simp: release_lock_def e split: option.splits redis_value.splits if_splits prod.splits)
qed

lemma lk_inv_step:
  assumes "lk_step exec view server_time key c c'" and inv: "lk_inv view server_time key c"
  shows "lk_inv view server_time key c'"
  using assms(1)
proof cases
  case (Acquired token ttl w')
  note eff = acquire_effect [OF Acquired(2)]
  from eff have free: "live (server_time (lk_world c)) (view (lk_world c)) (lock_key key) = None"
    and v: "view w' (lock_key key) = Some (RString token, Some (server_time (lk_world c) + of_int \<lceil>ttl\<rceil>))"
    and t: "server_time (lk_world c) \<le> server_time w'" by auto
  have "dl \<le> server_time w'" if "(tok, dl) \<in> set (lk_holders c)" for tok dl
    using lk_inv_free [OF inv free that] t by simp
  then show ?thesis
    using inv Acquired v by (fastforce simp: lk_inv_def)
next
  case (Busy token ttl w')
  note eff = acquire_effect [OF Busy(2)]
  show ?thesis
  proof (cases "view w' (lock_key key) = view (lk_world c) (lock_key key)")
    case True
    with eff show ?thesis unfolding Busy(1) by (intro lk_inv_same_key [OF inv]) auto
  next
    case False
    with eff have free: "live (server_time (lk_world c)) (view (lk_world c)) (lock_key key) = None"
      and t: "server_time (lk_world c) \<le> server_time w'" by auto
    have "dl \<le> server_time w'" if "(tok, dl) \<in> set (lk_holders c)" for tok dl
      using lk_inv_free [OF inv free that] t by simp
    then show ?thesis using inv Busy by (fastforce simp: lk_inv_def)
  qed
next
  case (Released token)
  let ?w = "release_lock exec key token (lk_world c)"
  have "view ?w (lock_key key) = Some (RString tok, Some dl)"
    if h: "(tok, dl) \<in> set (lk_holders c)" "tok \<noteq> token" "server_time ?w < dl" for tok dl
  proof -
    have alive: "server_time (lk_world c) < dl" using h release_effect [of "lk_world c" key token] by linarith
    then have v: "view (lk_world c) (lock_key key) = Some (RString tok, Some dl)"
      using inv h by (auto simp: lk_inv_def)
    then have "live (server_time (lk_world c)) (view (lk_world c)) (lock_key key) = Some (RString tok)"
      using alive by (simp add: live_def)
    with release_effect [of "lk_world c" key token] h v show ?thesis by auto
  qed
  then show ?thesis
    using inv Released by (auto simp: lk_inv_def distinct_map_filter)
next
  case (OtherKeys w')
  then show ?thesis using lk_inv_same_key [OF inv] by simp
qed

lemma lk_inv_reachable:
  "(lk_step exec view server_time key)\<^sup>*\<^sup>* c c' \<Longrightarrow> lk_inv view server_time key c \<Longrightarrow>
     lk_inv view server_time key c'"
  by (induction rule: rtranclp_induct) (simp_all add: lk_inv_step)

lemma cache_set_answered:
  assumes "exec [SetEx key v n] w = (Inr rs, w')"
  shows "0 < n \<and> view w' key = Some (RString v, Some (server_time w + of_int n))"
  using answered_eqs [OF assms] by (auto split: if_splits)

lemma get_answered:
  assumes "exec [Get key] w = (Inr rs, w')"
  shows "view w' = view w \<and>
    (live (server_time w) (view w) key = None \<and> bulk rs = None \<or>
     (\<exists>raw. live (server_time w) (view w) key = Some (RString raw) \<and> bulk rs = Some raw))"
  using answered_eqs [OF assms] by (auto split: option.splits redis_value.splits simp: wrong_type_def)

end

subsection \<open>Properties\<close>

lemma cache_key_agree:
  assumes "request_wf r1" and "request_wf r2"
    and "sha (dumps_sorted_compact (cache_parts r1 (Some n1))) = sha (dumps_sorted_compact (cache_parts r2 (Some n2))) \<Longrightarrow>
         dumps_sorted_compact (cache_parts r1 (Some n1)) = dumps_sorted_compact (cache_parts r2 (Some n2))"
  shows "build_cache_key sha r1 (Some n1) = build_cache_key sha r2 (Some n2) \<longleftrightarrow> n1 = n2 \<and> same_body r1 r2"
proof -
  have wf: "json_wf (cache_parts r (Some n))" if "request_wf r" for r n
    using json_wf_model_dump [OF that] by (simp add: cache_parts_def)
  have "build_cache_key sha r1 (Some n1) = build_cache_key sha r2 (Some n2) \<longleftrightarrow>
      dumps_sorted_compact (cache_parts r1 (Some n1)) = dumps_sorted_compact (cache_parts r2 (Some n2))"
    using assms(3) by (auto simp: build_cache_key_def)
  also have "\<dots> \<longleftrightarrow> sort_keys (cache_parts r1 (Some n1)) = sort_keys (cache_parts r2 (Some n2))"
    by (rule dumps_sorted_inject) (simp_all add: wf assms)
  also have "\<dots> \<longleftrightarrow> sort_keys (JObj (model_dump r1)) = sort_keys (JObj (model_dump r2)) \<and> n1 = n2"
    by (simp add: cache_parts_def del: sort_keys.simps(2))
  finally show ?thesis unfolding same_body_iff by (simp only: conj_commute)
qed

text \<open>
  C21. One tenant is never served another tenant's response: unless the digest collides on the two texts that are
  hashed, two requests have the same cache key exactly when they come from the same key id and have the same
  body in every field, \<open>response_format\<close> up to the order of its keys.
\<close>

theorem cache_key_isolates_tenants:
  assumes "request_wf r1" and "request_wf r2"
    and "sha (dumps_sorted_compact (cache_parts r1 (Some n1))) = sha (dumps_sorted_compact (cache_parts r2 (Some n2))) \<Longrightarrow>
         dumps_sorted_compact (cache_parts r1 (Some n1)) = dumps_sorted_compact (cache_parts r2 (Some n2))"
  shows "build_cache_key sha r1 (Some n1) = build_cache_key sha r2 (Some n2) \<longleftrightarrow> n1 = n2 \<and> same_body r1 r2"
  by (rule cache_key_agree [OF assms])

lemma sample_request_wf: "request_wf sample_request"
  by (simp add: request_wf_def sample_request_def float_ok_def mk_float_def float_lit_def json_eval)

theorem cache_key_isolates_tenants_witness:
  "build_cache_key id sample_request (Some 1) \<noteq> build_cache_key id sample_request (Some 2)"
  using cache_key_isolates_tenants [OF sample_request_wf sample_request_wf, of id 1 2] by simp

lemma cache_get_entry:
  assumes "redis_documented exec view server_time" and "exec [Get key] w = (Inr rs, w')"
    and "view w key = Some (RString raw, Some dl)" and "dec raw = Some r"
  shows "cache_get exec dec key (p, w) =
           (if server_time w < dl then (Some r, record_cache_event ''hit'' p, w')
            else (None, record_cache_event ''miss'' p, w'))"
  using redis_service.get_answered [OF redis_service.intro [OF assms(1)] assms(2)] assms(3,4)
  by (auto simp: cache_get_def assms(2) parse_entry_def live_def split: if_splits)

text \<open>
  C36. What was stored is what is read, for as long as it may be: after a \<open>set\<close> the server answered, a later \<open>get\<close> of the
  untouched key gives the stored response and counts a hit until \<open>CACHE_TTL_SECONDS\<close> have passed, and
  from then on counts a miss.
\<close>

theorem cache_round_trip:
  assumes "redis_documented exec view server_time"
    and "\<And>r. response_ok r \<Longrightarrow> dec (enc r) = Some r" and "response_ok r"
    and "exec [SetEx key (enc r) (CACHE_TTL_SECONDS s)] w = (Inr rs, w1)"
    and "view w2 key = view (cache_set exec enc s key r w) key"
    and "exec [Get key] w2 = (Inr rs2, w3)"
  shows "cache_get exec dec key (p, w2) =
           (if server_time w2 < server_time w + of_int (CACHE_TTL_SECONDS s)
            then (Some r, record_cache_event ''hit'' p, w3)
            else (None, record_cache_event ''miss'' p, w3))"
proof -
  note service = redis_service.intro [OF assms(1)]
  have "view w2 key = Some (RString (enc r), Some (server_time w + of_int (CACHE_TTL_SECONDS s)))"
    using redis_service.cache_set_answered [OF service assms(4)] assms(4,5) by (simp add: cache_set_def)
  moreover have "dec (enc r) = Some r" using assms(2,3) by blast
  ultimately show ?thesis using cache_get_entry [OF assms(1,6)] by simp
qed

definition sample_response :: chat_response where
  "sample_response =
     \<lparr>resp_id = ''r1'', resp_created = 7, resp_model = ''m'',
      choices = [\<lparr>choice_index = 0, choice_message = \<lparr>msg_role = Assistant, msg_content = ''hi''\<rparr>,
                  choice_finish = Stop\<rparr>],
      resp_usage = mk_usage 1 2 3\<rparr>"

lemma sample_response_ok: "response_ok sample_response"
  by (simp add: response_ok_def sample_response_def max_content_def)

lemma mem_set_answered:
  "0 < n \<Longrightarrow> mem_faults w = [] \<Longrightarrow>
     mem_exec [SetEx key v n] w = (Inr [ROk], w\<lparr>mem_keys := (mem_keys w)(key \<mapsto> (RString v, Some (mem_time w + of_int n)))\<rparr>)"
  by (simp add: mem_exec_def Let_def)

lemma mem_get_string:
  "live (mem_time w) (mem_keys w) key = Some (RString v) \<Longrightarrow> mem_faults w = [] \<Longrightarrow>
     mem_exec [Get key] w = (Inr [RBulk v], w)"
  by (simp add: mem_exec_def Let_def)

theorem cache_round_trip_witness:
  "fst (cache_get mem_exec json_dec ''k''
     (empty_prom, cache_set mem_exec json_enc default_settings ''k'' sample_response mem_start)) = Some sample_response"
proof -
  let ?w = "cache_set mem_exec json_enc default_settings ''k'' sample_response mem_start"
  have ttl: "CACHE_TTL_SECONDS default_settings = 300" "mem_time mem_start = 0" "mem_faults mem_start = []"
    by (simp_all add: default_settings_def mem_start_def)
  have set: "mem_exec [SetEx ''k'' (json_enc sample_response) (CACHE_TTL_SECONDS default_settings)] mem_start = (Inr [ROk], ?w)"
    using mem_set_answered [of 300 mem_start] by (simp add: cache_set_def ttl)
  have w: "mem_time ?w = 0" "mem_faults ?w = []"
      "live (mem_time ?w) (mem_keys ?w) ''k'' = Some (RString (json_enc sample_response))"
    using mem_set_answered [of 300 mem_start] by (simp_all add: cache_set_def ttl live_def)
  from cache_round_trip [OF mem_documented json_dec_enc sample_response_ok set refl mem_get_string [OF w(3,2)], of empty_prom]
  show ?thesis by (simp add: ttl w(1))
qed

text \<open>
  A poisoned entry heals: an entry the schema does not accept is reported as no entry, counted as an error and, when
  the server answers, deleted, so that the next \<open>get\<close> is an ordinary miss.
\<close>

theorem poisoned_entry_discarded:
  assumes "redis_documented exec view server_time"
    and "live (server_time w) (view w) key = Some (RString raw)" and "dec raw = None"
    and "exec [Get key] w = (Inr rs, w1)" and "exec [Del key] w1 = (Inr rs1, w2)"
    and "exec [Get key] w2 = (Inr rs2, w3)"
  shows "cache_get exec dec key (p, w) = (None, record_cache_event ''error'' p, w2) \<and>
         cache_get exec dec key (p', w2) = (None, record_cache_event ''miss'' p', w3)"
proof -
  note service = redis_service.intro [OF assms(1)]
  have "view w2 key = None"
    using redis_service.answered_eqs [OF service assms(5)] by simp
  then have "live (server_time w2) (view w2) key = None" by (simp add: live_def)
  with redis_service.get_answered [OF service assms(6)] have "bulk rs2 = None" by auto
  moreover have "bulk rs = Some raw"
    using redis_service.get_answered [OF service assms(4)] assms(2) by auto
  ultimately show ?thesis
    by (simp add: cache_get_def assms(3-6) parse_entry_def discard_entry_def)
qed

definition poisoned :: mem_redis where
  "poisoned = mem_start\<lparr>mem_keys := [''k'' \<mapsto> (RString ''oops'', None)]\<rparr>"

theorem poisoned_entry_discarded_witness:
  "fst (cache_get mem_exec (\<lambda>raw. None) ''k'' (empty_prom, poisoned)) = None \<and>
   fst (snd (cache_get mem_exec (\<lambda>raw. None) ''k''
     (empty_prom, snd (snd (cache_get mem_exec (\<lambda>raw. None) ''k'' (empty_prom, poisoned)))))) =
     record_cache_event ''miss'' empty_prom"
proof -
  have l: "live (mem_time poisoned) (mem_keys poisoned) ''k'' = Some (RString ''oops'')" "mem_faults poisoned = []"
    by (simp_all add: poisoned_def live_def mem_start_def)
  have d: "mem_exec [Del ''k''] poisoned = (Inr [RInt 1], mem_start)"
    by (simp add: mem_exec_def poisoned_def mem_start_def live_def)
  have g: "mem_exec [Get ''k''] mem_start = (Inr [RNil], mem_start)"
    by (simp add: mem_exec_def mem_start_def live_def)
  from poisoned_entry_discarded [OF mem_documented l(1) _ mem_get_string [OF l] d g, where dec = "\<lambda>raw. None"] show ?thesis
    by simp
qed

text \<open>
  C28. Two replicas never hold the lock of one cache key at the same time: whatever acquisitions, releases (also late ones, by a
  holder whose TTL ran out) and lost calls happen in whatever order, all tokens that were handed out, not
  released, and whose TTL has not passed on the server's clock, are one.
\<close>

theorem lock_mutual_exclusion:
  assumes "redis_documented exec view server_time"
    and "(lk_step exec view server_time key)\<^sup>*\<^sup>* \<lparr>lk_world = w, lk_holders = []\<rparr> c"
    and "h1 \<in> set (lk_holders c)" and "server_time (lk_world c) < snd h1"
    and "h2 \<in> set (lk_holders c)" and "server_time (lk_world c) < snd h2"
  shows "h1 = h2 \<and> view (lk_world c) (lock_key key) = Some (RString (fst h1), Some (snd h1))"
proof -
  have "lk_inv view server_time key \<lparr>lk_world = w, lk_holders = []\<rparr>" by (simp add: lk_inv_def)
  then have "lk_inv view server_time key c"
    by (rule redis_service.lk_inv_reachable [OF redis_service.intro [OF assms(1)] assms(2)])
  then have "view (lk_world c) (lock_key key) = Some (RString (fst h), Some (snd h))"
    if "h \<in> set (lk_holders c)" "server_time (lk_world c) < snd h" for h
    using that by (auto simp: lk_inv_def split_beta)
  from this [OF assms(3,4)] this [OF assms(5,6)] show ?thesis by (simp add: prod_eq_iff)
qed

definition locked_once :: "mem_redis lk_conf" where
  "locked_once =
     \<lparr>lk_world = snd (acquire_lock mem_exec ''t1'' 35 ''k'' mem_start), lk_holders = [(''t1'', 35)]\<rparr>"

theorem lock_mutual_exclusion_witness:
  "mem_keys (lk_world locked_once) (lock_key ''k'') = Some (RString ''t1'', Some 35)"
proof -
  let ?c = "\<lparr>lk_world = mem_start, lk_holders = []\<rparr>"
  have a: "acquire_lock mem_exec ''t1'' 35 ''k'' mem_start = (Some ''t1'', lk_world locked_once)"
    and t: "mem_time (lk_world locked_once) = 0" "mem_time mem_start = 0"
    by (simp_all add: locked_once_def acquire_lock_def mem_exec_def mem_start_def live_def)
  have "lk_step mem_exec mem_keys mem_time ''k'' ?c
      (?c\<lparr>lk_world := lk_world locked_once, lk_holders := lk_holders ?c @ [(''t1'', mem_time (lk_world ?c) + of_int \<lceil>35 :: rat\<rceil>)]\<rparr>)"
    by (rule lk_step.Acquired) (simp_all add: a)
  then have "lk_step mem_exec mem_keys mem_time ''k'' ?c locked_once"
    by (simp add: t) (simp add: locked_once_def)
  then have "(lk_step mem_exec mem_keys mem_time ''k'')\<^sup>*\<^sup>* ?c locked_once" by simp
  from lock_mutual_exclusion [OF mem_documented this, of "(''t1'', 35)" "(''t1'', 35)"] t show ?thesis
    by (simp add: locked_once_def)
qed

text \<open>
  C37. The wait for another replica always ends: as sleeping takes the time it was asked for, \<open>wait_for_result\<close> returns, whatever
  the server does and however often it is asked.
\<close>

theorem wait_for_result_returns:
  assumes "redis_documented exec view server_time" and "clock_documented exec monotonic sleep"
  shows "\<exists>r pw'. wait_for_result exec dec monotonic sleep key timeout_s pw = Some (r, pw')"
proof -
  have "waiting_client exec view server_time monotonic sleep"
    by (intro waiting_client.intro redis_service.intro waiting_client_axioms.intro assms)
  then show ?thesis using waiting_client.wait_terminates by fastforce
qed

theorem wait_for_result_returns_witness:
  "\<exists>r pw'. wait_for_result mem_exec json_dec mem_time mem_sleep ''k'' 2 (empty_prom, mem_start) = Some (r, pw')"
  by (rule wait_for_result_returns [OF mem_documented mem_clock])

end
