(* ===== verification/Storage.thy ===== *)
theory Storage
  imports Core_Errors
begin

text \<open>
  The tables of \<open>storage/orm.py\<close> and the repository functions of \<open>storage/repositories.py\<close>.

  A table is the list of its rows.  What the database server decides is an argument: the id and
  the timestamp of a new row (or its refusal of the statement, \<open>server\<close>), and the
  columns (\<open>sql_ops\<close>: the value a \<open>Numeric\<close> or \<open>DateTime\<close> column gives back, and \<open>SUM\<close>, read back
  through \<open>Decimal(str(...))\<close>).  The primary keys and the unique column the schema declares are checked on
  insertion.  Reads see the committed rows; a lost connection is not modelled.
\<close>

subsection \<open>storage/orm.py\<close>

text \<open>Seconds since the epoch; a naive datetime is read as UTC.\<close>

datatype datetime = Naive rat | Aware rat

record api_key_row =
  key_id :: int
  hashed_key :: string
  client_name :: string
  is_active :: bool
  spend_limit_usd :: "dec option"
  expires_at :: "datetime option"
  key_created_at :: datetime

record usage_row =
  log_id :: int
  log_key_id :: int
  log_provider :: string
  log_model :: string
  log_input :: int
  log_output :: int
  log_latency :: int
  log_cost :: dec
  log_status :: string
  log_error :: "string option"
  log_timestamp :: datetime

record audit_row =
  audit_id :: int
  audit_action :: string
  audit_key_id :: int
  audit_client :: string
  audit_detail :: "string option"
  audit_created_at :: datetime

record db =
  api_keys :: "api_key_row list"
  usage_logs :: "usage_row list"
  audit_logs :: "audit_row list"

definition empty_db :: db where
  "empty_db = \<lparr>api_keys = [], usage_logs = [], audit_logs = []\<rparr>"

datatype server = Assigned int datetime | Refused string

record sql_ops =
  store_cost :: "dec \<Rightarrow> dec"
  store_limit :: "dec \<Rightarrow> dec"
  sum_costs :: "dec list \<Rightarrow> dec"
  store_time :: "datetime \<Rightarrow> datetime"

subsection \<open>storage/repositories.py\<close>

record usage_log_data =
  ul_virtual_key_id :: int
  ul_provider :: string
  ul_model :: string
  ul_input_tokens :: int
  ul_output_tokens :: int
  ul_latency_ms :: int
  ul_estimated_cost :: dec
  ul_status :: string
  ul_error_type :: "string option"

definition get_key_by_hash :: "string \<Rightarrow> db \<Rightarrow> exn + api_key_row option" where
  "get_key_by_hash h d =
     (case filter (\<lambda>k. hashed_key k = h) (api_keys d) of
        [] \<Rightarrow> Inr None
      | [k] \<Rightarrow> Inr (Some k)
      | _ \<Rightarrow> Inl (DbErr ''MultipleResultsFound''))"

definition get_key_by_id :: "int \<Rightarrow> db \<Rightarrow> api_key_row option" where
  "get_key_by_id i d = find (\<lambda>k. key_id k = i) (api_keys d)"

definition get_key_spend_usd :: "sql_ops \<Rightarrow> int \<Rightarrow> db \<Rightarrow> dec" where
  "get_key_spend_usd sql i d =
     sum_costs sql (map log_cost (filter (\<lambda>r. log_key_id r = i \<and> log_status r = ''ok'') (usage_logs d)))"

definition get_global_spend_usd :: "sql_ops \<Rightarrow> db \<Rightarrow> dec" where
  "get_global_spend_usd sql d =
     sum_costs sql (map log_cost (filter (\<lambda>r. log_status r = ''ok'') (usage_logs d)))"

definition insert_usage :: "sql_ops \<Rightarrow> server \<Rightarrow> usage_log_data \<Rightarrow> db \<Rightarrow> exn option \<times> db" where
  "insert_usage sql srv x d =
     (case srv of
        Refused m \<Rightarrow> (Some (DbErr m), d)
      | Assigned i t \<Rightarrow>
          if i \<in> log_id ` set (usage_logs d) then (Some (DbErr ''UniqueViolation''), d)
          else (None, d\<lparr>usage_logs := usage_logs d @
                 [\<lparr>log_id = i, log_key_id = ul_virtual_key_id x, log_provider = ul_provider x,
                   log_model = ul_model x, log_input = ul_input_tokens x, log_output = ul_output_tokens x,
                   log_latency = ul_latency_ms x, log_cost = store_cost sql (ul_estimated_cost x),
                   log_status = ul_status x, log_error = ul_error_type x, log_timestamp = t\<rparr>]\<rparr>))"

definition create_usage_log :: "sql_ops \<Rightarrow> server \<Rightarrow> usage_log_data \<Rightarrow> db \<Rightarrow> exn option \<times> db" where
  "create_usage_log sql srv x d = insert_usage sql srv x d"

definition create_failed_usage_log ::
    "sql_ops \<Rightarrow> server \<Rightarrow> int \<Rightarrow> string \<Rightarrow> string \<Rightarrow> int \<Rightarrow> string \<Rightarrow> db \<Rightarrow> exn option \<times> db" where
  "create_failed_usage_log sql srv virtual_key_id provider_nm model latency_ms error_type d =
     insert_usage sql srv
       \<lparr>ul_virtual_key_id = virtual_key_id, ul_provider = provider_nm, ul_model = model,
        ul_input_tokens = 0, ul_output_tokens = 0, ul_latency_ms = latency_ms,
        ul_estimated_cost = dec_zero, ul_status = ''error'', ul_error_type = Some error_type\<rparr> d"

text \<open>The filters of the log queries: each one given is a \<open>where\<close> clause.\<close>

definition log_matches :: "string option \<Rightarrow> string option \<Rightarrow> string option \<Rightarrow> usage_row \<Rightarrow> bool" where
  "log_matches status model provider_nm r \<longleftrightarrow>
     (case status of None \<Rightarrow> True | Some s \<Rightarrow> log_status r = s) \<and>
     (case model of None \<Rightarrow> True | Some m \<Rightarrow> log_model r = m) \<and>
     (case provider_nm of None \<Rightarrow> True | Some p \<Rightarrow> log_provider r = p)"

definition matching_logs :: "string option \<Rightarrow> string option \<Rightarrow> string option \<Rightarrow> db \<Rightarrow> usage_row list" where
  "matching_logs status model provider_nm d = filter (log_matches status model provider_nm) (usage_logs d)"

definition list_usage_logs ::
    "nat \<Rightarrow> string option \<Rightarrow> string option \<Rightarrow> string option \<Rightarrow> nat \<Rightarrow> db \<Rightarrow> usage_row list" where
  "list_usage_logs limit status model provider_nm offset d =
     take limit (drop offset (sort_key (\<lambda>r. - log_id r) (matching_logs status model provider_nm d)))"

definition count_usage_logs :: "string option \<Rightarrow> string option \<Rightarrow> string option \<Rightarrow> db \<Rightarrow> nat" where
  "count_usage_logs status model provider_nm d = length (matching_logs status model provider_nm d)"

definition list_keys :: "db \<Rightarrow> api_key_row list" where
  "list_keys d = sort_key key_id (api_keys d)"

definition deactivated :: "int \<Rightarrow> api_key_row list \<Rightarrow> api_key_row list" where
  "deactivated i ks = map (\<lambda>k. if key_id k = i then k\<lparr>is_active := False\<rparr> else k) ks"

definition deactivate_key :: "int \<Rightarrow> db \<Rightarrow> api_key_row option \<times> db" where
  "deactivate_key i d =
     (case get_key_by_id i d of
        None \<Rightarrow> (None, d)
      | Some k \<Rightarrow>
          (Some (k\<lparr>is_active := False\<rparr>),
           d\<lparr>api_keys := deactivated i (api_keys d)\<rparr>))"

definition create_audit_log ::
    "server \<Rightarrow> string \<Rightarrow> int \<Rightarrow> string \<Rightarrow> string option \<Rightarrow> db \<Rightarrow> exn option \<times> db" where
  "create_audit_log srv action i client det d =
     (case srv of
        Refused m \<Rightarrow> (Some (DbErr m), d)
      | Assigned a t \<Rightarrow>
          if a \<in> audit_id ` set (audit_logs d) then (Some (DbErr ''UniqueViolation''), d)
          else (None, d\<lparr>audit_logs := audit_logs d @
                 [\<lparr>audit_id = a, audit_action = action, audit_key_id = i, audit_client = client,
                   audit_detail = det, audit_created_at = t\<rparr>]\<rparr>))"

text \<open>
  \<open>session.add(ApiKey(...)); commit; refresh\<close> of the key-creating operations: the row as the server stored it.
\<close>

definition insert_key ::
    "sql_ops \<Rightarrow> server \<Rightarrow> string \<Rightarrow> string \<Rightarrow> dec option \<Rightarrow> datetime option \<Rightarrow> db \<Rightarrow>
     (exn + api_key_row) \<times> db" where
  "insert_key sql srv h client limit expiry d =
     (case srv of
        Refused m \<Rightarrow> (Inl (DbErr m), d)
      | Assigned i t \<Rightarrow>
          if i \<in> key_id ` set (api_keys d) \<or> h \<in> hashed_key ` set (api_keys d)
          then (Inl (DbErr ''UniqueViolation''), d)
          else let k = \<lparr>key_id = i, hashed_key = h, client_name = client, is_active = True,
                        spend_limit_usd = map_option (store_limit sql) limit, expires_at = map_option (store_time sql) expiry,
                        key_created_at = t\<rparr>
               in (Inr k, d\<lparr>api_keys := api_keys d @ [k]\<rparr>))"

subsection \<open>Documented behaviour of the server\<close>

text \<open>
  \<open>SUM\<close> over a \<open>Numeric\<close> column is exact, rounding to the column's scale keeps the sign, and a
  timestamp comes back as the same instant, with or without its zone.
\<close>

fun instant :: "datetime \<Rightarrow> rat" where
  "instant (Naive t) = t"
| "instant (Aware t) = t"

definition sql_ok :: "sql_ops \<Rightarrow> bool" where
  "sql_ok sql \<longleftrightarrow>
     (\<forall>cs. dec_val (sum_costs sql cs) = sum_list (map dec_val cs)) \<and>
     (\<forall>c. 0 \<le> dec_val c \<longrightarrow> 0 \<le> dec_val (store_cost sql c)) \<and>
     (\<forall>t. instant (store_time sql t) = instant t)"

text \<open>A server of that kind: scale 6 and 2, ties away from zero, exact sums, zones dropped.\<close>

definition to_scale :: "nat \<Rightarrow> dec \<Rightarrow> dec" where
  "to_scale n d = mk_dec (sgn (coef d) * \<lfloor>\<bar>dec_val d\<bar> * 10 ^ n + 1 / 2\<rfloor>) (- int n)"

definition add_exact :: "dec \<Rightarrow> dec \<Rightarrow> dec" where
  "add_exact a b =
     (let e = min (expo a) (expo b)
      in mk_dec (coef a * 10 ^ nat (expo a - e) + coef b * 10 ^ nat (expo b - e)) e)"

definition exact_sql :: sql_ops where
  "exact_sql =
     \<lparr>store_cost = to_scale 6, store_limit = to_scale 2,
      sum_costs = \<lambda>cs. foldr add_exact cs dec_zero, store_time = \<lambda>t. Naive (instant t)\<rparr>"

lemma dec_val_add_exact [simp]: "dec_val (add_exact a b) = dec_val a + dec_val b"
proof -
  let ?e = "min (expo a) (expo b)"
  have "dec_val (add_exact a b) =
      of_int (coef a) * (10 ^ nat (expo a - ?e) * 10 powi ?e)
    + of_int (coef b) * (10 ^ nat (expo b - ?e) * 10 powi ?e)"
    by (simp add: add_exact_def Let_def dec_val_def algebra_simps)
  then show ?thesis by (simp add: powi_align dec_val_def)
qed

lemma dec_val_foldr_add_exact: "dec_val (foldr add_exact cs dec_zero) = sum_list (map dec_val cs)"
  by (induction cs) simp_all

lemma to_scale_nonneg: "0 \<le> dec_val c \<Longrightarrow> 0 \<le> dec_val (to_scale n c)"
  by (simp add: dec_val_nonneg_iff to_scale_def zero_le_mult_iff sgn_if)

lemma sql_ok_exact [simp]: "sql_ok exact_sql"
  by (simp add: sql_ok_def exact_sql_def dec_val_foldr_add_exact to_scale_nonneg)

lemma sql_ok_sum: "sql_ok sql \<Longrightarrow> dec_val (sum_costs sql cs) = sum_list (map dec_val cs)"
  and sql_ok_store: "sql_ok sql \<Longrightarrow> 0 \<le> dec_val c \<Longrightarrow> 0 \<le> dec_val (store_cost sql c)"
  and sql_ok_time: "sql_ok sql \<Longrightarrow> instant (store_time sql t) = instant t"
  by (simp_all add: sql_ok_def)

subsection \<open>Histories of the database\<close>

text \<open>The writes of the program, each with the server's answer.\<close>

datatype db_op =
    LogUsage server usage_log_data
  | LogFailure server int string string int string
  | AddKey server string string "dec option" "datetime option"
  | Deactivate int
  | Audit server string int string "string option"

fun db_step :: "sql_ops \<Rightarrow> db_op \<Rightarrow> db \<Rightarrow> db" where
  "db_step sql (LogUsage srv x) d = snd (create_usage_log sql srv x d)"
| "db_step sql (LogFailure srv i p m l e) d = snd (create_failed_usage_log sql srv i p m l e d)"
| "db_step sql (AddKey srv h c l x) d = snd (insert_key sql srv h c l x d)"
| "db_step sql (Deactivate i) d = snd (deactivate_key i d)"
| "db_step sql (Audit srv a i c t) d = snd (create_audit_log srv a i c t d)"

definition db_run :: "sql_ops \<Rightarrow> db_op list \<Rightarrow> db \<Rightarrow> db" where
  "db_run sql ops d = fold (db_step sql) ops d"

text \<open>A logged cost is never negative: what \<open>build_usage_record\<close> produces from clamped token counts.\<close>

fun op_ok :: "db_op \<Rightarrow> bool" where
  "op_ok (LogUsage srv x) = (0 \<le> dec_val (ul_estimated_cost x))"
| "op_ok _ = True"

definition db_ok :: "db \<Rightarrow> bool" where
  "db_ok d \<longleftrightarrow>
     distinct (map key_id (api_keys d)) \<and> distinct (map hashed_key (api_keys d)) \<and>
     distinct (map log_id (usage_logs d)) \<and> distinct (map audit_id (audit_logs d))"

lemmas db_step_defs =
  create_usage_log_def create_failed_usage_log_def insert_usage_def insert_key_def
  deactivate_key_def create_audit_log_def

lemma map_deactivated [simp]:
  "map key_id (deactivated i ks) = map key_id ks"
  "map hashed_key (deactivated i ks) = map hashed_key ks"
  by (simp_all add: deactivated_def comp_def if_distrib cong: if_cong)

lemma key_ids_deactivated [simp]: "key_id ` set (deactivated i ks) = key_id ` set ks"
  by (metis map_deactivated(1) set_map)

lemma find_deactivated:
  "find (\<lambda>k. key_id k = i) (deactivated j ks) =
   map_option (\<lambda>k. if key_id k = j then k\<lparr>is_active := False\<rparr> else k) (find (\<lambda>k. key_id k = i) ks)"
  unfolding deactivated_def by (induction ks) auto

lemma deactivated_active:
  "k \<in> set (deactivated i ks) \<Longrightarrow> is_active k \<Longrightarrow> k \<in> set ks \<and> key_id k \<noteq> i"
  by (auto simp: deactivated_def split: if_splits)

lemma db_ok_empty [simp]: "db_ok empty_db"
  by (simp add: db_ok_def empty_db_def)

lemma db_ok_step: "db_ok d \<Longrightarrow> db_ok (db_step sql x d)"
proof (cases x)
  case (Deactivate i)
  moreover assume "db_ok d"
  ultimately show ?thesis
    by (auto simp: db_ok_def deactivate_key_def split: option.splits)
qed (auto simp: db_ok_def db_step_defs Let_def split: server.splits)

lemma db_ok_run: "db_ok d \<Longrightarrow> db_ok (db_run sql ops d)"
  unfolding db_run_def by (induction ops arbitrary: d) (simp_all add: db_ok_step)

subsection \<open>Ledgers\<close>

text \<open>
  What the spend checks need of an accounting store: no accepted operation lowers the spend.
\<close>

locale spend_ledger =
  fixes apply_op :: "'op \<Rightarrow> 'd \<Rightarrow> 'd"
    and accepted :: "'op \<Rightarrow> bool"
    and spent :: "'d \<Rightarrow> rat"
  assumes spent_step: "accepted x \<Longrightarrow> spent d \<le> spent (apply_op x d)"
begin

lemma spent_run: "list_all accepted xs \<Longrightarrow> spent d \<le> spent (fold apply_op xs d)"
proof (induction xs arbitrary: d)
  case (Cons x xs)
  then have "spent d \<le> spent (apply_op x d)" by (simp add: spent_step)
  also have "\<dots> \<le> spent (fold apply_op xs (apply_op x d))" using Cons by simp
  finally show ?case by simp
qed simp

lemma reached_stays:
  "list_all accepted xs \<Longrightarrow> limit \<le> spent d \<Longrightarrow> limit \<le> spent (fold apply_op xs d)"
  using spent_run [of xs d] by linarith

end

definition spend_where :: "(usage_row \<Rightarrow> bool) \<Rightarrow> db \<Rightarrow> rat" where
  "spend_where P d = sum_list (map (\<lambda>r. dec_val (log_cost r)) (filter P (usage_logs d)))"

lemma key_spend_val:
  "sql_ok sql \<Longrightarrow>
     dec_val (get_key_spend_usd sql i d) = spend_where (\<lambda>r. log_key_id r = i \<and> log_status r = ''ok'') d"
  by (simp add: get_key_spend_usd_def sql_ok_sum spend_where_def comp_def)

lemma global_spend_val:
  "sql_ok sql \<Longrightarrow> dec_val (get_global_spend_usd sql d) = spend_where (\<lambda>r. log_status r = ''ok'') d"
  by (simp add: get_global_spend_usd_def sql_ok_sum spend_where_def comp_def)

lemma spend_where_insert:
  assumes "sql_ok sql" and "0 \<le> dec_val (ul_estimated_cost x)"
  shows "spend_where P d \<le> spend_where P (snd (insert_usage sql srv x d))"
  using sql_ok_store [OF assms] by (simp add: spend_where_def insert_usage_def split: server.splits)

lemma spend_where_step: "sql_ok sql \<Longrightarrow> op_ok x \<Longrightarrow> spend_where P d \<le> spend_where P (db_step sql x d)"
proof (cases x)
  case (AddKey srv h c l e)
  then show ?thesis by (simp add: spend_where_def insert_key_def Let_def split: server.splits)
next
  case (Deactivate i)
  then show ?thesis by (simp add: spend_where_def deactivate_key_def split: option.splits)
next
  case (Audit srv a i c t)
  then show ?thesis by (simp add: spend_where_def create_audit_log_def split: server.splits)
qed (simp_all add: create_usage_log_def create_failed_usage_log_def spend_where_insert)

lemma key_ledger:
  "sql_ok sql \<Longrightarrow> spend_ledger (db_step sql) op_ok (\<lambda>d. dec_val (get_key_spend_usd sql i d))"
  by unfold_locales (simp add: key_spend_val spend_where_step)

lemma global_ledger:
  "sql_ok sql \<Longrightarrow> spend_ledger (db_step sql) op_ok (\<lambda>d. dec_val (get_global_spend_usd sql d))"
  by unfold_locales (simp add: global_spend_val spend_where_step)

interpretation exact_key_ledger: spend_ledger "db_step exact_sql" op_ok "\<lambda>d. dec_val (get_key_spend_usd exact_sql i d)" for i
  by (rule key_ledger) simp

text \<open>Failed requests are stored at no cost, and a refused statement changes nothing.\<close>

lemma spend_where_failure:
  "spend_where (\<lambda>r. Q r \<and> log_status r = ''ok'') (snd (create_failed_usage_log sql srv i p m l e d)) =
   spend_where (\<lambda>r. Q r \<and> log_status r = ''ok'') d"
  by (simp add: spend_where_def create_failed_usage_log_def insert_usage_def split: server.splits)

lemma spend_where_logged:
  assumes "create_usage_log sql (Assigned n t) x d = (None, d')"
  shows "spend_where P d' = spend_where P d +
    (if P \<lparr>log_id = n, log_key_id = ul_virtual_key_id x, log_provider = ul_provider x,
           log_model = ul_model x, log_input = ul_input_tokens x, log_output = ul_output_tokens x,
           log_latency = ul_latency_ms x, log_cost = store_cost sql (ul_estimated_cost x),
           log_status = ul_status x, log_error = ul_error_type x, log_timestamp = t\<rparr>
     then dec_val (store_cost sql (ul_estimated_cost x)) else 0)"
  using assms
  by (auto simp: create_usage_log_def insert_usage_def spend_where_def split: if_splits)

subsection \<open>Pagination\<close>

lemma concat_pages:
  "concat (map (\<lambda>i. take n (drop (i * n) xs)) [0..<k]) = take (k * n) xs"
proof (induction k)
  case (Suc k)
  then show ?case by (simp add: add.commute [of n] take_add)
qed simp

lemma sorted_listed:
  assumes "distinct (map log_id rs)"
  shows "sorted_wrt (\<lambda>a b. log_id b < log_id a) (sort_key (\<lambda>r. - log_id r) rs)"
proof -
  let ?L = "sort_key (\<lambda>r. - log_id r) rs"
  have "inj_on (\<lambda>r. - log_id r) (set rs)" and "distinct rs"
    using assms by (auto simp: distinct_map inj_on_def)
  then have "distinct (map (\<lambda>r. - log_id r) ?L)" by (simp add: distinct_map)
  with sorted_sort_key have "sorted_wrt (<) (map (\<lambda>r. - log_id r) ?L)"
    by (simp add: strict_sorted_iff)
  then show ?thesis by (simp add: sorted_wrt_map)
qed

subsection \<open>Properties\<close>

text \<open>
  Paging through the logs shows every matching row exactly once, newest first: with pages of
  \<open>n\<close> rows at offsets \<open>0, n, 2n, ...\<close> the pages up to the reported total, put together, are the matching
  rows by strictly descending id, and their number is the total the count query reports.
\<close>

theorem log_pages_cover_history:
  assumes "db_ok d" and "count_usage_logs s m p d \<le> k * n"
  defines "shown \<equiv> concat (map (\<lambda>i. list_usage_logs n s m p (i * n) d) [0..<k])"
  shows "set shown = {r \<in> set (usage_logs d). log_matches s m p r} \<and>
         sorted_wrt (\<lambda>a b. log_id b < log_id a) shown \<and> distinct shown \<and>
         length shown = count_usage_logs s m p d"
proof -
  let ?L = "sort_key (\<lambda>r. - log_id r) (matching_logs s m p d)"
  have "length ?L \<le> k * n" using assms(2) by (simp add: count_usage_logs_def)
  then have shown: "shown = ?L"
    by (simp add: shown_def list_usage_logs_def concat_pages)
  have dist: "distinct (map log_id (matching_logs s m p d))"
    using assms(1) by (simp add: db_ok_def matching_logs_def distinct_map_filter)
  from dist have "distinct ?L" by (simp add: distinct_map)
  with sorted_listed [OF dist] show ?thesis
    by (simp add: shown) (auto simp: count_usage_logs_def matching_logs_def)
qed

definition sample_log :: "int \<Rightarrow> string \<Rightarrow> usage_row" where
  "sample_log i st =
     \<lparr>log_id = i, log_key_id = 1, log_provider = ''openai'', log_model = ''gpt-4o'', log_input = 1,
      log_output = 1, log_latency = 5, log_cost = dec_zero, log_status = st, log_error = None,
      log_timestamp = Naive 0\<rparr>"

theorem log_pages_cover_history_witness:
  "concat (map (\<lambda>i. list_usage_logs 2 (Some ''ok'') None None (i * 2)
       (empty_db\<lparr>usage_logs := map (\<lambda>i. sample_log i ''ok'') [3, 1, 2]\<rparr>)) [0..<2]) =
     map (\<lambda>i. sample_log i ''ok'') [3, 2, 1] \<and>
   length (concat (map (\<lambda>i. list_usage_logs 2 (Some ''ok'') None None (i * 2)
       (empty_db\<lparr>usage_logs := map (\<lambda>i. sample_log i ''ok'') [3, 1, 2]\<rparr>)) [0..<2])) = 3"
  using log_pages_cover_history
    [of "empty_db\<lparr>usage_logs := map (\<lambda>i. sample_log i ''ok'') [3, 1, 2]\<rparr>" "Some ''ok''" None None 2 2]
  by (simp add: db_ok_def empty_db_def sample_log_def count_usage_logs_def matching_logs_def
      log_matches_def list_usage_logs_def upt_rec)

text \<open>
  Looking up a key never fails for ambiguity: after any history of writes from an empty
  database the lookup by hash returns the one stored row with that hash, or nothing when there is none.
\<close>

theorem key_lookup_unambiguous:
  "(\<exists>k \<in> set (api_keys (db_run sql ops empty_db)).
      hashed_key k = h \<and> get_key_by_hash h (db_run sql ops empty_db) = Inr (Some k)) \<or>
   (h \<notin> hashed_key ` set (api_keys (db_run sql ops empty_db)) \<and>
      get_key_by_hash h (db_run sql ops empty_db) = Inr None)"
proof -
  let ?ks = "api_keys (db_run sql ops empty_db)"
  let ?m = "filter (\<lambda>k. hashed_key k = h) ?ks"
  have "distinct (map hashed_key ?ks)"
    using db_ok_run [OF db_ok_empty] by (simp add: db_ok_def)
  then have "distinct (map hashed_key ?m)" by (rule distinct_map_filter)
  moreover have "set (map hashed_key ?m) \<subseteq> {h}" by auto
  ultimately have len: "length ?m \<le> 1"
    by (metis card_mono distinct_card finite.emptyI finite.insertI is_singletonI is_singleton_altdef length_map)
  show ?thesis
  proof (cases ?m)
    case Nil
    then show ?thesis by (auto simp: get_key_by_hash_def filter_empty_conv)
  next
    case (Cons k ks)
    with len have "ks = []" by simp
    with Cons show ?thesis
      using filter_eq_ConsD [OF Cons] by (auto simp: get_key_by_hash_def)
  qed
qed

end
