(* ===== verification/Spend.thy ===== *)
theory Spend
  imports Storage Usage_Metrics Core_Config
begin

text \<open>
  Spend accounting: the background writes of \<open>services/usage.py\<close>, the cap check
  \<open>enforce_spend_cap\<close> of \<open>routers/chat.py\<close> and \<open>GET /api/usage/spend\<close> of \<open>routers/usage.py\<close>.  The
  fire-and-forget tasks are values that are queued by the request and run later on the database.
\<close>

subsection \<open>services/usage.py\<close>

datatype task =
    PersistUsage usage_record
  | PersistFailure int string string int string

definition usage_data :: "usage_record \<Rightarrow> usage_log_data" where
  "usage_data r =
     \<lparr>ul_virtual_key_id = ur_virtual_key_id r, ul_provider = ur_provider r, ul_model = ur_model r,
      ul_input_tokens = ur_input_tokens r, ul_output_tokens = ur_output_tokens r,
      ul_latency_ms = ur_latency_ms r, ul_estimated_cost = ur_estimated_cost r,
      ul_status = ''ok'', ul_error_type = None\<rparr>"

text \<open>\<open>persist_usage\<close> logs and swallows every exception.\<close>

definition persist_usage :: "sql_ops \<Rightarrow> server \<Rightarrow> usage_record \<Rightarrow> db \<Rightarrow> db" where
  "persist_usage sql srv r d =
     (case create_usage_log sql srv (usage_data r) d of
        (None, d') \<Rightarrow> d'
      | (Some e, d') \<Rightarrow> d')"

definition record_failed_request ::
    "int \<Rightarrow> string \<Rightarrow> string \<Rightarrow> int \<Rightarrow> string \<Rightarrow> prom \<times> task list \<Rightarrow> prom \<times> task list" where
  "record_failed_request virtual_key_id provider_nm model latency_ms error_type w =
     (record_failure provider_nm model error_type (fst w),
      snd w @ [PersistFailure virtual_key_id provider_nm model latency_ms error_type])"

text \<open>A queued task when the event loop runs it: an exception it raises reaches nobody.\<close>

fun run_task :: "sql_ops \<Rightarrow> server \<Rightarrow> task \<Rightarrow> db \<Rightarrow> db" where
  "run_task sql srv (PersistUsage r) d = persist_usage sql srv r d"
| "run_task sql srv (PersistFailure i p m l e) d = snd (create_failed_usage_log sql srv i p m l e d)"

subsection \<open>routers/chat.py: \<open>enforce_spend_cap\<close>\<close>

definition insufficient_quota :: "string \<Rightarrow> exn" where
  "insufficient_quota m =
     HttpExn \<lparr>status_code = 429, detail = ErrorDetail m ''insufficient_quota'' None, exc_headers = []\<rparr>"

definition key_cap_error :: "sql_ops \<Rightarrow> db \<Rightarrow> int \<Rightarrow> exn option" where
  "key_cap_error sql d virtual_key_id =
     (case get_key_by_id virtual_key_id d of
        None \<Rightarrow> None
      | Some k \<Rightarrow>
          (case spend_limit_usd k of
             None \<Rightarrow> None
           | Some limit \<Rightarrow>
               let spent = get_key_spend_usd sql virtual_key_id d
               in if dec_val limit \<le> dec_val spent then
                    Some (insufficient_quota
                      (''Spend limit exceeded ($'' @ dec_str spent @ '' >= $'' @ dec_str limit @ '')''))
                  else None))"

definition global_cap_error :: "sql_ops \<Rightarrow> settings \<Rightarrow> db \<Rightarrow> exn option" where
  "global_cap_error sql s d =
     (case GLOBAL_SPEND_LIMIT_USD s of
        None \<Rightarrow> None
      | Some limit \<Rightarrow>
          if dec_val (dec_of_float limit) \<le> dec_val (get_global_spend_usd sql d) then
            Some (insufficient_quota ''Global spend limit exceeded'')
          else None)"

definition enforce_spend_cap :: "sql_ops \<Rightarrow> settings \<Rightarrow> db \<Rightarrow> int \<Rightarrow> exn + int" where
  "enforce_spend_cap sql s d virtual_key_id =
     (case key_cap_error sql d virtual_key_id of
        Some e \<Rightarrow> Inl e
      | None \<Rightarrow>
          (case global_cap_error sql s d of
             Some e \<Rightarrow> Inl e
           | None \<Rightarrow> Inr virtual_key_id))"

subsection \<open>routers/usage.py\<close>

definition key_limit :: "db \<Rightarrow> int \<Rightarrow> dec option" where
  "key_limit d i = (case get_key_by_id i d of None \<Rightarrow> None | Some k \<Rightarrow> spend_limit_usd k)"

definition get_spend :: "sql_ops \<Rightarrow> settings \<Rightarrow> db \<Rightarrow> int \<Rightarrow> jobj" where
  "get_spend sql s d virtual_key_id =
     [(''virtual_key_id'', JInt virtual_key_id),
      (''spend_usd'', JStr (dec_str (get_key_spend_usd sql virtual_key_id d))),
      (''limit_usd'', jstr_opt (map_option dec_str (key_limit d virtual_key_id))),
      (''global_spend_usd'',
         case GLOBAL_SPEND_LIMIT_USD s of
           None \<Rightarrow> JNull
         | Some l \<Rightarrow> JStr (dec_str (get_global_spend_usd sql d))),
      (''global_limit_usd'', jstr_opt (map_option frepr (GLOBAL_SPEND_LIMIT_USD s)))]"

subsection \<open>Lemmas\<close>

lemma persist_usage_step: "persist_usage sql srv r d = db_step sql (LogUsage srv (usage_data r)) d"
  by (simp add: persist_usage_def split: prod.splits option.splits)

text \<open>No write of the program changes the limit of an existing key.\<close>

lemma find_append_Some: "find P xs = Some x \<Longrightarrow> find P (xs @ ys) = Some x"
  by (induction xs) auto

lemma api_keys_other [simp]:
  "api_keys (snd (insert_usage sql srv y d)) = api_keys d"
  "api_keys (snd (create_audit_log srv a j c t d)) = api_keys d"
  by (simp_all add: insert_usage_def create_audit_log_def split: server.splits)

lemma key_limit_step:
  assumes "get_key_by_id i d = Some k"
  shows "\<exists>k'. get_key_by_id i (db_step sql x d) = Some k' \<and> spend_limit_usd k' = spend_limit_usd k"
proof (cases x)
  case (Deactivate j)
  then show ?thesis
    using assms find_deactivated [of i j "api_keys d"]
    by (cases "get_key_by_id j d") (auto simp: get_key_by_id_def deactivate_key_def)
next
  case (AddKey srv h c l e)
  then show ?thesis
    using assms find_append_Some [of "\<lambda>k. key_id k = i" "api_keys d" k]
    by (auto simp: get_key_by_id_def insert_key_def Let_def split: server.splits)
qed (use assms in \<open>simp_all add: get_key_by_id_def create_usage_log_def create_failed_usage_log_def\<close>)

lemma key_limit_run:
  "get_key_by_id i d = Some k \<Longrightarrow>
     \<exists>k'. get_key_by_id i (db_run sql ops d) = Some k' \<and> spend_limit_usd k' = spend_limit_usd k"
proof (induction ops arbitrary: d k)
  case (Cons x ops)
  from key_limit_step [OF Cons.prems, of sql x] obtain k1
    where k1: "get_key_by_id i (db_step sql x d) = Some k1" "spend_limit_usd k1 = spend_limit_usd k"
    by blast
  from Cons.IH [OF k1(1)] k1(2) show ?case by (simp add: db_run_def)
qed (simp add: db_run_def)

lemma key_cap_error_Some_iff:
  "(\<exists>e. key_cap_error sql d i = Some e) \<longleftrightarrow>
     (\<exists>k l. get_key_by_id i d = Some k \<and> spend_limit_usd k = Some l \<and>
            dec_val l \<le> dec_val (get_key_spend_usd sql i d))"
  by (auto simp: key_cap_error_def Let_def split: option.splits)

lemma global_cap_error_Some_iff:
  "(\<exists>e. global_cap_error sql s d = Some e) \<longleftrightarrow>
     (\<exists>l. GLOBAL_SPEND_LIMIT_USD s = Some l \<and> dec_val (dec_of_float l) \<le> dec_val (get_global_spend_usd sql d))"
  by (auto simp: global_cap_error_def split: option.splits)

lemma enforce_Inl_iff:
  "(\<exists>e. enforce_spend_cap sql s d i = Inl e) \<longleftrightarrow>
     (\<exists>e. key_cap_error sql d i = Some e) \<or> (\<exists>e. global_cap_error sql s d = Some e)"
  by (auto simp: enforce_spend_cap_def split: option.splits)

lemma enforce_Inl_quota: "enforce_spend_cap sql s d i = Inl e \<Longrightarrow> \<exists>m. e = insufficient_quota m"
  by (auto simp: enforce_spend_cap_def key_cap_error_def global_cap_error_def Let_def split: option.splits if_splits)

lemma enforce_Inr_iff:
  "enforce_spend_cap sql s d i = Inr j \<longleftrightarrow>
     j = i \<and> key_cap_error sql d i = None \<and> global_cap_error sql s d = None"
  by (auto simp: enforce_spend_cap_def split: option.splits)

subsection \<open>Properties\<close>

text \<open>
  The cap admits a request exactly while the accumulated spend is strictly below every limit that is set;
  otherwise the answer is a 429 of type \<open>insufficient_quota\<close>, for the key's own limit first.
\<close>

theorem spend_cap_exact:
  "(enforce_spend_cap sql s d i = Inr i \<longleftrightarrow>
      (\<forall>k l. get_key_by_id i d = Some k \<and> spend_limit_usd k = Some l \<longrightarrow>
             dec_val (get_key_spend_usd sql i d) < dec_val l) \<and>
      (\<forall>l. GLOBAL_SPEND_LIMIT_USD s = Some l \<longrightarrow> dec_val (get_global_spend_usd sql d) < dec_val (dec_of_float l))) \<and>
   (enforce_spend_cap sql s d i \<noteq> Inr i \<longrightarrow>
      (\<exists>m. enforce_spend_cap sql s d i = Inl (insufficient_quota m)))"
proof (rule conjI)
  have "enforce_spend_cap sql s d i = Inr i \<longleftrightarrow>
      \<not> (\<exists>e. key_cap_error sql d i = Some e) \<and> \<not> (\<exists>e. global_cap_error sql s d = Some e)"
    by (auto simp: enforce_Inr_iff)
  then show "enforce_spend_cap sql s d i = Inr i \<longleftrightarrow>
      (\<forall>k l. get_key_by_id i d = Some k \<and> spend_limit_usd k = Some l \<longrightarrow>
             dec_val (get_key_spend_usd sql i d) < dec_val l) \<and>
      (\<forall>l. GLOBAL_SPEND_LIMIT_USD s = Some l \<longrightarrow> dec_val (get_global_spend_usd sql d) < dec_val (dec_of_float l))"
    unfolding key_cap_error_Some_iff global_cap_error_Some_iff by (simp add: not_le) blast
  show "enforce_spend_cap sql s d i \<noteq> Inr i \<longrightarrow>
      (\<exists>m. enforce_spend_cap sql s d i = Inl (insufficient_quota m))"
    by (auto simp: enforce_spend_cap_def key_cap_error_def global_cap_error_def Let_def
        split: option.splits)
qed

definition capped_key :: api_key_row where
  "capped_key =
     \<lparr>key_id = 7, hashed_key = ''h'', client_name = ''acme'', is_active = True,
      spend_limit_usd = Some (mk_dec 100 (- 2)), expires_at = None, key_created_at = Naive 0\<rparr>"

definition capped_db :: "dec \<Rightarrow> db" where
  "capped_db cost =
     \<lparr>api_keys = [capped_key], usage_logs = [(sample_log 1 ''ok'')\<lparr>log_key_id := 7, log_cost := cost\<rparr>],
      audit_logs = []\<rparr>"

theorem spend_cap_exact_witness:
  "enforce_spend_cap exact_sql default_settings (capped_db (mk_dec 99 (- 2))) 7 = Inr 7"
  using spend_cap_exact [of exact_sql default_settings "capped_db (mk_dec 99 (- 2))" 7]
  by (simp add: capped_db_def capped_key_def get_key_by_id_def default_settings_def get_key_spend_usd_def
      sample_log_def exact_sql_def add_exact_def dec_val_def dec_zero_def)

lemma key_cap_stays:
  assumes "sql_ok sql" and "list_all op_ok ops" and "\<exists>e. key_cap_error sql d i = Some e"
  shows "\<exists>e. key_cap_error sql (db_run sql ops d) i = Some e"
proof -
  obtain k l where k: "get_key_by_id i d = Some k" "spend_limit_usd k = Some l"
      and reached: "dec_val l \<le> dec_val (get_key_spend_usd sql i d)"
    using assms(3) key_cap_error_Some_iff by blast
  have "dec_val l \<le> dec_val (get_key_spend_usd sql i (db_run sql ops d))"
    unfolding db_run_def
    by (rule spend_ledger.reached_stays [OF key_ledger [OF assms(1)] assms(2) reached])
  with key_limit_run [OF k(1), of sql ops] k(2) show ?thesis
    unfolding key_cap_error_Some_iff by auto
qed

lemma global_cap_stays:
  assumes "sql_ok sql" and "list_all op_ok ops" and "\<exists>e. global_cap_error sql s d = Some e"
  shows "\<exists>e. global_cap_error sql s (db_run sql ops d) = Some e"
proof -
  obtain l where l: "GLOBAL_SPEND_LIMIT_USD s = Some l"
      and reached: "dec_val (dec_of_float l) \<le> dec_val (get_global_spend_usd sql d)"
    using assms(3) global_cap_error_Some_iff by blast
  have "dec_val (dec_of_float l) \<le> dec_val (get_global_spend_usd sql (db_run sql ops d))"
    unfolding db_run_def
    by (rule spend_ledger.reached_stays [OF global_ledger [OF assms(1)] assms(2) reached])
  with l show ?thesis unfolding global_cap_error_Some_iff by blast
qed

lemma cap_reached_run:
  assumes "sql_ok sql" and "list_all op_ok ops" and "enforce_spend_cap sql s d i = Inl e"
  shows "\<exists>e'. enforce_spend_cap sql s (db_run sql ops d) i = Inl e'"
  using key_cap_stays [OF assms(1,2), of d i] global_cap_stays [OF assms(1,2), of s d] assms(3) enforce_Inl_iff by blast

text \<open>
  A cap that was reached stays reached: whatever the program writes afterwards (usage, failures,
  new keys, revocations, audit entries, in any order, accepted or refused by the server), the same request
  is still rejected, as long as no logged cost is negative.
\<close>

theorem spend_cap_stays_reached:
  assumes "sql_ok sql" and "list_all op_ok ops" and "enforce_spend_cap sql s d i = Inl e"
  shows "\<exists>e'. enforce_spend_cap sql s (db_run sql ops d) i = Inl e'"
  using assms by (rule cap_reached_run)

theorem spend_cap_stays_reached_witness:
  "\<exists>e'. enforce_spend_cap exact_sql default_settings
     (db_run exact_sql [Deactivate 7, LogFailure (Assigned 2 (Naive 1)) 7 ''p'' ''m'' 3 ''upstream_error'']
        (capped_db (mk_dec 100 (- 2)))) 7 = Inl e'"
proof -
  have "dec_val (mk_dec 100 (- 2)) \<le>
      dec_val (get_key_spend_usd exact_sql 7 (capped_db (mk_dec 100 (- 2))))"
    by (simp add: key_spend_val spend_where_def capped_db_def sample_log_def)
  then have "enforce_spend_cap exact_sql default_settings (capped_db (mk_dec 100 (- 2))) 7 \<noteq> Inr 7"
    using spend_cap_exact [of exact_sql default_settings "capped_db (mk_dec 100 (- 2))" 7]
    by (simp add: capped_db_def capped_key_def get_key_by_id_def)
  then obtain e where
    "enforce_spend_cap exact_sql default_settings (capped_db (mk_dec 100 (- 2))) 7 = Inl e"
    by (metis enforce_Inr_iff obj_sumE)
  from spend_cap_stays_reached [OF sql_ok_exact _ this] show ?thesis by simp
qed

text \<open>
  What is charged: running the background task of a served request on a free row id adds
  exactly the stored cost to the spend of that request's key and to the global spend, and nothing to any other key;
  the task of a failed request adds nothing anywhere.
\<close>

theorem task_charges_its_key:
  assumes "sql_ok sql" and "n \<notin> log_id ` set (usage_logs d)"
  shows "dec_val (get_key_spend_usd sql i (run_task sql (Assigned n t) (PersistUsage r) d)) =
           dec_val (get_key_spend_usd sql i d) +
           (if i = ur_virtual_key_id r then dec_val (store_cost sql (ur_estimated_cost r)) else 0) \<and>
         dec_val (get_global_spend_usd sql (run_task sql (Assigned n t) (PersistUsage r) d)) =
           dec_val (get_global_spend_usd sql d) + dec_val (store_cost sql (ur_estimated_cost r)) \<and>
         dec_val (get_key_spend_usd sql i (run_task sql srv (PersistFailure k p m l e) d)) =
           dec_val (get_key_spend_usd sql i d) \<and>
         dec_val (get_global_spend_usd sql (run_task sql srv (PersistFailure k p m l e) d)) =
           dec_val (get_global_spend_usd sql d)"
proof -
  let ?d1 = "run_task sql (Assigned n t) (PersistUsage r) d"
  have "fst (create_usage_log sql (Assigned n t) (usage_data r) d) = None"
    using assms(2) by (simp add: create_usage_log_def insert_usage_def)
  then have "create_usage_log sql (Assigned n t) (usage_data r) d = (None, ?d1)"
    by (metis db_step.simps(1) persist_usage_step prod.collapse run_task.simps(1))
  note logged = spend_where_logged [OF this]
  show ?thesis
    using spend_where_failure [of "\<lambda>r. log_key_id r = i" sql srv k p m l e d]
      spend_where_failure [of "\<lambda>r. True" sql srv k p m l e d]
    unfolding key_spend_val [OF assms(1)] global_spend_val [OF assms(1)] logged
    by (simp add: usage_data_def eq_commute [of i])
qed

theorem task_charges_its_key_witness:
  "dec_val (get_key_spend_usd exact_sql 7 (run_task exact_sql (Assigned 2 (Naive 9))
      (PersistUsage (build_usage_record 7 ''p'' free_pricing ''m'' zero_usage 0)) (capped_db (mk_dec 1 0)))) =
   dec_val (get_key_spend_usd exact_sql 7 (capped_db (mk_dec 1 0))) +
     dec_val (store_cost exact_sql
       (ur_estimated_cost (build_usage_record 7 ''p'' free_pricing ''m'' zero_usage 0)))"
  using task_charges_its_key
    [of exact_sql 2 "capped_db (mk_dec 1 0)" 7 "Naive 9"
        "build_usage_record 7 ''p'' free_pricing ''m'' zero_usage 0"]
  by (simp add: capped_db_def sample_log_def build_usage_record_def)

end
