(* ===== verification/Gateway.thy ===== *)
theory Gateway
  imports Fallback Response_Cache Spend
begin

text \<open>
  The orchestrator \<open>services/gateway.py\<close>.  \<open>handle_chat_completion\<close> is modelled as the sequence of
  segments its \<open>await\<close>s cut it into: \<open>advance\<close> runs one request from one point (\<open>pc\<close>) to the next, on the state
  the process shares (\<open>gw\<close>: the in-flight table, its futures, the counters, the queued tasks, and
  the outside world with Redis and the providers).  A request alone runs its segments to the end
  (\<open>handle_chat_completion\<close>); concurrent requests interleave them (theory \<open>Single_Flight\<close>).
\<close>

subsection \<open>State\<close>

datatype fut = Pending | Completed chat_response | Raised exn | Cancelled

record 'w gw =
  gw_world :: 'w
  gw_prom :: prom
  gw_tasks :: "task list"
  inflight :: "string \<rightharpoonup> nat"
  futures :: "fut list"

text \<open>What the process uses and the model does not define.\<close>

record 'w env =
  env_exec :: "'w redis"
  env_call :: "('w, chat_response) provider_call"
  env_monotonic :: "'w \<Rightarrow> rat"
  env_sleep :: "rat \<Rightarrow> 'w \<Rightarrow> 'w"
  env_sha :: "string \<Rightarrow> string"
  env_enc :: "chat_response \<Rightarrow> string"
  env_dec :: "string \<Rightarrow> chat_response option"
  env_settings :: settings
  env_registry :: registry

text \<open>
  Where a request stands.  A point named after an action (\<open>Locking\<close>) is before that call, its participle
  (\<open>Locked\<close>) is after it, with the result.  \<open>Unwinding\<close> and \<open>Gone\<close> are a cancelled task.
\<close>

datatype pc =
    Arrived
  | Looked "chat_response option"
  | Following nat
  | Locking
  | Locked "string option"
  | Waiting
  | Waited "chat_response option"
  | Calling "string option" nat
  | Called "string option" nat "exn + provider \<times> chat_response"
  | Releasing string nat "exn + provider \<times> chat_response"
  | Released nat "exn + provider \<times> chat_response"
  | Saving provider chat_response
  | Saved provider chat_response
  | Finished "exn + chat_response"
  | Unwinding string
  | Gone

subsection \<open>Segments\<close>

definition LOCK_TTL_GRACE_SECONDS :: rat where
  "LOCK_TTL_GRACE_SECONDS = 5"

definition lock_ttl_seconds :: "provider list \<Rightarrow> rat" where
  "lock_ttl_seconds providers =
     sum_list (map (\<lambda>p. fval (cfg_timeout (config p))) providers) + LOCK_TTL_GRACE_SECONDS"

definition request_key :: "'w env \<Rightarrow> chat_request \<Rightarrow> int \<Rightarrow> string" where
  "request_key env req virtual_key_id = build_cache_key (env_sha env) req (Some virtual_key_id)"

text \<open>\<open>emit_metric(record)\<close>, then the task that persists it.\<close>

definition account :: "usage_record \<Rightarrow> 'w gw \<Rightarrow> exn option \<times> 'w gw" where
  "account r g =
     (case emit_metric r (gw_prom g) of
        (Some e, p) \<Rightarrow> (Some e, g\<lparr>gw_prom := p\<rparr>)
      | (None, p) \<Rightarrow> (None, g\<lparr>gw_prom := p, gw_tasks := gw_tasks g @ [PersistUsage r]\<rparr>))"

definition finish_with :: "usage_record \<Rightarrow> chat_response \<Rightarrow> 'w gw \<Rightarrow> pc \<times> 'w gw" where
  "finish_with r response g =
     (case account r g of
        (Some e, g') \<Rightarrow> (Finished (Inl e), g')
      | (None, g') \<Rightarrow> (Finished (Inr response), g'))"

text \<open>\<open>_record_cache_style_usage\<close>, after which the response is returned.\<close>

definition serve_cached :: "int \<Rightarrow> int \<Rightarrow> chat_response \<Rightarrow> 'w gw \<Rightarrow> pc \<times> 'w gw" where
  "serve_cached virtual_key_id latency_ms response g =
     finish_with
       (build_usage_record virtual_key_id CACHE_PROVIDER_NAME free_pricing (resp_model response)
          (resp_usage response) latency_ms) response g"

text \<open>\<open>create_future()\<close> and its registration.\<close>

definition lead :: "string \<Rightarrow> string option \<Rightarrow> 'w gw \<Rightarrow> pc \<times> 'w gw" where
  "lead key token g =
     (Calling token (length (futures g)),
      g\<lparr>inflight := (inflight g)(key \<mapsto> length (futures g)), futures := futures g @ [Pending]\<rparr>)"

text \<open>\<open>set_result\<close> and \<open>set_exception\<close>: a future is completed once.\<close>

definition complete :: "nat \<Rightarrow> fut \<Rightarrow> 'w gw \<Rightarrow> exn option \<times> 'w gw" where
  "complete f v g =
     (if futures g ! f = Pending then (None, g\<lparr>futures := (futures g)[f := v]\<rparr>)
      else (Some InvalidStateErr, g))"

text \<open>The \<open>finally\<close> block up to the release: only our own future is removed.\<close>

definition unregister :: "string \<Rightarrow> nat \<Rightarrow> 'w gw \<Rightarrow> 'w gw" where
  "unregister key f g =
     (if inflight g key = Some f then g\<lparr>inflight := (inflight g)(key := None)\<rparr> else g)"

definition no_candidates :: "chat_request \<Rightarrow> exn" where
  "no_candidates req =
     NoProviderExn
       \<lparr>npa_message = ''No provider available for model '' @ [CHR 0x27] @ req_model req @ [CHR 0x27] @ '' (attempted: none)'',
        attempted_providers = [], last_error = None\<rparr>"

fun advance ::
    "'w env \<Rightarrow> chat_request \<Rightarrow> int \<Rightarrow> string \<Rightarrow> int \<Rightarrow> pc \<Rightarrow> 'w gw \<Rightarrow> pc \<times> 'w gw" where
  "advance env req vk token latency_ms Arrived g =
     (case cache_get (env_exec env) (env_dec env) (request_key env req vk) (gw_prom g, gw_world g) of
        (r, p, w) \<Rightarrow> (Looked r, g\<lparr>gw_prom := p, gw_world := w\<rparr>))"
| "advance env req vk token latency_ms (Looked (Some r)) g = serve_cached vk latency_ms r g"
| "advance env req vk token latency_ms (Looked None) g =
     (case inflight g (request_key env req vk) of
        Some f \<Rightarrow> (Following f, g)
      | None \<Rightarrow>
          if select_providers (env_registry env) (req_model req) = []
          then (Finished (Inl (no_candidates req)), g)
          else (Locking, g))"
| "advance env req vk token latency_ms (Following f) g =
     (case futures g ! f of
        Pending \<Rightarrow> (Following f, g)
      | Completed r \<Rightarrow> serve_cached vk latency_ms r g
      | Raised e \<Rightarrow> (Finished (Inl e), g)
      | Cancelled \<Rightarrow> (Gone, g))"
| "advance env req vk token latency_ms Locking g =
     (case acquire_lock (env_exec env) token
             (lock_ttl_seconds (select_providers (env_registry env) (req_model req)))
             (request_key env req vk) (gw_world g) of
        (t, w) \<Rightarrow> (Locked t, g\<lparr>gw_world := w\<rparr>))"
| "advance env req vk token latency_ms (Locked (Some t)) g = lead (request_key env req vk) (Some t) g"
| "advance env req vk token latency_ms (Locked None) g = (Waiting, g)"
| "advance env req vk token latency_ms Waiting g =
     (case wait_for_result (env_exec env) (env_dec env) (env_monotonic env) (env_sleep env)
             (request_key env req vk) WAIT_TIMEOUT_SECONDS (gw_prom g, gw_world g) of
        None \<Rightarrow> (Waiting, g)
      | Some (r, p, w) \<Rightarrow> (Waited r, g\<lparr>gw_prom := p, gw_world := w\<rparr>))"
| "advance env req vk token latency_ms (Waited (Some r)) g = serve_cached vk latency_ms r g"
| "advance env req vk token latency_ms (Waited None) g = lead (request_key env req vk) None g"
| "advance env req vk token latency_ms (Calling t f) g =
     (case execute_with_fallback (env_call env)
             (select_providers (env_registry env) (req_model req)) req (gw_world g) of
        (r, w) \<Rightarrow> (Called t f r, g\<lparr>gw_world := w\<rparr>))"
| "advance env req vk token latency_ms (Called t f r) g =
     (case (case r of
              Inl e \<Rightarrow>
                (case complete f (Raised e) g of
                   (None, g1) \<Rightarrow> (Inl e, g1)
                 | (Some x, g1) \<Rightarrow> (Inl x, g1))
            | Inr pr \<Rightarrow> (Inr pr, g)) of
        (r', g1) \<Rightarrow>
          (case t of Some tok \<Rightarrow> Releasing tok f r' | None \<Rightarrow> Released f r',
           unregister (request_key env req vk) f g1))"
| "advance env req vk token latency_ms (Releasing tok f r) g =
     (Released f r,
      g\<lparr>gw_world := release_lock (env_exec env) (request_key env req vk) tok (gw_world g)\<rparr>)"
| "advance env req vk token latency_ms (Released f (Inl e)) g = (Finished (Inl e), g)"
| "advance env req vk token latency_ms (Released f (Inr (p, r))) g =
     (case complete f (Completed r) g of
        (None, g1) \<Rightarrow> (Saving p r, g1)
      | (Some x, g1) \<Rightarrow> (Finished (Inl x), g1))"
| "advance env req vk token latency_ms (Saving p r) g =
     (Saved p r,
      g\<lparr>gw_world := cache_set (env_exec env) (env_enc env) (env_settings env) (request_key env req vk) r (gw_world g)\<rparr>)"
| "advance env req vk token latency_ms (Saved p r) g =
     finish_with
       (build_usage_record vk (provider_name p) (pricing_for (config p) (req_model req)) (resp_model r)
          (resp_usage r) latency_ms) r g"
| "advance env req vk token latency_ms (Finished r) g = (Finished r, g)"
| "advance env req vk token latency_ms (Unwinding tok) g =
     (Gone, g\<lparr>gw_world := release_lock (env_exec env) (request_key env req vk) tok (gw_world g)\<rparr>)"
| "advance env req vk token latency_ms Gone g = (Gone, g)"

subsection \<open>A request alone\<close>

fun rank :: "pc \<Rightarrow> nat" where
  "rank Arrived = 12"
| "rank (Looked r) = 11"
| "rank Locking = 10"
| "rank (Locked t) = 9"
| "rank Waiting = 8"
| "rank (Waited r) = 7"
| "rank (Calling t f) = 6"
| "rank (Called t f r) = 5"
| "rank (Releasing t f r) = 4"
| "rank (Released f r) = 3"
| "rank (Saving p r) = 2"
| "rank (Saved p r) = 1"
| "rank (Following f) = 1"
| "rank (Unwinding t) = 1"
| "rank (Finished r) = 0"
| "rank Gone = 0"

text \<open>Run segment after segment until the request is finished or blocked.\<close>

function drive ::
    "'w env \<Rightarrow> chat_request \<Rightarrow> int \<Rightarrow> string \<Rightarrow> int \<Rightarrow> pc \<Rightarrow> 'w gw \<Rightarrow> pc \<times> 'w gw" where
  "drive env req vk token latency_ms p g =
     (let pg = advance env req vk token latency_ms p g
      in if rank (fst pg) < rank p then drive env req vk token latency_ms (fst pg) (snd pg) else (p, g))"
  by auto
termination
  by (relation "measure (\<lambda>(env, req, vk, token, latency_ms, p, g). rank p)") (simp_all add: split_beta)

declare drive.simps [simp del]

definition handle_chat_completion ::
    "'w env \<Rightarrow> chat_request \<Rightarrow> int \<Rightarrow> string \<Rightarrow> int \<Rightarrow> 'w gw \<Rightarrow> ((exn + chat_response) \<times> 'w gw) option" where
  \<comment> \<open>\<open>None\<close> when the request is left waiting for another one\<close>
  "handle_chat_completion env req vk token latency_ms g =
     (case drive env req vk token latency_ms Arrived g of
        (Finished r, g') \<Rightarrow> Some (r, g')
      | (p, g') \<Rightarrow> None)"

lemma drive_step:
  "advance env req vk token l p g = (p', g') \<Longrightarrow> rank p' < rank p \<Longrightarrow>
     drive env req vk token l p g = drive env req vk token l p' g'"
  by (subst drive.simps) (simp add: Let_def)

lemma drive_finished [simp]: "drive env req vk token l (Finished r) g = (Finished r, g)"
  by (subst drive.simps) simp

subsection \<open>A request alone: its two outcomes\<close>

lemma record_usage_ok:
  "0 \<le> ur_input_tokens r \<Longrightarrow> 0 \<le> ur_output_tokens r \<Longrightarrow> 0 \<le> dec_val (ur_estimated_cost r) \<Longrightarrow>
     emit_metric r p = (None, snd (emit_metric r p))"
  by (simp add: emit_metric_def record_usage_def Let_def)

lemma account_countable:
  "account r g = (x, g') \<longleftrightarrow>
     x = (if countable r then None else Some counter_error) \<and>
     g' = g\<lparr>gw_prom := snd (emit_metric r (gw_prom g)),
            gw_tasks := gw_tasks g @ (if countable r then [PersistUsage r] else [])\<rparr>"
  using emit_metric_countable [of r "gw_prom g"]
  by (cases "emit_metric r (gw_prom g)") (auto simp: account_def)

definition accounted :: "usage_record \<Rightarrow> 'w gw \<Rightarrow> 'w gw" where
  "accounted r g =
     g\<lparr>gw_prom := snd (emit_metric r (gw_prom g)), gw_tasks := gw_tasks g @ [PersistUsage r]\<rparr>"

lemma account_ok:
  assumes "usage_nonneg u" and "0 \<le> coef (input_cost_per_1m q)" and "0 \<le> coef (output_cost_per_1m q)"
  shows "account (build_usage_record vk pn q m u l) g = (None, accounted (build_usage_record vk pn q m u l) g)"
proof -
  let ?r = "build_usage_record vk pn q m u l"
  have "emit_metric ?r (gw_prom g) = (None, snd (emit_metric ?r (gw_prom g)))"
    using assms by (intro record_usage_ok) (simp_all add: build_usage_record_def usage_nonneg_def estimated_cost_nonneg)
  then obtain pm where "emit_metric ?r (gw_prom g) = (None, pm)" by blast
  then show ?thesis by (simp add: account_def accounted_def)
qed

lemma finish_with_ok:
  "usage_nonneg u \<Longrightarrow> 0 \<le> coef (input_cost_per_1m q) \<Longrightarrow> 0 \<le> coef (output_cost_per_1m q) \<Longrightarrow>
     finish_with (build_usage_record vk pn q m u l) x g =
       (Finished (Inr x), accounted (build_usage_record vk pn q m u l) g)"
  by (simp add: finish_with_def account_ok)

definition priced_nonneg :: "provider \<Rightarrow> string \<Rightarrow> bool" where
  "priced_nonneg q m \<longleftrightarrow>
     0 \<le> coef (input_cost_per_1m (pricing_for (config q) m)) \<and>
     0 \<le> coef (output_cost_per_1m (pricing_for (config q) m))"

subsection \<open>Concrete processes, for examples\<close>

definition demo_env :: "exn + chat_response \<Rightarrow> mem_redis env" where
  "demo_env answer =
     \<lparr>env_exec = mem_exec, env_call = (\<lambda>p req w. (answer, w)), env_monotonic = mem_time, env_sleep = mem_sleep,
      env_sha = (\<lambda>t. ''k''), env_enc = json_enc, env_dec = json_dec, env_settings = default_settings,
      env_registry = [(''a'', sample_provider ''a'' 0 [])]\<rparr>"

definition demo_gw :: "'w \<Rightarrow> 'w gw" where
  "demo_gw w = \<lparr>gw_world = w, gw_prom = empty_prom, gw_tasks = [], inflight = Map.empty, futures = []\<rparr>"

lemma demo_gw_world [simp]: "demo_gw w \<lparr>gw_world := w'\<rparr> = demo_gw w'"
  by (simp add: demo_gw_def)

text \<open>A process whose Redis is down and whose provider answers.\<close>

definition down_env :: "unit env" where
  "down_env =
     \<lparr>env_exec = (\<lambda>cs w. (Inl ''down'', w)), env_call = (\<lambda>p req w. (Inr sample_response, w)),
      env_monotonic = (\<lambda>w. 0), env_sleep = (\<lambda>d w. w), env_sha = (\<lambda>t. ''k''), env_enc = json_enc,
      env_dec = json_dec, env_settings = default_settings, env_registry = [(''a'', sample_provider ''a'' 0 [])]\<rparr>"

lemma down_env_simps [simp]:
  "env_exec down_env = (\<lambda>cs w. (Inl ''down'', w))" "env_dec down_env = json_dec"
  "env_registry down_env = [(''a'', sample_provider ''a'' 0 [])]"
  "request_key down_env req vk = ''k''" "env_monotonic down_env = (\<lambda>w. 0)"
  "env_call down_env = (\<lambda>p req w. (Inr sample_response, w))"
  by (simp_all add: down_env_def request_key_def build_cache_key_def)

lemma sample_registry_serves: "select_providers [(''a'', sample_provider ''a'' 0 [])] m = [sample_provider ''a'' 0 []]"
  by (simp add: select_providers_def registry_all_def serves_def sample_provider_def)

lemma down_advance:
  "advance down_env req vk tok l Arrived g = (Looked None, g\<lparr>gw_prom := record_cache_event ''error'' (gw_prom g)\<rparr>)"
  "advance down_env req vk tok l (Looked None) g =
     (case inflight g ''k'' of Some f \<Rightarrow> (Following f, g) | None \<Rightarrow> (Locking, g))"
  "advance down_env req vk tok l Locking g = (Locked None, g)"
  "advance down_env req vk tok l (Locked None) g = (Waiting, g)"
  "advance down_env req vk tok l Waiting g = (Waited None, g)"
  "advance down_env req vk tok l (Waited None) g = lead ''k'' None g"
  "advance down_env req vk tok l (Calling t f) g = (Called t f (Inr (sample_provider ''a'' 0 [], sample_response)), g)"
  "advance down_env req vk tok l (Called None f (Inr pr)) g = (Released f (Inr pr), unregister ''k'' f g)"
  "futures g ! f = Pending \<Longrightarrow> advance down_env req vk tok l (Released f (Inr (q, r))) g =
     (Saving q r, g\<lparr>futures := (futures g)[f := Completed r]\<rparr>)"
  by (simp_all add: execute_with_fallback_def complete_def cache_get_def acquire_lock_def wait_for_result_def poll_result.simps
      WAIT_TIMEOUT_SECONDS_def sample_registry_serves)

definition cached_world :: mem_redis where
  "cached_world = mem_start\<lparr>mem_keys := [''k'' \<mapsto> (RString (json_enc sample_response), None)]\<rparr>"

lemma demo_env_simps [simp]:
  "env_exec (demo_env a) = mem_exec" "env_dec (demo_env a) = json_dec" "env_enc (demo_env a) = json_enc"
  "env_call (demo_env a) = (\<lambda>p req w. (a, w))" "request_key (demo_env a) req vk = ''k''"
  "env_registry (demo_env a) = [(''a'', sample_provider ''a'' 0 [])]"
  by (simp_all add: demo_env_def request_key_def build_cache_key_def)

lemma cached_world_get: "mem_exec [Get ''k''] cached_world = (Inr [RBulk (json_enc sample_response)], cached_world)"
  by (rule mem_get_string) (simp_all add: cached_world_def mem_start_def live_def)

lemma empty_world_get: "mem_exec [Get ''k''] mem_start = (Inr [RNil], mem_start)"
  by (simp add: mem_exec_def mem_start_def live_def)

lemma sample_priced: "priced_nonneg (sample_provider n k ms) m"
  by (simp add: priced_nonneg_def pricing_for_def sample_provider_def mk_config_def free_pricing_def dec_zero_def)

lemma sample_usage_nonneg: "usage_nonneg (resp_usage sample_response)"
  by (simp add: sample_response_def usage_nonneg_def mk_usage_def)

subsection \<open>Properties\<close>

text \<open>
  A cached response costs nothing: on a hit the request is answered with the entry, no provider is
  called and the lock and the in-flight table are not touched (the world is the one the lookup left), and one usage
  record at zero cost, attributed to \<open>cache\<close>, is counted and queued.
\<close>

theorem cache_hit_is_free:
  assumes "cache_get (env_exec env) (env_dec env) (request_key env req vk) (gw_prom g, gw_world g) = (Some r, p, w)"
    and "usage_nonneg (resp_usage r)"
  shows "handle_chat_completion env req vk token l g =
           Some (Inr r, accounted
             (build_usage_record vk CACHE_PROVIDER_NAME free_pricing (resp_model r) (resp_usage r) l)
             (g\<lparr>gw_prom := p, gw_world := w\<rparr>)) \<and>
         dec_val (ur_estimated_cost
             (build_usage_record vk CACHE_PROVIDER_NAME free_pricing (resp_model r) (resp_usage r) l)) = 0"
proof -
  have "advance env req vk token l Arrived g = (Looked (Some r), g\<lparr>gw_prom := p, gw_world := w\<rparr>)"
    by (simp add: assms(1))
  moreover have "serve_cached vk l r (g\<lparr>gw_prom := p, gw_world := w\<rparr>) =
      (Finished (Inr r), accounted
         (build_usage_record vk CACHE_PROVIDER_NAME free_pricing (resp_model r) (resp_usage r) l)
         (g\<lparr>gw_prom := p, gw_world := w\<rparr>))"
    unfolding serve_cached_def by (rule finish_with_ok) (simp_all add: assms(2) free_pricing_def dec_zero_def)
  ultimately have "drive env req vk token l Arrived g = (Finished (Inr r), accounted
      (build_usage_record vk CACHE_PROVIDER_NAME free_pricing (resp_model r) (resp_usage r) l)
      (g\<lparr>gw_prom := p, gw_world := w\<rparr>))"
    by (simp add: drive_step)
  then show ?thesis
    by (simp add: handle_chat_completion_def estimated_cost_free build_usage_record_def)
qed

theorem cache_hit_is_free_witness:
  "\<exists>g'. handle_chat_completion (demo_env (Inl (ValueErr ''boom''))) sample_request 1 ''t'' 5 (demo_gw cached_world) =
     Some (Inr sample_response, g') \<and> gw_world g' = cached_world"
proof -
  have "cache_get mem_exec json_dec ''k'' (empty_prom, cached_world) =
      (Some sample_response, record_cache_event ''hit'' empty_prom, cached_world)"
    by (simp add: cache_get_def cached_world_get parse_entry_def json_dec_enc sample_response_ok)
  with cache_hit_is_free [OF _ sample_usage_nonneg, of "demo_env (Inl (ValueErr ''boom''))" sample_request 1
      "demo_gw cached_world" _ _ "''t''" 5]
  show ?thesis by (simp add: demo_gw_def accounted_def)
qed

text \<open>The segments of a leading request: up to the outcome of the call, and from there to the end for each outcome.\<close>

lemma leader_calls:
  assumes "cache_get (env_exec env) (env_dec env) (request_key env req vk) (gw_prom g, gw_world g) = (None, p, w)"
    and "inflight g (request_key env req vk) = None"
    and "select_providers (env_registry env) (req_model req) \<noteq> []"
    and "acquire_lock (env_exec env) token (lock_ttl_seconds (select_providers (env_registry env) (req_model req)))
           (request_key env req vk) w = (Some t, w1)"
    and "execute_with_fallback (env_call env) (select_providers (env_registry env) (req_model req)) req w1 = (res, w2)"
  shows "drive env req vk token l Arrived g =
           drive env req vk token l (Called (Some t) (length (futures g)) res)
             (g\<lparr>gw_prom := p, inflight := (inflight g)(request_key env req vk \<mapsto> length (futures g)),
                futures := futures g @ [Pending], gw_world := w2\<rparr>)"
proof -
  let ?k = "request_key env req vk" and ?f = "length (futures g)"
  let ?g1 = "g\<lparr>gw_prom := p, gw_world := w1, inflight := (inflight g)(?k \<mapsto> ?f), futures := futures g @ [Pending]\<rparr>"
  have "drive env req vk token l Arrived g = drive env req vk token l (Looked None) (g\<lparr>gw_prom := p, gw_world := w\<rparr>)"
    by (rule drive_step) (simp_all add: assms(1))
  also have "\<dots> = drive env req vk token l Locking (g\<lparr>gw_prom := p, gw_world := w\<rparr>)"
    by (rule drive_step) (simp_all add: assms(2,3))
  also have "\<dots> = drive env req vk token l (Locked (Some t)) (g\<lparr>gw_prom := p, gw_world := w1\<rparr>)"
    by (rule drive_step) (simp_all add: assms(4))
  also have "\<dots> = drive env req vk token l (Calling (Some t) ?f) ?g1"
    by (rule drive_step) (simp_all add: lead_def)
  also have "\<dots> = drive env req vk token l (Called (Some t) ?f res) (?g1\<lparr>gw_world := w2\<rparr>)"
    by (rule drive_step) (simp_all add: assms(5))
  finally show ?thesis by simp
qed

lemma leader_fails:
  assumes "inflight g (request_key env req vk) = None"
  shows "drive env req vk token l (Called (Some t) (length (futures g)) (Inl e))
             (g\<lparr>gw_prom := p, inflight := (inflight g)(request_key env req vk \<mapsto> length (futures g)),
                futures := futures g @ [Pending], gw_world := w2\<rparr>) =
           (Finished (Inl e), g\<lparr>gw_prom := p, gw_world := release_lock (env_exec env) (request_key env req vk) t w2,
              futures := futures g @ [Raised e]\<rparr>)"
    (is "drive env req vk token l ?called ?g2 = _")
proof -
  have tbl: "(inflight g)(request_key env req vk := None) = inflight g" using assms by (simp add: fun_upd_idem)
  have "drive env req vk token l ?called ?g2 =
      drive env req vk token l (Releasing t (length (futures g)) (Inl e))
        (g\<lparr>gw_prom := p, gw_world := w2, futures := futures g @ [Raised e]\<rparr>)"
    by (rule drive_step) (simp_all add: complete_def unregister_def tbl)
  then show ?thesis by (simp add: drive_step)
qed

lemma leader_succeeds:
  assumes "inflight g (request_key env req vk) = None"
    and "usage_nonneg (resp_usage r)" and "priced_nonneg q (req_model req)"
  shows "drive env req vk token l (Called (Some t) (length (futures g)) (Inr (q, r)))
             (g\<lparr>gw_prom := p, inflight := (inflight g)(request_key env req vk \<mapsto> length (futures g)),
                futures := futures g @ [Pending], gw_world := w2\<rparr>) =
           (Finished (Inr r), accounted
              (build_usage_record vk (provider_name q) (pricing_for (config q) (req_model req)) (resp_model r) (resp_usage r) l)
              (g\<lparr>gw_prom := p,
                 gw_world := cache_set (env_exec env) (env_enc env) (env_settings env) (request_key env req vk) r
                   (release_lock (env_exec env) (request_key env req vk) t w2),
                 futures := futures g @ [Completed r]\<rparr>))"
    (is "drive env req vk token l ?called ?g2 = (_, accounted ?u _)")
proof -
  let ?k = "request_key env req vk" and ?f = "length (futures g)"
  let ?w3 = "release_lock (env_exec env) ?k t w2"
  have tbl: "(inflight g)(?k := None) = inflight g" using assms(1) by (simp add: fun_upd_idem)
  have saved: "advance env req vk token l (Saved q r) g0 = (Finished (Inr r), accounted ?u g0)" for g0
    using assms(2,3) by (simp add: finish_with_ok priced_nonneg_def)
  have "drive env req vk token l ?called ?g2 =
      drive env req vk token l (Releasing t ?f (Inr (q, r)))
        (g\<lparr>gw_prom := p, gw_world := w2, futures := futures g @ [Pending]\<rparr>)"
    by (rule drive_step) (simp_all add: unregister_def tbl)
  also have "\<dots> = drive env req vk token l (Released ?f (Inr (q, r)))
        (g\<lparr>gw_prom := p, gw_world := ?w3, futures := futures g @ [Pending]\<rparr>)"
    by (rule drive_step) simp_all
  also have "\<dots> = drive env req vk token l (Saving q r)
        (g\<lparr>gw_prom := p, gw_world := ?w3, futures := futures g @ [Completed r]\<rparr>)"
    by (rule drive_step) (simp_all add: complete_def)
  also have "\<dots> = drive env req vk token l (Saved q r)
        (g\<lparr>gw_prom := p, gw_world := cache_set (env_exec env) (env_enc env) (env_settings env) ?k r ?w3,
           futures := futures g @ [Completed r]\<rparr>)"
    by (rule drive_step) simp_all
  also have "\<dots> = (Finished (Inr r), accounted ?u
        (g\<lparr>gw_prom := p, gw_world := cache_set (env_exec env) (env_enc env) (env_settings env) ?k r ?w3,
           futures := futures g @ [Completed r]\<rparr>))"
    by (simp add: drive_step [OF saved])
  finally show ?thesis .
qed

text \<open>
  C22. A miss is charged once and cleaned up always: a request that leads (a miss, nothing in flight, the lock acquired) calls
  the fallback chain once.  Its response is returned, cached and charged to the serving provider at the requested model's
  price; its failure is raised and charges nothing.  In both cases the lock is released, the
  in-flight entry removed, and the future completed.
\<close>

theorem leader_outcome:
  assumes "cache_get (env_exec env) (env_dec env) (request_key env req vk) (gw_prom g, gw_world g) = (None, p, w)"
    and "inflight g (request_key env req vk) = None"
    and "select_providers (env_registry env) (req_model req) \<noteq> []"
    and "acquire_lock (env_exec env) token (lock_ttl_seconds (select_providers (env_registry env) (req_model req)))
           (request_key env req vk) w = (Some t, w1)"
    and "execute_with_fallback (env_call env) (select_providers (env_registry env) (req_model req)) req w1 = (res, w2)"
    and "\<And>q r. res = Inr (q, r) \<Longrightarrow> usage_nonneg (resp_usage r) \<and> priced_nonneg q (req_model req)"
  shows "handle_chat_completion env req vk token l g =
    Some (let w3 = release_lock (env_exec env) (request_key env req vk) t w2;
              g3 = g\<lparr>gw_prom := p, gw_world := w3\<rparr>
          in case res of
               Inl e \<Rightarrow> (Inl e, g3\<lparr>futures := futures g @ [Raised e]\<rparr>)
             | Inr (q, r) \<Rightarrow>
                 (Inr r, accounted
                    (build_usage_record vk (provider_name q) (pricing_for (config q) (req_model req)) (resp_model r)
                       (resp_usage r) l)
                    (g3\<lparr>gw_world := cache_set (env_exec env) (env_enc env) (env_settings env) (request_key env req vk) r w3,
                        futures := futures g @ [Completed r]\<rparr>)))"
proof -
  note run = leader_calls [OF assms(1-5)]
  show ?thesis
  proof (cases res)
    case (Inl e)
    then show ?thesis using run leader_fails [OF assms(2)] by (simp add: handle_chat_completion_def Let_def)
  next
    case (Inr qr)
    obtain q r where qr: "qr = (q, r)" by fastforce
    with assms(6) Inr have "usage_nonneg (resp_usage r)" "priced_nonneg q (req_model req)" by auto
    from leader_succeeds [OF assms(2) this] show ?thesis
      using run by (simp add: handle_chat_completion_def Inr qr Let_def)
  qed
qed

theorem leader_outcome_witness:
  "\<exists>g'. handle_chat_completion (demo_env (Inr sample_response)) sample_request 1 ''t'' 5 (demo_gw mem_start) =
     Some (Inr sample_response, g') \<and> futures g' = [Completed sample_response] \<and> inflight g' = Map.empty"
proof -
  let ?env = "demo_env (Inr sample_response)" and ?q = "sample_provider ''a'' 0 []"
  have get: "cache_get mem_exec json_dec ''k'' (empty_prom, mem_start) =
      (None, record_cache_event ''miss'' empty_prom, mem_start)"
    by (simp add: cache_get_def empty_world_get)
  note one = sample_registry_serves [of "req_model sample_request"]
  obtain w1 where lock: "acquire_lock mem_exec ''t'' (lock_ttl_seconds [?q]) ''k'' mem_start = (Some ''t'', w1)"
    by (simp add: acquire_lock_def mem_exec_def mem_start_def live_def lock_ttl_seconds_def LOCK_TTL_GRACE_SECONDS_def
        sample_provider_def)
  have run: "execute_with_fallback (\<lambda>p req w. (Inr sample_response, w)) [?q] sample_request w1 =
      (Inr (?q, sample_response), w1)"
    by (simp add: execute_with_fallback_def)
  from leader_outcome [of ?env sample_request 1 "demo_gw mem_start", simplified, unfolded one, OF _ _ _ lock run, of _ 5]
  show ?thesis
    using get sample_usage_nonneg sample_priced by (simp add: demo_gw_def accounted_def Let_def)
qed

end
