(* ===== verification/Single_Flight.thy ===== *)
theory Single_Flight
  imports Gateway
begin

text \<open>
  Request coalescing, \<open>services/gateway.py\<close>: the in-flight table under concurrent requests of one process.  The step
  relation \<open>gw_step\<close> interleaves the segments of \<open>Gateway.advance\<close>; \<open>gw_inv\<close> is the invariant of the table
  and its futures, kept by every step; then progress (an owned future is completed) and its limits (cancellation, and the
  window between looking and registering).
\<close>

subsection \<open>Concurrent requests\<close>

text \<open>
  \<open>threads\<close> are the requests being handled; \<open>future_keys\<close> and \<open>provider_calls\<close> are history: the cache key each
  future was created for, and the responses providers gave, with the cache key of the request.  A step
  lets one request run a segment (with its own lock token and latency), lets a new one arrive, or changes the outside world.
\<close>

record 'w conf =
  shared :: "'w gw"
  threads :: "(chat_request \<times> int \<times> pc) list"
  future_keys :: "string list"
  provider_calls :: "(string \<times> chat_response) list"

definition new_keys :: "string \<Rightarrow> 'w gw \<Rightarrow> 'w gw \<Rightarrow> string list" where
  "new_keys key g g' = (if length (futures g) < length (futures g') then [key] else [])"

fun new_calls :: "string \<Rightarrow> pc \<Rightarrow> pc \<Rightarrow> (string \<times> chat_response) list" where
  "new_calls key (Calling t f) (Called t' f' (Inr pr)) = [(key, snd pr)]"
| "new_calls key p p' = []"

inductive gw_step :: "'w env \<Rightarrow> 'w conf \<Rightarrow> 'w conf \<Rightarrow> bool" for env :: "'w env" where
  New: "gw_step env c (c\<lparr>threads := threads c @ [(req, vk, Arrived)]\<rparr>)"
| Run: "gw_step env c
      (c\<lparr>shared := g', threads := (threads c)[i := (req, vk, p')],
         future_keys := future_keys c @ new_keys (request_key env req vk) (shared c) g',
         provider_calls := provider_calls c @ new_calls (request_key env req vk) p p'\<rparr>)"
    if "i < length (threads c)" and "threads c ! i = (req, vk, p)"
      and "advance env req vk token latency_ms p (shared c) = (p', g')"
| Outside: "gw_step env c (c\<lparr>shared := (shared c)\<lparr>gw_world := w\<rparr>\<rparr>)"

text \<open>
  Cancellation of a task: at the provider call the \<open>finally\<close> block runs but no \<open>except\<close> clause does
  (\<open>CancelledError\<close> is no \<open>Exception\<close>); at \<open>await inflight\<close> the awaited future is cancelled.
\<close>

inductive gw_cancel :: "'w env \<Rightarrow> 'w conf \<Rightarrow> 'w conf \<Rightarrow> bool" for env :: "'w env" where
  CancelLeader: "gw_cancel env c
      (c\<lparr>shared := unregister (request_key env req vk) f (shared c),
         threads := (threads c)[i := (req, vk, case t of Some tok \<Rightarrow> Unwinding tok | None \<Rightarrow> Gone)]\<rparr>)"
    if "i < length (threads c)" and "threads c ! i = (req, vk, Calling t f)"
| CancelFollower: "gw_cancel env c
      (c\<lparr>shared := (shared c)\<lparr>futures := (futures (shared c))[f := Cancelled]\<rparr>,
         threads := (threads c)[i := (req, vk, Gone)]\<rparr>)"
    if "i < length (threads c)" and "threads c ! i = (req, vk, Following f)" and "futures (shared c) ! f = Pending"

definition start_conf :: "'w gw \<Rightarrow> 'w conf" where
  "start_conf g =
     \<lparr>shared = g\<lparr>inflight := Map.empty, futures := []\<rparr>, threads = [], future_keys = [], provider_calls = []\<rparr>"

subsection \<open>What a segment does to the in-flight table\<close>

fun owns :: "pc \<Rightarrow> nat option" where
  "owns (Calling t f) = Some f"
| "owns (Called t f r) = Some f"
| "owns (Releasing t f (Inr pr)) = Some f"
| "owns (Released f (Inr pr)) = Some f"
| "owns p = None"

fun registers :: "pc \<Rightarrow> nat option" where
  "registers (Calling t f) = Some f"
| "registers (Called t f r) = Some f"
| "registers p = None"

text \<open>The provider's response a leader carries.\<close>

fun held :: "pc \<Rightarrow> chat_response option" where
  "held (Called t f (Inr pr)) = Some (snd pr)"
| "held (Releasing t f (Inr pr)) = Some (snd pr)"
| "held (Released f (Inr pr)) = Some (snd pr)"
| "held p = None"

lemma held_iff:
  "held (Called t f x) = Some r \<longleftrightarrow> (\<exists>q. x = Inr (q, r))"
  "held (Releasing tok f x) = Some r \<longleftrightarrow> (\<exists>q. x = Inr (q, r))"
  "held (Released f x) = Some r \<longleftrightarrow> (\<exists>q. x = Inr (q, r))"
  by (cases x; auto)+

lemma account_shared [simp]:
  "futures (snd (account r g)) = futures g" "inflight (snd (account r g)) = inflight g"
  by (simp_all add: account_def split: prod.splits option.splits)

lemma finish_with_shared [simp]:
  "futures (snd (finish_with r x g)) = futures g" "inflight (snd (finish_with r x g)) = inflight g"
  using account_shared [of r g] by (cases "account r g"; simp add: finish_with_def split: option.split)+

lemma finish_with_pc: "\<exists>v. fst (finish_with r x g) = Finished v"
  by (simp add: finish_with_def split: prod.splits option.splits)

lemma finish_with_eq:
  "finish_with r x g = (p, g') \<Longrightarrow>
     futures g' = futures g \<and> inflight g' = inflight g \<and> (\<exists>v. p = Finished v)"
  using finish_with_shared [of r x g] finish_with_pc [of r x g] by simp

lemma unregister_shared [simp]:
  "futures (unregister key f g) = futures g"
  "inflight (unregister key f (g\<lparr>futures := fs\<rparr>)) = inflight (unregister key f g)"
  by (simp_all add: unregister_def)

text \<open>
  The kinds of segments: one that leaves futures and table alone, the creation of a future, the end of a
  provider call (the own entry is removed; a failure completes the future), and the completion with the response.
\<close>

lemma advance_effect:
  assumes "advance env req vk token l p g = (p', g')"
    and "\<forall>f. owns p = Some f \<longrightarrow> futures g ! f = Pending"
  shows "(futures g' = futures g \<and> inflight g' = inflight g \<and> owns p' = owns p \<and> registers p' = registers p) \<or>
    (owns p = None \<and> (\<exists>t. p' = Calling t (length (futures g))) \<and>
       futures g' = futures g @ [Pending] \<and> inflight g' = (inflight g)(request_key env req vk \<mapsto> length (futures g))) \<or>
    (\<exists>t f r. p = Called t f r \<and> registers p' = None \<and> (\<forall>f. p' \<noteq> Following f) \<and>
       inflight g' = inflight (unregister (request_key env req vk) f g) \<and>
       ((\<exists>e. r = Inl e \<and> owns p' = None \<and> held p' = None \<and> futures g' = (futures g)[f := Raised e]) \<or>
        ((\<exists>pr. r = Inr pr) \<and> owns p' = Some f \<and> futures g' = futures g))) \<or>
    (\<exists>f q r. p = Released f (Inr (q, r)) \<and> p' = Saving q r \<and>
       inflight g' = inflight g \<and> futures g' = (futures g)[f := Completed r])"
proof (cases p)
  case (Called t f r)
  then show ?thesis
    using assms by (cases r; cases t) (auto simp: complete_def)
next
  case (Released f r)
  then show ?thesis
    using assms by (cases r) (auto simp: complete_def)
next
  case (Looked r)
  then show ?thesis
    using assms by (cases r) (auto simp: serve_cached_def split: option.splits if_splits dest!: finish_with_eq)
next
  case (Following f)
  then show ?thesis
    using assms by (cases "futures g ! f") (auto simp: serve_cached_def dest!: finish_with_eq)
next
  case (Locked t)
  then show ?thesis using assms by (cases t) (auto simp: lead_def)
next
  case (Waited r)
  then show ?thesis using assms by (cases r) (auto simp: lead_def serve_cached_def dest!: finish_with_eq)
next
  case (Releasing t f r)
  then show ?thesis using assms by (cases r) auto
next
  case (Saved q r)
  then show ?thesis using assms by (auto dest!: finish_with_eq)
next
  case Waiting
  then show ?thesis using assms by (auto split: option.splits prod.splits)
qed (use assms in \<open>auto split: prod.splits\<close>)

lemma advance_following:
  "advance env req vk token l p g = (Following f, g') \<Longrightarrow>
     (p = Following f \<or> p = Looked None \<and> inflight g (request_key env req vk) = Some f)"
  by (cases "(env, req, vk, token, l, p, g)" rule: advance.cases)
    (auto simp: serve_cached_def lead_def split: prod.splits option.splits sum.splits fut.splits if_splits
      dest: finish_with_eq)

subsection \<open>The invariant of the in-flight table\<close>

definition pc_at :: "'w conf \<Rightarrow> nat \<Rightarrow> pc" where
  "pc_at c i = snd (snd (threads c ! i))"

definition key_at :: "'w env \<Rightarrow> 'w conf \<Rightarrow> nat \<Rightarrow> string" where
  "key_at env c i = request_key env (fst (threads c ! i)) (fst (snd (threads c ! i)))"

abbreviation fut_of :: "'w conf \<Rightarrow> nat \<Rightarrow> fut" where
  "fut_of c f \<equiv> futures (shared c) ! f"

text \<open>
  The invariant, over \<open>n\<close> requests with their points \<open>ps\<close> and cache keys \<open>ks\<close>, the futures \<open>fs\<close> with the keys
  \<open>fk\<close> they were created for, the table, and the history of provider responses: an owned future is
  pending and of its owner's key; no future has two owners; a pending future has one; a follower follows a future of
  its own key; a table entry is a future of that key whose leader will remove it; nothing is cancelled, and
  every response in a future or in a leader's hands came from a provider call for that key.
\<close>

definition owners_ok where
  "owners_ok n ps ks fs fk \<longleftrightarrow>
     length fk = length fs \<and>
     (\<forall>i<n. \<forall>f. owns (ps i) = Some f \<longrightarrow> f < length fs \<and> fs ! f = Pending \<and> fk ! f = ks i)"

definition owners_unique where
  "owners_unique n ps \<longleftrightarrow>
     (\<forall>i<n. \<forall>j<n. \<forall>f. owns (ps i) = Some f \<longrightarrow> owns (ps j) = Some f \<longrightarrow> i = (j :: nat))"

definition pending_owned where
  "pending_owned n ps fs \<longleftrightarrow>
     (\<forall>f < length fs. fs ! f = Pending \<longrightarrow> (\<exists>i<n. owns (ps (i :: nat)) = Some f))"

definition followers_ok where
  "followers_ok n ps ks fs fk \<longleftrightarrow>
     (\<forall>i<n. \<forall>f. ps i = Following f \<longrightarrow> f < length (fs :: fut list) \<and> fk ! f = ks (i :: nat))"

definition table_ok where
  "table_ok n ps fs fk tbl \<longleftrightarrow>
     (\<forall>k f. tbl k = Some f \<longrightarrow>
        f < length (fs :: fut list) \<and> fk ! f = k \<and> (\<exists>i<n. registers (ps (i :: nat)) = Some f))"

definition results_ok where
  "results_ok n ps ks fs fk calls \<longleftrightarrow>
     (\<forall>f < length fs. fs ! f \<noteq> Cancelled \<and> (\<forall>r. fs ! f = Completed r \<longrightarrow> (fk ! f, r) \<in> set calls)) \<and>
     (\<forall>i<n. \<forall>r. held (ps i) = Some r \<longrightarrow> (ks (i :: nat), r) \<in> set calls)"

definition parts_inv where
  "parts_inv n ps ks fs fk tbl calls \<longleftrightarrow>
     owners_ok n ps ks fs fk \<and> owners_unique n ps \<and> pending_owned n ps fs \<and>
     followers_ok n ps ks fs fk \<and> table_ok n ps fs fk tbl \<and> results_ok n ps ks fs fk calls"

lemmas parts_inv_defs =
  owners_ok_def owners_unique_def pending_owned_def followers_ok_def table_ok_def results_ok_def

definition gw_inv :: "'w env \<Rightarrow> 'w conf \<Rightarrow> bool" where
  "gw_inv env c \<longleftrightarrow>
     parts_inv (length (threads c)) (pc_at c) (key_at env c) (futures (shared c)) (future_keys c)
       (inflight (shared c)) (provider_calls c)"

lemma gw_inv_start [simp]: "gw_inv env (start_conf g)"
  by (simp add: gw_inv_def parts_inv_def parts_inv_defs start_conf_def)

lemma parts_cong:
  assumes "parts_inv n ps ks fs fk tbl calls" and "\<And>i. i < n \<Longrightarrow> ps' i = ps i" and "\<And>i. i < n \<Longrightarrow> ks' i = ks i"
  shows "parts_inv n ps' ks' fs fk tbl calls"
  using assms unfolding parts_inv_def parts_inv_defs by (simp cong: conj_cong)

lemma parts_new:
  assumes "parts_inv n ps ks fs fk tbl calls" and "ps n = Arrived"
  shows "parts_inv (Suc n) ps ks fs fk tbl calls"
  using assms(1) unfolding parts_inv_def
proof (elim conjE, intro conjI)
  assume "pending_owned n ps fs"
  then show "pending_owned (Suc n) ps fs" unfolding pending_owned_def using less_SucI by blast
next
  assume "table_ok n ps fs fk tbl"
  then show "table_ok (Suc n) ps fs fk tbl" unfolding table_ok_def using less_SucI by blast
qed (auto simp: owners_ok_def owners_unique_def followers_ok_def results_ok_def less_Suc_eq assms(2))

text \<open>A segment that leaves the futures and the table alone.\<close>

lemma parts_quiet:
  assumes inv: "parts_inv n ps ks fs fk tbl calls" and i: "i < n"
    and o: "owns p' = owns (ps i)"
    and f: "\<And>f. p' = Following f \<Longrightarrow> ps i = Following f \<or> tbl (ks i) = Some f"
    and h: "\<And>r. held p' = Some r \<Longrightarrow> held (ps i) = Some r \<or> (ks i, r) \<in> set calls'"
    and sub: "set calls \<subseteq> set calls'" and tbl: "table_ok n (ps(i := p')) fs fk tbl'"
  shows "parts_inv n (ps(i := p')) ks fs fk tbl' calls'"
  using inv unfolding parts_inv_def
proof (elim conjE, intro conjI)
  assume "pending_owned n ps fs"
  then show "pending_owned n (ps(i := p')) fs" unfolding pending_owned_def by (metis fun_upd_apply o)
next
  assume "followers_ok n ps ks fs fk" and "table_ok n ps fs fk tbl"
  then show "followers_ok n (ps(i := p')) ks fs fk" unfolding followers_ok_def table_ok_def by (metis fun_upd_apply f)
next
  assume "results_ok n ps ks fs fk calls"
  then show "results_ok n (ps(i := p')) ks fs fk calls'"
    unfolding results_ok_def using sub h by (metis fun_upd_apply subsetD)
next
  assume "owners_unique n ps"
  then show "owners_unique n (ps(i := p'))" unfolding owners_unique_def using i by (metis fun_upd_apply o)
qed (simp_all add: owners_ok_def o tbl)

lemma table_quiet:
  assumes "table_ok n ps fs fk tbl" and "registers p' = registers (ps i)" and "length fs' = length fs"
  shows "table_ok n (ps(i := p')) fs' fk tbl"
  using assms unfolding table_ok_def by (metis fun_upd_apply)

lemma table_unregister:
  assumes inv: "parts_inv n ps ks fs fk tbl calls" and i: "i < n" and f: "registers (ps i) = Some f"
    and "length fs' = length fs"
  shows "table_ok n (ps(i := p')) fs' fk (if tbl (ks i) = Some f then tbl(ks i := None) else tbl)"
proof -
  have own: "owns (ps i) = Some f" using f by (cases "ps i") auto
  then have k: "fk ! f = ks i" using inv i by (simp add: parts_inv_def owners_ok_def)
  have old: "f' < length fs \<and> fk ! f' = k' \<and> (\<exists>j<n. registers (ps j) = Some f')" if "tbl k' = Some f'" for k' f'
    using inv that unfolding parts_inv_def table_ok_def by blast
  show ?thesis
    unfolding table_ok_def
  proof (intro allI impI)
    fix k' f' assume t: "(if tbl (ks i) = Some f then tbl(ks i := None) else tbl) k' = Some f'"
    then have t': "tbl k' = Some f'" by (auto split: if_splits)
    from old [OF t'] obtain j where j: "f' < length fs" "fk ! f' = k'" "j < n" "registers (ps j) = Some f'" by blast
    have "j \<noteq> i" using j f k t t' by (auto split: if_splits)
    with j assms(4) show "f' < length fs' \<and> fk ! f' = k' \<and> (\<exists>j<n. registers ((ps(i := p')) j) = Some f')"
      by auto
  qed
qed

lemma parts_lead:
  assumes inv: "parts_inv n ps ks fs fk tbl calls" and i: "i < n"
    and "owns (ps i) = None" and o: "owns p' = Some (length fs)" and g: "registers p' = Some (length fs)"
    and p': "\<And>f. p' \<noteq> Following f" "held p' = None" and "registers (ps i) = None"
  shows "parts_inv n (ps(i := p')) ks (fs @ [Pending]) (fk @ [ks i]) (tbl(ks i \<mapsto> length fs)) calls"
  using inv unfolding parts_inv_def
proof (elim conjE, intro conjI)
  assume ok: "owners_ok n ps ks fs fk"
  then have len: "length fk = length fs" by (simp add: owners_ok_def)
  from ok show "owners_ok n (ps(i := p')) ks (fs @ [Pending]) (fk @ [ks i])"
    by (auto simp: owners_ok_def o nth_append)
  assume "owners_unique n ps"
  moreover from ok have "owns (ps j) \<noteq> Some (length fs)" if "j < n" for j
    using that unfolding owners_ok_def by blast
  ultimately show "owners_unique n (ps(i := p'))"
    unfolding owners_unique_def using o by (metis fun_upd_apply option.inject)
  assume "pending_owned n ps fs"
  then show "pending_owned n (ps(i := p')) (fs @ [Pending])"
    unfolding pending_owned_def
  proof (intro allI impI)
    fix x assume po: "\<forall>f<length fs. fs ! f = Pending \<longrightarrow> (\<exists>i<n. owns (ps i) = Some f)"
      and x: "x < length (fs @ [Pending])" "(fs @ [Pending]) ! x = Pending"
    show "\<exists>j<n. owns ((ps(i := p')) j) = Some x"
    proof (cases "x = length fs")
      case True
      then show ?thesis using i o by auto
    next
      case False
      with x have "x < length fs" "fs ! x = Pending" by (auto simp: nth_append)
      with po obtain j where "j < n" "owns (ps j) = Some x" by blast
      moreover from this assms(3) have "j \<noteq> i" by auto
      ultimately show ?thesis by auto
    qed
  qed
  assume "followers_ok n ps ks fs fk"
  then show "followers_ok n (ps(i := p')) ks (fs @ [Pending]) (fk @ [ks i])"
    by (auto simp: followers_ok_def nth_append len p')
  assume "table_ok n ps fs fk tbl"
  then have "\<And>k f. tbl k = Some f \<Longrightarrow> f < length fs \<and> fk ! f = k \<and> (\<exists>j<n. j \<noteq> i \<and> registers (ps j) = Some f)"
    unfolding table_ok_def using assms(8) by (metis option.distinct(1))
  then have old: "f < length fs" "fk ! f = k" "\<exists>j<n. j \<noteq> i \<and> registers (ps j) = Some f"
    if "tbl k = Some f" for k f
    using that by blast+
  show "table_ok n (ps(i := p')) (fs @ [Pending]) (fk @ [ks i]) (tbl(ks i \<mapsto> length fs))"
    unfolding table_ok_def
  proof (intro allI impI)
    fix k f assume t: "(tbl(ks i \<mapsto> length fs)) k = Some f"
    show "f < length (fs @ [Pending]) \<and> (fk @ [ks i]) ! f = k \<and> (\<exists>j<n. registers ((ps(i := p')) j) = Some f)"
    proof (cases "k = ks i")
      case True
      then show ?thesis using t i g len by (auto simp: nth_append)
    next
      case False
      with t have "tbl k = Some f" by simp
      from old [OF this] show ?thesis using len by (auto simp: nth_append)
    qed
  qed
  assume "results_ok n ps ks fs fk calls"
  then show "results_ok n (ps(i := p')) ks (fs @ [Pending]) (fk @ [ks i]) calls"
    by (auto simp: results_ok_def nth_append len p' less_Suc_eq)
qed

text \<open>The end of ownership: the owner's future gets a value.\<close>

lemma parts_complete:
  assumes inv: "parts_inv n ps ks fs fk tbl calls" and i: "i < n" and f: "owns (ps i) = Some f"
    and p': "owns p' = None" "\<And>f. p' \<noteq> Following f" "held p' = None"
    and v: "v \<noteq> Pending" "v \<noteq> Cancelled" "\<And>r. v = Completed r \<Longrightarrow> (ks i, r) \<in> set calls"
    and tbl: "table_ok n (ps(i := p')) (fs[f := v]) fk tbl'"
  shows "parts_inv n (ps(i := p')) ks (fs[f := v]) fk tbl' calls"
  using inv unfolding parts_inv_def
proof (elim conjE, intro conjI)
  assume ok: "owners_ok n ps ks fs fk" and un: "owners_unique n ps"
  from ok un show "owners_ok n (ps(i := p')) ks (fs[f := v]) fk"
    using i f p' by (auto simp: owners_ok_def owners_unique_def nth_list_update)
  from un show "owners_unique n (ps(i := p'))" by (auto simp: owners_unique_def p')
  assume "pending_owned n ps fs"
  then show "pending_owned n (ps(i := p')) (fs[f := v])"
    unfolding pending_owned_def
  proof (intro allI impI)
    fix x assume po: "\<forall>f<length fs. fs ! f = Pending \<longrightarrow> (\<exists>i<n. owns (ps i) = Some f)"
      and x: "x < length (fs[f := v])" "fs[f := v] ! x = Pending"
    with v(1) have "x \<noteq> f" by auto
    with x po obtain j where "j < n" "owns (ps j) = Some x" by auto
    moreover from this f \<open>x \<noteq> f\<close> have "j \<noteq> i" by auto
    ultimately show "\<exists>j<n. owns ((ps(i := p')) j) = Some x" by auto
  qed
  assume "followers_ok n ps ks fs fk"
  then show "followers_ok n (ps(i := p')) ks (fs[f := v]) fk"
    by (auto simp: followers_ok_def p')
  assume "results_ok n ps ks fs fk calls"
  moreover have "fk ! f = ks i" "f < length fs" using ok i f by (simp_all add: owners_ok_def)
  ultimately show "results_ok n (ps(i := p')) ks (fs[f := v]) fk calls"
    using v by (auto simp: results_ok_def nth_list_update p')
qed (rule tbl)

text \<open>The concurrent steps preserve it.\<close>

lemma pc_at_update:
  "i < length (threads c) \<Longrightarrow> pc_at (c\<lparr>threads := (threads c)[i := (req, vk, p')]\<rparr>) j = ((pc_at c)(i := p')) j"
  by (simp add: pc_at_def nth_list_update)

lemma key_at_update:
  "i < length (threads c) \<Longrightarrow> threads c ! i = (req, vk, p) \<Longrightarrow>
     key_at env (c\<lparr>threads := (threads c)[i := (req, vk, p')]\<rparr>) j = key_at env c j"
  by (auto simp: key_at_def nth_list_update)

lemma advance_held:
  assumes "advance env req vk token l p g = (p', g')" and "held p' = Some r"
  shows "held p = Some r \<or> (key, r) \<in> set (new_calls key p p')"
  using assms
  by (cases "(env, req, vk, token, l, p, g)" rule: advance.cases)
    (auto simp: serve_cached_def lead_def held_iff split: prod.splits option.splits sum.splits fut.splits if_splits
      dest: finish_with_eq)

lemma owns_registers: "owns p = None \<Longrightarrow> registers p = None"
  by (cases p) auto

lemma new_calls_owner: "owns p = None \<Longrightarrow> new_calls key p p' = []"
  by (cases p) auto

lemma unregister_table:
  "inflight (unregister key f g) = (if inflight g key = Some f then (inflight g)(key := None) else inflight g)"
  by (simp add: unregister_def)

lemma gw_inv_run:
  assumes inv: "gw_inv env c" and i: "i < length (threads c)" and th: "threads c ! i = (req, vk, p)"
    and adv: "advance env req vk token l p (shared c) = (p', g')"
  shows "gw_inv env (c\<lparr>shared := g', threads := (threads c)[i := (req, vk, p')],
           future_keys := future_keys c @ new_keys (request_key env req vk) (shared c) g',
           provider_calls := provider_calls c @ new_calls (request_key env req vk) p p'\<rparr>)"
    (is "gw_inv env ?c")
proof -
  let ?n = "length (threads c)" and ?ps = "pc_at c" and ?ks = "key_at env c" and ?g = "shared c"
  let ?calls = "provider_calls c @ new_calls (request_key env req vk) p p'"
  have ps: "?ps i = p" and ks: "?ks i = request_key env req vk" using th by (simp_all add: pc_at_def key_at_def)
  have parts: "parts_inv ?n ?ps ?ks (futures ?g) (future_keys c) (inflight ?g) (provider_calls c)"
    using inv by (simp add: gw_inv_def)
  then have own: "\<forall>f. owns p = Some f \<longrightarrow> futures ?g ! f = Pending"
    using i ps by (auto simp: parts_inv_def owners_ok_def)
  have tbl: "table_ok ?n ?ps (futures ?g) (future_keys c) (inflight ?g)" using parts by (simp add: parts_inv_def)
  have goal: "gw_inv env ?c" if "parts_inv ?n (?ps(i := p')) ?ks (futures g')
      (future_keys c @ new_keys (request_key env req vk) ?g g') (inflight g') ?calls"
  proof -
    have "pc_at ?c = ?ps(i := p')" "key_at env ?c = ?ks"
      using pc_at_update [OF i] key_at_update [OF i th] by (auto simp: pc_at_def key_at_def)
    with that show ?thesis by (simp add: gw_inv_def)
  qed
  have follow: "\<And>f. p' = Following f \<Longrightarrow> ?ps i = Following f \<or> inflight ?g (?ks i) = Some f"
    using advance_following adv ps ks by metis
  have h: "\<And>r. held p' = Some r \<Longrightarrow> held (?ps i) = Some r \<or> (?ks i, r) \<in> set ?calls"
    using advance_held [OF adv] ps ks by force
  show ?thesis
  proof (rule goal)
    show "parts_inv ?n (?ps(i := p')) ?ks (futures g')
        (future_keys c @ new_keys (request_key env req vk) ?g g') (inflight g') ?calls"
      using advance_effect [OF adv own]
    proof (elim disjE conjE exE)
      assume e: "futures g' = futures ?g" "inflight g' = inflight ?g" "owns p' = owns p" "registers p' = registers p"
      show ?thesis
        using parts_quiet [OF parts i _ follow h _ table_quiet [OF tbl]] e ps by (simp add: new_keys_def)
    next
      fix t assume e: "owns p = None" "p' = Calling t (length (futures ?g))" "futures g' = futures ?g @ [Pending]"
        "inflight g' = (inflight ?g)(request_key env req vk \<mapsto> length (futures ?g))"
      show ?thesis
        using parts_lead [OF parts i, of p'] e ps ks
        by (simp add: new_keys_def new_calls_owner owns_registers)
    next
      fix t f r e assume e: "p = Called t f r" "registers p' = None" "\<forall>f. p' \<noteq> Following f"
        "inflight g' = inflight (unregister (request_key env req vk) f ?g)"
        "r = Inl e" "owns p' = None" "held p' = None" "futures g' = (futures ?g)[f := Raised e]"
      have "table_ok ?n (?ps(i := p')) ((futures ?g)[f := Raised e]) (future_keys c) (inflight g')"
        using table_unregister [OF parts i, of f "(futures ?g)[f := Raised e]" p', unfolded ks] e ps
        by (simp add: unregister_table)
      then have "parts_inv ?n (?ps(i := p')) ?ks ((futures ?g)[f := Raised e]) (future_keys c) (inflight g')
          (provider_calls c)"
        by (rule parts_complete [OF parts i, rotated 7]) (use e ps in simp_all)
      then show ?thesis using e by (simp add: new_keys_def)
    next
      fix t f r pr assume e: "p = Called t f r" "registers p' = None" "\<forall>f. p' \<noteq> Following f"
        "inflight g' = inflight (unregister (request_key env req vk) f ?g)"
        "r = Inr pr" "owns p' = Some f" "futures g' = futures ?g"
      have t: "table_ok ?n (?ps(i := p')) (futures ?g) (future_keys c) (inflight g')"
        using table_unregister [OF parts i, of f "futures ?g" p', unfolded ks] e ps
        by (simp add: unregister_table)
      have "parts_inv ?n (?ps(i := p')) ?ks (futures ?g) (future_keys c) (inflight g') ?calls"
        by (rule parts_quiet [OF parts i _ follow h _ t]) (use e ps in auto)
      then show ?thesis using e by (simp add: new_keys_def)
    next
      fix f q r assume e: "p = Released f (Inr (q, r))" "p' = Saving q r" "inflight g' = inflight ?g"
        "futures g' = (futures ?g)[f := Completed r]"
      have r: "(?ks i, r) \<in> set (provider_calls c)"
        using parts i ps e(1) by (auto simp: parts_inv_def results_ok_def)
      have "table_ok ?n (?ps(i := p')) ((futures ?g)[f := Completed r]) (future_keys c) (inflight ?g)"
        by (rule table_quiet [OF tbl]) (use e ps in simp_all)
      then have "parts_inv ?n (?ps(i := p')) ?ks ((futures ?g)[f := Completed r]) (future_keys c) (inflight ?g)
          (provider_calls c)"
        by (rule parts_complete [OF parts i, rotated 7]) (use e ps r in auto)
      then show ?thesis using e by (simp add: new_keys_def)
    qed
  qed
qed

lemma gw_inv_step: "gw_step env c c' \<Longrightarrow> gw_inv env c \<Longrightarrow> gw_inv env c'"
proof (induction rule: gw_step.induct)
  case (New c req vk)
  let ?c = "c\<lparr>threads := threads c @ [(req, vk, Arrived)]\<rparr>"
  have "parts_inv (length (threads c)) (pc_at ?c) (key_at env ?c) (futures (shared c)) (future_keys c)
      (inflight (shared c)) (provider_calls c)"
    using New unfolding gw_inv_def
    by (rule parts_cong) (simp_all add: pc_at_def key_at_def nth_append)
  then have "parts_inv (Suc (length (threads c))) (pc_at ?c) (key_at env ?c) (futures (shared c)) (future_keys c)
      (inflight (shared c)) (provider_calls c)"
    by (rule parts_new) (simp add: pc_at_def)
  then show ?case by (simp add: gw_inv_def)
next
  case (Run i c req vk p token l p' g')
  then show ?case by (intro gw_inv_run)
next
  case (Outside c w)
  have "pc_at (c\<lparr>shared := (shared c)\<lparr>gw_world := w\<rparr>\<rparr>) = pc_at c"
    "key_at env (c\<lparr>shared := (shared c)\<lparr>gw_world := w\<rparr>\<rparr>) = key_at env c"
    by (auto simp: pc_at_def key_at_def)
  with Outside show ?case by (simp add: gw_inv_def)
qed

lemma gw_inv_reachable: "(gw_step env)\<^sup>*\<^sup>* c c' \<Longrightarrow> gw_inv env c \<Longrightarrow> gw_inv env c'"
  by (induction rule: rtranclp_induct) (simp_all add: gw_inv_step)

subsection \<open>Progress, and futures nobody completes\<close>

lemma advance_owner:
  assumes "owns p = Some f" and "futures g ! f = Pending" and "f < length (futures g)"
    and "advance env req vk token l p g = (p', g')"
  shows "futures g' ! f \<noteq> Pending \<or> (owns p' = Some f \<and> rank p' < rank p \<and> futures g' = futures g)"
proof (cases p)
  case (Called t f' r)
  then show ?thesis using assms by (cases r; cases t) (auto simp: complete_def)
next
  case (Releasing t f' r)
  then show ?thesis using assms by (cases r) auto
next
  case (Released f' r)
  then show ?thesis using assms by (cases r) (auto simp: complete_def)
qed (use assms in \<open>auto split: prod.splits\<close>)

lemma advance_other_future:
  assumes "advance env req vk token l p g = (p', g')" and "owns p \<noteq> Some f" and "f < length (futures g)"
  shows "futures g' ! f = futures g ! f \<and> f < length (futures g') \<and> owns p' \<noteq> Some f"
proof (cases p)
  case (Called t f' r)
  then show ?thesis
    using assms by (cases r; cases t; cases "futures g ! f' = Pending") (auto simp: complete_def)
next
  case (Released f' r)
  then show ?thesis using assms by (cases r; cases "futures g ! f' = Pending") (auto simp: complete_def)
next
  case (Looked r)
  then show ?thesis
    using assms by (cases r) (auto simp: serve_cached_def split: option.splits if_splits dest!: finish_with_eq)
next
  case (Following f')
  then show ?thesis
    using assms by (cases "futures g ! f'") (auto simp: serve_cached_def dest!: finish_with_eq)
next
  case (Locked t)
  then show ?thesis using assms by (cases t) (auto simp: lead_def nth_append)
next
  case (Waited r)
  then show ?thesis using assms by (cases r) (auto simp: lead_def serve_cached_def nth_append dest!: finish_with_eq)
next
  case (Releasing t f' r)
  then show ?thesis using assms by (cases r) auto
next
  case (Saved q r)
  then show ?thesis using assms by (auto dest!: finish_with_eq)
next
  case Waiting
  then show ?thesis using assms by (auto split: option.splits prod.splits)
qed (use assms in \<open>auto split: prod.splits\<close>)

lemma gw_step_threads: "(gw_step env)\<^sup>*\<^sup>* c c' \<Longrightarrow> length (threads c) \<le> length (threads c')"
proof (induction rule: rtranclp_induct)
  case (step c1 c2)
  from step(2) have "length (threads c1) \<le> length (threads c2)" by cases simp_all
  with step(3) show ?case by simp
qed simp

text \<open>One request runs one segment.\<close>

definition run_at :: "'w env \<Rightarrow> string \<Rightarrow> int \<Rightarrow> nat \<Rightarrow> 'w conf \<Rightarrow> 'w conf" where
  "run_at env token l i c =
     (case threads c ! i of
        (req, vk, p) \<Rightarrow>
          (case advance env req vk token l p (shared c) of
             (p', g') \<Rightarrow>
               c\<lparr>shared := g', threads := (threads c)[i := (req, vk, p')],
                 future_keys := future_keys c @ new_keys (request_key env req vk) (shared c) g',
                 provider_calls := provider_calls c @ new_calls (request_key env req vk) p p'\<rparr>))"

lemma run_at_step: "i < length (threads c) \<Longrightarrow> gw_step env c (run_at env token l i c)"
  by (auto simp: run_at_def split: prod.splits intro: gw_step.Run)

lemma run_at_threads:
  "length (threads (run_at env token l i c)) = length (threads c)"
  "j \<noteq> i \<Longrightarrow> threads (run_at env token l i c) ! j = threads c ! j"
  by (simp_all add: run_at_def split: prod.splits)

lemma schedule_reachable:
  "list_all (\<lambda>i. i < length (threads c)) is \<Longrightarrow> (gw_step env)\<^sup>*\<^sup>* c (fold (run_at env token l) is c)"
proof (induction "is" arbitrary: c)
  case (Cons i "is")
  then have "gw_step env c (run_at env token l i c)" by (simp add: run_at_step)
  moreover have "(gw_step env)\<^sup>*\<^sup>* (run_at env token l i c) (fold (run_at env token l) is (run_at env token l i c))"
    using Cons by (simp add: run_at_threads)
  ultimately show ?case by (simp add: converse_rtranclp_into_rtranclp)
qed simp

text \<open>The owner of a pending future, run alone, completes it.\<close>

lemma owner_completes:
  assumes "j < length (threads c)" and "owns (pc_at c j) = Some f" and "fut_of c f = Pending"
    and "f < length (futures (shared c))"
  shows "\<exists>c'. (gw_step env)\<^sup>*\<^sup>* c c' \<and> fut_of c' f \<noteq> Pending \<and> (\<forall>i. i \<noteq> j \<longrightarrow> threads c' ! i = threads c ! i)"
  using assms
proof (induction "rank (pc_at c j)" arbitrary: c rule: less_induct)
  case less
  let ?c = "run_at env [] 0 j c"
  obtain req vk p where th: "threads c ! j = (req, vk, p)" by (cases "threads c ! j")
  then have p: "pc_at c j = p" by (simp add: pc_at_def)
  obtain p' g' where adv: "advance env req vk [] 0 p (shared c) = (p', g')" by fastforce
  have c: "shared ?c = g'" "pc_at ?c j = p'"
    using less.prems(1) by (simp_all add: run_at_def th adv pc_at_def)
  have step: "gw_step env c ?c" by (rule run_at_step) (rule less.prems)
  from advance_owner [OF _ _ _ adv] less.prems p
  have "futures g' ! f \<noteq> Pending \<or> (owns p' = Some f \<and> rank p' < rank p \<and> futures g' = futures (shared c))" by simp
  then show ?case
  proof
    assume "futures g' ! f \<noteq> Pending"
    then show ?thesis using step c run_at_threads(2) by (intro exI [of _ ?c]) auto
  next
    assume o: "owns p' = Some f \<and> rank p' < rank p \<and> futures g' = futures (shared c)"
    have "\<exists>c'. (gw_step env)\<^sup>*\<^sup>* ?c c' \<and> fut_of c' f \<noteq> Pending \<and> (\<forall>i. i \<noteq> j \<longrightarrow> threads c' ! i = threads ?c ! i)"
      by (rule less.hyps) (use o c p less.prems in \<open>simp_all add: run_at_threads\<close>)
    then show ?thesis using step run_at_threads(2) by (metis converse_rtranclp_into_rtranclp)
  qed
qed

text \<open>A future without owner stays pending, and who follows it stays where it is.\<close>

definition stranded :: "nat \<Rightarrow> chat_request \<Rightarrow> int \<Rightarrow> nat \<Rightarrow> 'w conf \<Rightarrow> bool" where
  "stranded i req vk f c \<longleftrightarrow>
     i < length (threads c) \<and> threads c ! i = (req, vk, Following f) \<and>
     f < length (futures (shared c)) \<and> fut_of c f = Pending \<and>
     (\<forall>j < length (threads c). owns (pc_at c j) \<noteq> Some f)"

lemma stranded_step: "gw_step env c c' \<Longrightarrow> stranded i req vk f c \<Longrightarrow> stranded i req vk f c'"
proof (induction rule: gw_step.induct)
  case (New c req' vk')
  then show ?case by (auto simp: stranded_def pc_at_def nth_append less_Suc_eq)
next
  case (Run j c req' vk' p token l p' g')
  then have "owns p \<noteq> Some f" by (auto simp: stranded_def pc_at_def)
  with Run advance_other_future [OF Run(3), of f] have
    "futures g' ! f = Pending \<and> f < length (futures g') \<and> owns p' \<noteq> Some f"
    by (simp add: stranded_def)
  moreover have "p' = Following f" if "j = i"
    using Run that by (auto simp: stranded_def)
  ultimately show ?case using Run by (auto simp: stranded_def pc_at_def nth_list_update)
next
  case (Outside c w)
  then show ?case by (simp add: stranded_def pc_at_def)
qed

lemma stranded_reachable: "(gw_step env)\<^sup>*\<^sup>* c c' \<Longrightarrow> stranded i req vk f c \<Longrightarrow> stranded i req vk f c'"
  by (induction rule: rtranclp_induct) (simp_all add: stranded_step)

subsection \<open>Concrete runs, for examples\<close>

definition two_requests :: "unit conf" where
  "two_requests = (start_conf (demo_gw ()))\<lparr>threads := [(sample_request, 1, Arrived), (sample_request, 1, Arrived)]\<rparr>"

lemma two_requests_reachable: "(gw_step down_env)\<^sup>*\<^sup>* (start_conf (demo_gw ())) two_requests"
proof -
  let ?c = "(start_conf (demo_gw ()))\<lparr>threads := threads (start_conf (demo_gw ())) @ [(sample_request, 1, Arrived)]\<rparr>"
  have "gw_step down_env (start_conf (demo_gw ())) ?c" by (rule gw_step.New)
  moreover have "gw_step down_env ?c (?c\<lparr>threads := threads ?c @ [(sample_request, 1, Arrived)]\<rparr>)" by (rule gw_step.New)
  moreover have "?c\<lparr>threads := threads ?c @ [(sample_request, 1, Arrived)]\<rparr> = two_requests"
    by (simp add: two_requests_def start_conf_def)
  ultimately show ?thesis by (metis converse_rtranclp_into_rtranclp rtranclp.rtrancl_refl)
qed

text \<open>One leads and the other follows; and both look before either leads.\<close>

definition led_and_followed :: "unit conf" where
  "led_and_followed = fold (run_at down_env [] 0) [0, 0, 0, 0, 0, 0, 1, 1] two_requests"

definition led_twice :: "unit conf" where
  "led_twice = fold (run_at down_env [] 0) [0, 0, 1, 1, 0, 0, 0, 0, 1, 1, 1, 1] two_requests"

lemma led_and_followed_reachable: "(gw_step down_env)\<^sup>*\<^sup>* (start_conf (demo_gw ())) led_and_followed"
  unfolding led_and_followed_def
  by (rule rtranclp_trans [OF two_requests_reachable schedule_reachable]) (simp add: two_requests_def)

lemma led_twice_reachable: "(gw_step down_env)\<^sup>*\<^sup>* (start_conf (demo_gw ())) led_twice"
  unfolding led_twice_def
  by (rule rtranclp_trans [OF two_requests_reachable schedule_reachable]) (simp add: two_requests_def)

lemma led_and_followed_eval:
  "threads led_and_followed = [(sample_request, 1, Calling None 0), (sample_request, 1, Following 0)]"
  "futures (shared led_and_followed) = [Pending]"
  by (simp_all add: led_and_followed_def two_requests_def start_conf_def demo_gw_def run_at_def down_advance lead_def
      new_keys_def del: advance.simps)

lemma led_twice_eval:
  "threads led_twice = [(sample_request, 1, Calling None 0), (sample_request, 1, Calling None 1)]"
  "futures (shared led_twice) = [Pending, Pending]"
  by (simp_all add: led_twice_def two_requests_def start_conf_def demo_gw_def run_at_def down_advance lead_def
      new_keys_def del: advance.simps)

text \<open>The leader of \<open>led_and_followed\<close> gets its response.\<close>

definition answered :: "unit conf" where
  "answered = fold (run_at down_env [] 0) [0, 0, 0] led_and_followed"

lemma answered_reachable: "(gw_step down_env)\<^sup>*\<^sup>* (start_conf (demo_gw ())) answered"
  unfolding answered_def
  by (rule rtranclp_trans [OF led_and_followed_reachable schedule_reachable]) (simp add: led_and_followed_eval)

lemma answered_eval:
  "threads answered =
     [(sample_request, 1, Saving (sample_provider ''a'' 0 []) sample_response), (sample_request, 1, Following 0)]"
  "futures (shared answered) = [Completed sample_response]"
  by (simp_all add: answered_def led_and_followed_eval run_at_def down_advance del: advance.simps)

subsection \<open>Properties\<close>

lemma following_advance:
  "advance env req vk token l (Following f) g = (p, g') \<Longrightarrow>
     (\<forall>r. p = Finished (Inr r) \<longrightarrow> futures g ! f = Completed r) \<and>
     (futures g ! f \<noteq> Pending \<longrightarrow> futures g ! f \<noteq> Cancelled \<longrightarrow> (\<exists>v. p = Finished v))"
  by (auto simp: serve_cached_def finish_with_def split: fut.splits prod.splits option.splits dest!: finish_with_eq)

text \<open>
  C13. A follower gets the answer to its own request: without cancellations, the response with which a request that awaits another one's future
  is finished was given by a provider, in a call made for a request with the same cache key (by
  \<open>cache_key_isolates_tenants\<close>, the same body of the same virtual key).
\<close>

theorem follower_gets_leaders_answer:
  assumes "(gw_step env)\<^sup>*\<^sup>* (start_conf g) c" and "i < length (threads c)"
    and "threads c ! i = (req, vk, Following f)"
    and "advance env req vk token l (Following f) (shared c) = (Finished (Inr r), g')"
  shows "(request_key env req vk, r) \<in> set (provider_calls c)"
proof -
  have inv: "gw_inv env c" using assms(1) gw_inv_reachable gw_inv_start by blast
  have "fut_of c f = Completed r" using following_advance [OF assms(4)] by simp
  moreover have "f < length (futures (shared c))" "future_keys c ! f = request_key env req vk"
    using inv assms(2,3) by (auto simp: gw_inv_def parts_inv_def followers_ok_def pc_at_def key_at_def)
  ultimately show ?thesis
    using inv by (auto simp: gw_inv_def parts_inv_def results_ok_def)
qed

theorem follower_gets_leaders_answer_witness:
  "(''k'', sample_response) \<in> set (provider_calls answered)"
proof -
  have "advance down_env sample_request 1 [] 0 (Following 0) (shared answered) =
      serve_cached 1 0 sample_response (shared answered)"
    by (simp add: answered_eval)
  also have "\<dots> = (Finished (Inr sample_response), accounted (build_usage_record 1 CACHE_PROVIDER_NAME free_pricing
      (resp_model sample_response) (resp_usage sample_response) 0) (shared answered))"
    unfolding serve_cached_def by (rule finish_with_ok) (simp_all add: sample_usage_nonneg free_pricing_def dec_zero_def)
  finally show ?thesis
    using follower_gets_leaders_answer [OF answered_reachable, of 1 sample_request 1 0] by (simp add: answered_eval)
qed

text \<open>
  C27. A follower can always be served: without cancellations, from every reachable configuration in which a request awaits
  another one's future there is a continuation that finishes it (its leader completes the future, and
  the follower reads it).
\<close>

theorem follower_never_stranded:
  assumes "(gw_step env)\<^sup>*\<^sup>* (start_conf g) c" and "i < length (threads c)" and "pc_at c i = Following f"
  shows "\<exists>c' v. (gw_step env)\<^sup>*\<^sup>* c c' \<and> pc_at c' i = Finished v"
proof -
  have inv: "gw_inv env c" using assms(1) gw_inv_reachable gw_inv_start by blast
  have f: "f < length (futures (shared c))"
    using inv assms(2,3) by (auto simp: gw_inv_def parts_inv_def followers_ok_def)
  obtain c1 where c1: "(gw_step env)\<^sup>*\<^sup>* c c1" "fut_of c1 f \<noteq> Pending" "threads c1 ! i = threads c ! i"
    "i < length (threads c1)"
  proof (cases "fut_of c f = Pending")
    case True
    then obtain j where j: "j < length (threads c)" "owns (pc_at c j) = Some f"
      using inv f by (auto simp: gw_inv_def parts_inv_def pending_owned_def)
    then have "i \<noteq> j" using assms(3) by auto
    from owner_completes [OF j True f] obtain c' where c': "(gw_step env)\<^sup>*\<^sup>* c c'" "fut_of c' f \<noteq> Pending"
      "\<forall>i. i \<noteq> j \<longrightarrow> threads c' ! i = threads c ! i" by blast
    show ?thesis
      by (rule that [OF c'(1,2)]) (use c'(3) \<open>i \<noteq> j\<close> gw_step_threads [OF c'(1)] assms(2) in simp_all)
  qed (use assms(2) in blast)
  have inv1: "gw_inv env c1" using gw_inv_reachable c1(1) inv by blast
  obtain req vk where th: "threads c1 ! i = (req, vk, Following f)"
    using assms(3) c1(3) by (cases "threads c ! i") (auto simp: pc_at_def)
  have "f < length (futures (shared c1))" "fut_of c1 f \<noteq> Cancelled"
    using inv1 th c1(4) by (auto simp: gw_inv_def parts_inv_def followers_ok_def results_ok_def pc_at_def)
  moreover obtain p' g' where adv: "advance env req vk [] 0 (Following f) (shared c1) = (p', g')" by fastforce
  ultimately obtain v where v: "p' = Finished v" using following_advance [OF adv] c1(2) by blast
  have "gw_step env c1 (run_at env [] 0 i c1)" by (rule run_at_step [OF c1(4)])
  moreover have "pc_at (run_at env [] 0 i c1) i = Finished v"
    using c1(4) by (simp add: run_at_def th adv pc_at_def v del: advance.simps)
  ultimately show ?thesis using c1(1) by (meson rtranclp.rtrancl_into_rtrancl)
qed

theorem follower_never_stranded_witness:
  "\<exists>c' v. (gw_step down_env)\<^sup>*\<^sup>* led_and_followed c' \<and> pc_at c' 1 = Finished v"
  using follower_never_stranded [OF led_and_followed_reachable, of 1 0] by (simp add: led_and_followed_eval pc_at_def)

text \<open>
  C39. Cancelling the leader loses its followers: when the task that calls the provider is cancelled (its client hung up), the
  \<open>finally\<close> block removes the in-flight entry but no clause completes the future, and every request that awaits it
  waits there for ever.
\<close>

theorem cancelled_leader_strands_followers:
  assumes "(gw_step env)\<^sup>*\<^sup>* (start_conf g) c" and "i < length (threads c)" and "pc_at c i = Calling t f"
    and "gw_cancel env c c1" and "pc_at c1 i \<noteq> Calling t f"
    and "k < length (threads c)" and "threads c ! k = (req, vk, Following f)"
    and "(gw_step env)\<^sup>*\<^sup>* c1 c2"
  shows "threads c2 ! k = (req, vk, Following f)"
proof -
  have inv: "gw_inv env c" using assms(1) gw_inv_reachable gw_inv_start by blast
  have own: "f < length (futures (shared c))" "fut_of c f = Pending"
    using inv assms(2,3) by (auto simp: gw_inv_def parts_inv_def owners_ok_def)
  have uniq: "j = i" if "j < length (threads c)" "owns (pc_at c j) = Some f" for j
  proof -
    have "owners_unique (length (threads c)) (pc_at c)" using inv by (simp add: gw_inv_def parts_inv_def)
    moreover have "owns (pc_at c i) = Some f" by (simp add: assms(3))
    ultimately show ?thesis using that assms(2) unfolding owners_unique_def by blast
  qed
  have "stranded k req vk f c1"
    using assms(4)
  proof (cases rule: gw_cancel.cases)
    case (CancelLeader j req' vk' t' f')
    then have ji: "j = i" using assms(3,5) by (auto simp: pc_at_def nth_list_update split: if_splits)
    then have f': "t' = t" "f' = f" using CancelLeader assms(3) by (simp_all add: pc_at_def)
    have k: "k \<noteq> i" using assms(3,7) by (auto simp: pc_at_def)
    have "owns (pc_at c1 m) \<noteq> Some f" if "m < length (threads c)" for m
    proof (cases "m = i")
      case True
      then show ?thesis using CancelLeader(1) ji that by (simp add: pc_at_def split: option.split)
    next
      case False
      then have "pc_at c1 m = pc_at c m" using CancelLeader(1) ji by (simp add: pc_at_def)
      then show ?thesis using uniq [OF that] False by auto
    qed
    then show ?thesis
      using CancelLeader(1) ji k own assms(6,7) by (simp add: stranded_def)
  next
    case (CancelFollower j req' vk' f')
    then have False using assms(3,5) by (auto simp: pc_at_def nth_list_update split: if_splits)
    then show ?thesis ..
  qed
  from stranded_reachable [OF assms(8) this] show ?thesis by (simp add: stranded_def)
qed

definition hung_up :: "unit conf" where
  "hung_up = led_and_followed\<lparr>shared := unregister ''k'' 0 (shared led_and_followed),
     threads := [(sample_request, 1, Gone), (sample_request, 1, Following 0)]\<rparr>"

theorem cancelled_leader_strands_followers_witness:
  "threads (run_at down_env [] 0 1 (run_at down_env [] 0 0 hung_up)) ! 1 = (sample_request, 1, Following 0)"
proof -
  have cancel: "gw_cancel down_env led_and_followed hung_up"
    using gw_cancel.CancelLeader [of 0 led_and_followed sample_request 1 None 0 down_env]
    by (simp add: led_and_followed_eval hung_up_def)
  have steps: "(gw_step down_env)\<^sup>*\<^sup>* hung_up (run_at down_env [] 0 1 (run_at down_env [] 0 0 hung_up))"
    using schedule_reachable [of hung_up "[0, 1]" down_env "[]" 0] by (simp add: hung_up_def)
  show ?thesis
    by (rule cancelled_leader_strands_followers [OF led_and_followed_reachable _ _ cancel _ _ _ steps, of 0 None 0])
      (simp_all add: led_and_followed_eval pc_at_def hung_up_def)
qed

text \<open>
  Requests that look at the same time are not coalesced: the in-flight table is read before the lock is asked for and
  written after, and when Redis is down both requests find it empty; then both call a provider for the same key.
\<close>

theorem single_flight_duplicates:
  "\<exists>c. (gw_step down_env)\<^sup>*\<^sup>* (start_conf (demo_gw ())) c \<and>
     (\<exists>i < length (threads c). \<exists>j < length (threads c). \<exists>f h. i \<noteq> j \<and> key_at down_env c i = key_at down_env c j \<and>
        pc_at c i = Calling None f \<and> pc_at c j = Calling None h)"
proof (rule exI, rule conjI)
  show "(gw_step down_env)\<^sup>*\<^sup>* (start_conf (demo_gw ())) led_twice" by (rule led_twice_reachable)
  show "\<exists>i < length (threads led_twice). \<exists>j < length (threads led_twice). \<exists>f h. i \<noteq> j \<and>
      key_at down_env led_twice i = key_at down_env led_twice j \<and>
      pc_at led_twice i = Calling None f \<and> pc_at led_twice j = Calling None h"
    by (rule exI [of _ 0], rule conjI, simp add: led_twice_eval, rule exI [of _ 1])
      (simp add: led_twice_eval pc_at_def key_at_def)
qed

end
