(* ===== verification/Streaming.thy ===== *)
theory Streaming
  imports Gateway
begin

text \<open>
  The streaming service \<open>services/streaming.py\<close>: building and reading OpenAI-format SSE events, the usage
  captured from a relayed stream, the accumulator that rebuilds the response of a stream for the cache, the
  replay of a cached response, and the accounting of both.  (\<open>stream_chat_completion\<close> itself is in
  \<open>Fallback\<close>.)  An event's JSON is untrusted: reading it uses the dynamically typed operations of \<open>Py_Dynamic\<close>,
  and what they raise escapes.  \<open>now\<close> is \<open>int(time.time())\<close>.
\<close>

subsection \<open>Writing events\<close>

text \<open>
  \<open>_sse_chunk\<close>.  The identifier, model and content are whatever JSON values the caller holds; a left-out keyword is
  \<open>None\<close>.
\<close>

definition chunk_delta :: "string option \<Rightarrow> json option \<Rightarrow> jobj" where
  "chunk_delta role content = opt_field ''role'' JStr role @ opt_field ''content'' id content"

definition finish_json :: "finish_reason option \<Rightarrow> json" where
  "finish_json f = (case f of None \<Rightarrow> JNull | Some r \<Rightarrow> JStr (finish_text r))"

definition chunk_payload ::
    "int \<Rightarrow> json \<Rightarrow> json \<Rightarrow> string option \<Rightarrow> json option \<Rightarrow> finish_reason option \<Rightarrow> jobj option \<Rightarrow> json" where
  "chunk_payload now chunk_id model role content finish_reason us =
     JObj ([(''id'', chunk_id), (''object'', JStr ''chat.completion.chunk''), (''created'', JInt now),
            (''model'', model),
            (''choices'', JArr [JObj [(''index'', JInt 0), (''delta'', JObj (chunk_delta role content)),
                                      (''finish_reason'', finish_json finish_reason)]])]
           @ opt_field ''usage'' JObj us)"

definition sse_event :: "json \<Rightarrow> string" where
  "sse_event payload = ''data: '' @ dumps payload @ [CHR 0x0A, CHR 0x0A]"

definition sse_done :: string where
  "sse_done = ''data: [DONE]'' @ [CHR 0x0A, CHR 0x0A]"

definition sse_chunk ::
    "int \<Rightarrow> json \<Rightarrow> json \<Rightarrow> string option \<Rightarrow> json option \<Rightarrow> finish_reason option \<Rightarrow> jobj option \<Rightarrow> string" where
  "sse_chunk now chunk_id model role content finish_reason us =
     sse_event (chunk_payload now chunk_id model role content finish_reason us)"

definition usage_fields :: "usage \<Rightarrow> jobj" where
  "usage_fields u =
     [(''prompt_tokens'', JInt (prompt_tokens u)), (''completion_tokens'', JInt (completion_tokens u)),
      (''total_tokens'', JInt (total_tokens u))]"

text \<open>\<open>synthesize_cached_stream\<close>; \<open>response.choices[0]\<close> of a response without choices raises.\<close>

definition synthesize_cached_stream :: "int \<Rightarrow> chat_response \<Rightarrow> exn + string list" where
  "synthesize_cached_stream now r =
     (case choices r of
        [] \<Rightarrow> Inl IndexErr
      | c # cs \<Rightarrow>
          Inr [sse_chunk now (JStr (resp_id r)) (JStr (resp_model r)) (Some ''assistant'') None None None,
               sse_chunk now (JStr (resp_id r)) (JStr (resp_model r)) None
                 (Some (JStr (msg_content (choice_message c)))) None None,
               sse_chunk now (JStr (resp_id r)) (JStr (resp_model r)) None None (Some (choice_finish c))
                 (Some (usage_fields (resp_usage r))),
               sse_done])"

subsection \<open>Reading events\<close>

text \<open>\<open>_to_int\<close>: a text that passes the test may still be no integer literal (two signs, superscript digits).\<close>

fun to_int :: "json \<Rightarrow> int \<Rightarrow> exn + int" where
  "to_int (JInt i) d = Inr i"
| "to_int (JBool b) d = Inr (if b then 1 else 0)"
| "to_int (JStr s) d =
     (if py_isdigit (dropWhile (\<lambda>c. c = CHR ''-'') s) then
        (case py_int s of
           Some i \<Rightarrow> Inr i
         | None \<Rightarrow> Inl (ValueErr ''invalid literal for int() with base 10''))
      else Inr d)"
| "to_int v d = Inr d"

text \<open>The decoded payload of a line, \<open>None\<close> when the line is no event, the end marker or no JSON.\<close>

definition sse_payload :: "string \<Rightarrow> json option" where
  "sse_payload line =
     (let text = py_strip line
      in if \<not> py_startswith text ''data: '' then None
         else let payload = py_strip (drop 6 text)
              in if payload = [] \<or> payload = ''[DONE]'' then None else loads payload)"

definition capture_usage :: "string \<Rightarrow> usage \<Rightarrow> exn + usage" where
  "capture_usage line current =
     (case sse_payload line of
        None \<Rightarrow> Inr current
      | Some chunk \<Rightarrow>
          bind_res (py_get chunk ''usage'' JNull) (\<lambda>us.
            if \<not> is_dict us then Inr current
            else
              bind_res (py_get us ''prompt_tokens'' JNull) (\<lambda>pv.
              bind_res (to_int pv (prompt_tokens current)) (\<lambda>prompt.
              bind_res (py_get us ''completion_tokens'' JNull) (\<lambda>cv.
              bind_res (to_int cv (completion_tokens current)) (\<lambda>completion.
              bind_res (py_get us ''total_tokens'' JNull) (\<lambda>tv.
              bind_res (to_int tv (prompt + completion)) (\<lambda>tot.
                Inr (mk_usage prompt completion tot)))))))))"

subsection \<open>\<open>ChunkAccumulator\<close>\<close>

record accumulator =
  acc_id :: json
  acc_model :: json
  acc_content :: string
  acc_finish :: json
  acc_usage :: usage
  saw_any_chunk :: bool

definition new_accumulator :: accumulator where
  "new_accumulator =
     \<lparr>acc_id = JStr [], acc_model = JStr [], acc_content = [], acc_finish = JStr ''stop'',
      acc_usage = zero_usage, saw_any_chunk = False\<rparr>"

text \<open>The part of \<open>feed\<close> about the first choice: what is appended, and the new finish reason.\<close>

definition feed_choice :: "json \<Rightarrow> accumulator \<Rightarrow> exn + accumulator" where
  "feed_choice cs a =
     (if \<not> py_truthy cs then Inr a
      else
        bind_res (py_first cs) (\<lambda>first.
        bind_res (py_get first ''delta'' JNull) (\<lambda>dv.
        bind_res (py_get (py_or dv (JObj [])) ''content'' JNull) (\<lambda>content.
        bind_res
          (if \<not> py_truthy content then Inr (acc_content a)
           else case content of JStr s \<Rightarrow> Inr (acc_content a @ s) | _ \<Rightarrow> Inl TypeErr) (\<lambda>text.
        bind_res (py_get first ''finish_reason'' JNull) (\<lambda>f.
          Inr (a\<lparr>acc_content := text, acc_finish := py_or f (acc_finish a)\<rparr>)))))))"

definition feed_usage :: "json \<Rightarrow> accumulator \<Rightarrow> exn + accumulator" where
  "feed_usage us a =
     (if \<not> is_dict us then Inr a
      else
        bind_res (py_get us ''prompt_tokens'' JNull) (\<lambda>pv.
        bind_res (to_int pv (prompt_tokens (acc_usage a))) (\<lambda>prompt.
        bind_res (py_get us ''completion_tokens'' JNull) (\<lambda>cv.
        bind_res (to_int cv (completion_tokens (acc_usage a))) (\<lambda>completion.
        bind_res (py_get us ''total_tokens'' JNull) (\<lambda>tv.
        bind_res (to_int tv (total_tokens (acc_usage a))) (\<lambda>tot.
          Inr (a\<lparr>acc_usage := mk_usage prompt completion tot\<rparr>))))))))"

definition feed :: "string \<Rightarrow> accumulator \<Rightarrow> exn + accumulator" where
  "feed line a =
     (case sse_payload line of
        None \<Rightarrow> Inr a
      | Some chunk \<Rightarrow>
          bind_res (py_get chunk ''id'' JNull) (\<lambda>i.
          bind_res (py_get chunk ''model'' JNull) (\<lambda>m.
          bind_res (py_get chunk ''choices'' JNull) (\<lambda>cs.
          bind_res
            (feed_choice (py_or cs (JArr []))
               (a\<lparr>saw_any_chunk := True, acc_id := py_or i (acc_id a), acc_model := py_or m (acc_model a)\<rparr>)) (\<lambda>a'.
          bind_res (py_get chunk ''usage'' JNull) (\<lambda>us. feed_usage us a'))))))"

text \<open>\<open>to_response\<close>: Pydantic validates what was accumulated; a \<open>ValidationError\<close> is a \<open>ValueError\<close>.\<close>

definition validation_error :: exn where
  "validation_error = ValueErr ''validation error for ChatResponse''"

definition to_response :: "int \<Rightarrow> accumulator \<Rightarrow> exn + chat_response" where
  "to_response now a =
     (case (as_str (py_or (acc_id a) (JStr ''chatcmpl-cached'')), as_str (acc_model a), as_finish (acc_finish a)) of
        (Some i, Some m, Some f) \<Rightarrow>
          (if length (acc_content a) \<le> max_content then
             Inr \<lparr>resp_id = i, resp_created = now, resp_model = m,
                  choices = [\<lparr>choice_index = 0,
                              choice_message = \<lparr>msg_role = Assistant, msg_content = acc_content a\<rparr>,
                              choice_finish = f\<rparr>],
                  resp_usage = acc_usage a\<rparr>
           else Inl validation_error)
      | _ \<Rightarrow> Inl validation_error)"

subsection \<open>Accounting\<close>

text \<open>A stream is priced by the requested model, which is also the model recorded.\<close>

definition schedule_stream_usage ::
    "int \<Rightarrow> provider \<Rightarrow> string \<Rightarrow> usage \<Rightarrow> int \<Rightarrow> 'w gw \<Rightarrow> exn option \<times> 'w gw" where
  "schedule_stream_usage virtual_key_id p model us latency_ms g =
     account (build_usage_record virtual_key_id (provider_name p) (pricing_for (config p) model) model us latency_ms) g"

definition schedule_cached_stream_usage :: "int \<Rightarrow> chat_response \<Rightarrow> int \<Rightarrow> 'w gw \<Rightarrow> exn option \<times> 'w gw" where
  "schedule_cached_stream_usage virtual_key_id r latency_ms g =
     account (build_usage_record virtual_key_id CACHE_PROVIDER_NAME free_pricing (resp_model r) (resp_usage r)
       latency_ms) g"

subsection \<open>Lemmas\<close>

text \<open>What is written is read back.\<close>

lemma dumps_ends:
  assumes "json_wf (JObj ms)"
  shows "dumps (JObj ms) \<noteq> []" "hd (dumps (JObj ms)) = CHR ''{''" "last (dumps (JObj ms)) = CHR ''}''"
  by (simp_all add: dumps_def)

lemma sse_payload_event:
  assumes "json_wf (JObj ms)"
  shows "sse_payload (sse_event (JObj ms)) = Some (JObj ms)"
proof -
  let ?d = "dumps (JObj ms)"
  have strip_d: "py_strip ?d = ?d"
    using dumps_ends [OF assms] by (intro py_strip_id) (simp_all add: py_space_def)
  have "py_strip (''data: '' @ ?d @ [CHR 0x0A, CHR 0x0A]) = rstrip_while py_space ((''data: '' @ ?d) @ [CHR 0x0A, CHR 0x0A])"
    by (simp add: py_strip_def py_space_def)
  also have "\<dots> = rstrip_while py_space (''data: '' @ ?d)"
    by (rule rstrip_while_append_all) (simp add: py_space_def)
  also have "\<dots> = ''data: '' @ ?d"
    using dumps_ends [OF assms] by (intro rstrip_while_last) (simp_all add: py_space_def)
  finally have strip: "py_strip (sse_event (JObj ms)) = ''data: '' @ ?d" by (simp add: sse_event_def)
  have "?d \<noteq> ''[DONE]''" using dumps_ends(2) [OF assms] by force
  then show ?thesis
    using dumps_ends(1) [OF assms] sse_codec.read_print [OF assms] strip_d
    by (simp add: sse_payload_def strip py_startswith_def)
qed

lemma sse_payload_done [simp]: "sse_payload sse_done = None"
proof -
  have "py_strip sse_done = ''data: [DONE]''"
    by (simp add: sse_done_def py_strip_def rstrip_while_def py_space_def)
  then show ?thesis by (simp add: sse_payload_def py_startswith_def py_strip_def rstrip_while_def py_space_def)
qed

lemma chunk_payload_wf:
  "json_wf i \<Longrightarrow> json_wf m \<Longrightarrow> (\<forall>v. c = Some v \<longrightarrow> json_wf v) \<Longrightarrow> (\<forall>ms. us = Some ms \<longrightarrow> json_wf (JObj ms)) \<Longrightarrow>
     json_wf (chunk_payload now i m role c f us)"
  by (auto simp: chunk_payload_def chunk_delta_def opt_field_def finish_json_def split: option.splits)

lemma sse_payload_chunk:
  assumes "json_wf (chunk_payload now i m role c f us)"
  shows "sse_payload (sse_chunk now i m role c f us) = Some (chunk_payload now i m role c f us)"
  using assms sse_payload_event unfolding sse_chunk_def chunk_payload_def by blast

subsection \<open>The accumulator refines its specification\<close>

text \<open>
  Abstractly, a stream is a list of chunks, each with optional content, finish reason and usage, and the reply
  is what they say: the contents in order, the last non-empty name, finish reason and usage.
\<close>

record out_chunk =
  oc_id :: string
  oc_model :: string
  oc_role :: "string option"
  oc_content :: "string option"
  oc_finish :: "finish_reason option"
  oc_usage :: "usage option"

record reply =
  re_id :: string
  re_model :: string
  re_text :: string
  re_finish :: finish_reason
  re_usage :: usage
  re_seen :: bool

definition no_reply :: reply where
  "no_reply =
     \<lparr>re_id = [], re_model = [], re_text = [], re_finish = Stop, re_usage = zero_usage, re_seen = False\<rparr>"

definition or_else :: "'a option \<Rightarrow> 'a \<Rightarrow> 'a" where
  "or_else x d = (case x of None \<Rightarrow> d | Some v \<Rightarrow> v)"

definition reply_step :: "out_chunk \<Rightarrow> reply \<Rightarrow> reply" where
  "reply_step c s =
     \<lparr>re_id = (if oc_id c = [] then re_id s else oc_id c), re_model = (if oc_model c = [] then re_model s else oc_model c),
      re_text = re_text s @ or_else (oc_content c) [], re_finish = or_else (oc_finish c) (re_finish s),
      re_usage = or_else (oc_usage c) (re_usage s), re_seen = True\<rparr>"

text \<open>The event of a chunk, and the accumulator of a reply.\<close>

definition chunk_event :: "int \<Rightarrow> out_chunk \<Rightarrow> string" where
  "chunk_event now c =
     sse_chunk now (JStr (oc_id c)) (JStr (oc_model c)) (oc_role c) (map_option JStr (oc_content c)) (oc_finish c)
       (map_option usage_fields (oc_usage c))"

definition chunk_ok :: "out_chunk \<Rightarrow> bool" where
  "chunk_ok c \<longleftrightarrow> (case oc_usage c of None \<Rightarrow> True | Some u \<Rightarrow> usage_nonneg u)"

definition rep :: "reply \<Rightarrow> accumulator" where
  "rep s =
     \<lparr>acc_id = JStr (re_id s), acc_model = JStr (re_model s), acc_content = re_text s,
      acc_finish = JStr (finish_text (re_finish s)), acc_usage = re_usage s, saw_any_chunk = re_seen s\<rparr>"

lemma rep_no_reply: "rep no_reply = new_accumulator"
  by (simp add: rep_def no_reply_def new_accumulator_def)

lemma payload_chunk_event:
  "sse_payload (chunk_event now c) =
     Some (chunk_payload now (JStr (oc_id c)) (JStr (oc_model c)) (oc_role c) (map_option JStr (oc_content c))
       (oc_finish c) (map_option usage_fields (oc_usage c)))"
  unfolding chunk_event_def
  by (rule sse_payload_chunk, rule chunk_payload_wf) (auto simp: usage_fields_def)

lemma usage_fields_read:
  "usage_nonneg u \<Longrightarrow> mk_usage (prompt_tokens u) (completion_tokens u) (total_tokens u) = u"
  by (simp add: mk_usage_def usage_nonneg_def)

lemma finish_text_nonempty [simp]: "finish_text f \<noteq> []"
  by (cases f) simp_all

lemma feed_usage_null [simp]: "feed_usage JNull a = Inr a"
  by (simp add: feed_usage_def)

lemma feed_usage_fields:
  "usage_nonneg u \<Longrightarrow> feed_usage (JObj (usage_fields u)) a = Inr (a\<lparr>acc_usage := u\<rparr>)"
  by (simp add: feed_usage_def usage_fields_def usage_fields_read)

lemma feed_chunk_event:
  assumes "chunk_ok c"
  shows "feed (chunk_event now c) (rep s) = Inr (rep (reply_step c s))"
proof -
  have us: "feed_usage (case oc_usage c of None \<Rightarrow> JNull | Some u \<Rightarrow> JObj (usage_fields u)) a =
      Inr (a\<lparr>acc_usage := or_else (oc_usage c) (acc_usage a)\<rparr>)" for a
    using assms
    by (cases "oc_usage c") (simp_all add: chunk_ok_def feed_usage_fields or_else_def)
  show ?thesis
    unfolding feed_def payload_chunk_event
    using us
    by (cases "oc_role c"; cases "oc_content c"; cases "oc_finish c"; cases "oc_usage c")
      (simp_all add: chunk_payload_def chunk_delta_def opt_field_def finish_json_def feed_choice_def py_or_def
        or_else_def rep_def reply_step_def)
qed

lemma capture_chunk_event:
  assumes "chunk_ok c"
  shows "capture_usage (chunk_event now c) u = Inr (or_else (oc_usage c) u)"
  using assms unfolding capture_usage_def payload_chunk_event
  by (cases "oc_usage c")
    (simp_all add: chunk_payload_def chunk_ok_def opt_field_def or_else_def usage_fields_def usage_fields_read)

definition spec_reply :: "out_chunk list \<Rightarrow> reply" where
  "spec_reply cs = fold reply_step cs no_reply"

lemma feed_chunks:
  "list_all chunk_ok cs \<Longrightarrow> fold_res feed (map (chunk_event now) cs) (rep s) = Inr (rep (fold reply_step cs s))"
  by (induction cs arbitrary: s) (simp_all add: feed_chunk_event)

lemma capture_chunks:
  "list_all chunk_ok cs \<Longrightarrow>
     fold_res capture_usage (map (chunk_event now) cs) (re_usage s) = Inr (re_usage (fold reply_step cs s))"
proof (induction cs arbitrary: s)
  case (Cons c cs)
  then have "fold_res capture_usage (map (chunk_event now) cs) (re_usage (reply_step c s)) =
      Inr (re_usage (fold reply_step cs (reply_step c s)))" by simp
  moreover have "re_usage (reply_step c s) = or_else (oc_usage c) (re_usage s)" by (simp add: reply_step_def)
  ultimately show ?case using Cons.prems by (simp add: capture_chunk_event)
qed simp

lemma feed_done [simp]: "feed sse_done a = Inr a" "capture_usage sse_done u = Inr u"
  by (simp_all add: feed_def capture_usage_def)

lemma fold_reply_text:
  "re_text (fold reply_step cs s) = re_text s @ concat (map (\<lambda>c. or_else (oc_content c) []) cs)"
  by (induction cs arbitrary: s) (simp_all add: reply_step_def)

lemma fold_reply_usage_nonneg:
  "list_all chunk_ok cs \<Longrightarrow> usage_nonneg (re_usage s) \<Longrightarrow> usage_nonneg (re_usage (fold reply_step cs s))"
  by (induction cs arbitrary: s) (auto simp: reply_step_def chunk_ok_def or_else_def split: option.splits)

lemma no_reply_usage [simp]: "re_usage no_reply = zero_usage"
  by (simp add: no_reply_def)

lemma feed_spec:
  "list_all chunk_ok cs \<Longrightarrow> fold_res feed (map (chunk_event now) cs) new_accumulator = Inr (rep (spec_reply cs))"
  using feed_chunks [of cs now no_reply] by (simp add: spec_reply_def rep_no_reply)

lemma capture_spec:
  "list_all chunk_ok cs \<Longrightarrow> fold_res capture_usage (map (chunk_event now) cs) zero_usage = Inr (re_usage (spec_reply cs))"
  using capture_chunks [of cs now no_reply] by (simp add: spec_reply_def)

text \<open>The response of a reply, when its text is not too long for a message.\<close>

definition reply_response :: "int \<Rightarrow> reply \<Rightarrow> chat_response" where
  "reply_response now s =
     \<lparr>resp_id = (if re_id s = [] then ''chatcmpl-cached'' else re_id s), resp_created = now, resp_model = re_model s,
      choices = [\<lparr>choice_index = 0, choice_message = \<lparr>msg_role = Assistant, msg_content = re_text s\<rparr>,
                  choice_finish = re_finish s\<rparr>],
      resp_usage = re_usage s\<rparr>"

lemma as_finish_text [simp]: "as_finish (JStr (finish_text f)) = Some f"
  by (cases f) (simp_all add: as_finish_def)

lemma to_response_rep:
  "to_response now (rep s) =
     (if length (re_text s) \<le> max_content then Inr (reply_response now s) else Inl validation_error)"
  by (simp add: to_response_def rep_def py_or_def reply_response_def)

text \<open>A replayed response as chunks.\<close>

definition replay_chunks :: "chat_response \<Rightarrow> choice \<Rightarrow> out_chunk list" where
  "replay_chunks r c =
     (let chunk = (\<lambda>role content f u.
            \<lparr>oc_id = resp_id r, oc_model = resp_model r, oc_role = role, oc_content = content, oc_finish = f, oc_usage = u\<rparr>)
      in [chunk (Some ''assistant'') None None None, chunk None (Some (msg_content (choice_message c))) None None,
          chunk None None (Some (choice_finish c)) (Some (resp_usage r))])"

lemma synthesize_chunks:
  "choices r = c # cs \<Longrightarrow>
     synthesize_cached_stream now r = Inr (map (chunk_event now) (replay_chunks r c) @ [sse_done])"
  by (simp add: synthesize_cached_stream_def replay_chunks_def chunk_event_def Let_def)

lemma replay_reply:
  "resp_id r \<noteq> [] \<Longrightarrow> re_text (spec_reply (replay_chunks r c)) = msg_content (choice_message c) \<and>
     re_finish (spec_reply (replay_chunks r c)) = choice_finish c \<and>
     re_usage (spec_reply (replay_chunks r c)) = resp_usage r \<and>
     re_id (spec_reply (replay_chunks r c)) = resp_id r \<and> re_model (spec_reply (replay_chunks r c)) = resp_model r"
  by (simp add: spec_reply_def replay_chunks_def reply_step_def or_else_def no_reply_def)

lemma replay_chunks_ok: "usage_nonneg (resp_usage r) \<Longrightarrow> list_all chunk_ok (replay_chunks r c)"
  by (simp add: replay_chunks_def chunk_ok_def)

subsection \<open>What an upstream can do to the accounting\<close>

lemma bind_res_InrE:
  assumes "bind_res m f = Inr b"
  obtains a where "m = Inr a" "f a = Inr b"
  using assms by (auto simp: bind_res_Inr_iff)

lemma capture_usage_nonneg: "capture_usage line u = Inr u' \<Longrightarrow> usage_nonneg u \<Longrightarrow> usage_nonneg u'"
  by (auto simp: capture_usage_def bind_res_Inr_iff split: option.splits if_splits)

lemma feed_choice_usage: "feed_choice cs a = Inr a' \<Longrightarrow> acc_usage a' = acc_usage a"
  by (auto simp: feed_choice_def bind_res_Inr_iff split: if_splits)

lemma feed_usage_effect:
  "feed_usage us a = Inr a' \<Longrightarrow>
     (if is_dict us then \<exists>p c t. acc_usage a' = mk_usage p c t \<and>
        bind_res (py_get us ''prompt_tokens'' JNull) (\<lambda>v. to_int v (prompt_tokens (acc_usage a))) = Inr p \<and>
        bind_res (py_get us ''completion_tokens'' JNull) (\<lambda>v. to_int v (completion_tokens (acc_usage a))) = Inr c
      else a' = a)"
  by (auto simp: feed_usage_def bind_res_Inr_iff split: if_splits)

lemma feed_usage_nonneg:
  assumes "feed line a = Inr a'" and "usage_nonneg (acc_usage a)"
  shows "usage_nonneg (acc_usage a')"
proof (cases "sse_payload line")
  case None
  then show ?thesis using assms by (simp add: feed_def)
next
  case (Some chunk)
  with assms(1) obtain a1 us where "acc_usage a1 = acc_usage a" "feed_usage us a1 = Inr a'"
    by (auto simp: feed_def bind_res_Inr_iff dest!: feed_choice_usage)
  with assms(2) feed_usage_effect [of us a1 a'] show ?thesis by (auto split: if_splits)
qed

text \<open>The two readers agree on the tokens that are priced.\<close>

definition same_priced :: "usage \<Rightarrow> usage \<Rightarrow> bool" where
  "same_priced u v \<longleftrightarrow> prompt_tokens u = prompt_tokens v \<and> completion_tokens u = completion_tokens v"

lemma capture_feed_agree:
  assumes f: "feed line a = Inr a'" and c: "capture_usage line u = Inr u'" and s: "same_priced u (acc_usage a)"
  shows "same_priced u' (acc_usage a')"
proof (cases "sse_payload line")
  case None
  then show ?thesis using f c s by (simp add: feed_def capture_usage_def)
next
  case (Some chunk)
  with f obtain a1 us where a1: "acc_usage a1 = acc_usage a" "feed_usage us a1 = Inr a'"
      "py_get chunk ''usage'' JNull = Inr us"
    by (auto simp: feed_def bind_res_Inr_iff dest!: feed_choice_usage)
  show ?thesis
    using feed_usage_effect [OF a1(2)] c s a1(1,3) Some
    by (auto simp: capture_usage_def bind_res_Inr_iff same_priced_def split: if_splits)
qed

subsection \<open>Properties\<close>

definition sample_chunks :: "out_chunk list" where
  "sample_chunks = replay_chunks sample_response (hd (choices sample_response))"

lemma sample_chunks_ok: "list_all chunk_ok sample_chunks"
  by (simp add: sample_chunks_def replay_chunks_def chunk_ok_def sample_response_def)

text \<open>
  C24. The accumulator rebuilds what was streamed: fed the events of any list of chunks it reaches the state
  that stands for the abstract reply (contents in order, last identifier, model, finish reason and usage), the live
  usage ends at the reply's, and the response it gives is the reply's.
\<close>

theorem accumulator_refines_spec:
  assumes "list_all chunk_ok cs"
  shows "fold_res feed (map (chunk_event now) cs) new_accumulator = Inr (rep (spec_reply cs)) \<and>
         fold_res capture_usage (map (chunk_event now) cs) zero_usage = Inr (re_usage (spec_reply cs)) \<and>
         re_text (spec_reply cs) = concat (map (\<lambda>c. or_else (oc_content c) []) cs) \<and>
         (length (re_text (spec_reply cs)) \<le> max_content \<longrightarrow>
            to_response t (rep (spec_reply cs)) = Inr (reply_response t (spec_reply cs)))"
  using feed_spec [OF assms] capture_spec [OF assms]
  by (simp add: spec_reply_def fold_reply_text to_response_rep) (simp add: no_reply_def)

theorem accumulator_refines_spec_witness:
  "fold_res feed (map (chunk_event 3) sample_chunks) new_accumulator = Inr (rep (spec_reply sample_chunks))"
  using accumulator_refines_spec [OF sample_chunks_ok, of 3 0] by blast

text \<open>
  C25. A replayed response is the response: the lines that replay a cached one-choice response to a streaming client
  make a client-side accumulator rebuild exactly that response, and carry exactly its usage.
\<close>

theorem replayed_stream_round_trip:
  assumes "response_ok r" and "resp_id r \<noteq> []" and "choices r = [c]" and "choice_index c = 0"
    and "msg_role (choice_message c) = Assistant"
  shows "\<exists>lines a. synthesize_cached_stream now r = Inr lines \<and> fold_res feed lines new_accumulator = Inr a \<and>
           to_response (resp_created r) a = Inr r \<and> fold_res capture_usage lines zero_usage = Inr (resp_usage r)"
proof -
  let ?cs = "replay_chunks r c"
  have ok: "list_all chunk_ok ?cs" using assms(1) by (simp add: replay_chunks_ok response_ok_def)
  note reply = replay_reply [OF assms(2), of c]
  have len: "length (re_text (spec_reply ?cs)) \<le> max_content"
    using assms(1,3) by (simp add: reply response_ok_def)
  have r: "reply_response (resp_created r) (spec_reply ?cs) = r"
    using assms reply by (cases r; cases c; cases "choice_message c") (simp add: reply_response_def)
  have feed: "fold_res feed (map (chunk_event now) ?cs) new_accumulator = Inr (rep (spec_reply ?cs))"
    by (rule feed_spec [OF ok])
  have cap: "fold_res capture_usage (map (chunk_event now) ?cs) zero_usage = Inr (resp_usage r)"
    using capture_spec [OF ok, of now] by (simp add: reply)
  show ?thesis
    using feed cap len r synthesize_chunks [OF assms(3)] by (simp add: fold_res_append to_response_rep)
qed

theorem replayed_stream_round_trip_witness:
  "\<exists>lines a. synthesize_cached_stream 9 sample_response = Inr lines \<and> fold_res feed lines new_accumulator = Inr a \<and>
     to_response 7 a = Inr sample_response"
proof -
  let ?c = "hd (choices sample_response)"
  have "resp_id sample_response \<noteq> []" "choices sample_response = [?c]" "choice_index ?c = 0"
    "msg_role (choice_message ?c) = Assistant" "resp_created sample_response = 7"
    by (simp_all add: sample_response_def)
  with replayed_stream_round_trip [OF sample_response_ok, of ?c 9] show ?thesis by auto
qed

lemma accumulated_valid:
  assumes "fold_res feed lines new_accumulator = Inr a" and "to_response now a = Inr r"
  shows "response_ok r"
proof -
  have "usage_nonneg (acc_usage a)"
    by (rule fold_res_inv [OF assms(1), where I = "\<lambda>a. usage_nonneg (acc_usage a)"])
      (auto simp: new_accumulator_def zero_usage_def intro: feed_usage_nonneg)
  with assms(2) show ?thesis
    by (auto simp: to_response_def response_ok_def split: option.splits if_splits)
qed

text \<open>
  C40. Whatever an upstream streamed, a response the accumulator gives is one the schema admits (counts not negative,
  message within its bound), and the cache entry written for it is read back as the same response.
\<close>

theorem accumulated_response_ok:
  assumes "fold_res feed lines new_accumulator = Inr a" and "to_response now a = Inr r"
  shows "response_ok r \<and> json_dec (json_enc r) = Some r"
  using accumulated_valid [OF assms] json_dec_enc by blast

theorem accumulated_response_ok_witness:
  "response_ok (reply_response 3 (spec_reply sample_chunks))"
proof (rule accumulated_response_ok [THEN conjunct1])
  show "fold_res feed (map (chunk_event 3) sample_chunks) new_accumulator = Inr (rep (spec_reply sample_chunks))"
    by (rule feed_spec [OF sample_chunks_ok])
  show "to_response 3 (rep (spec_reply sample_chunks)) = Inr (reply_response 3 (spec_reply sample_chunks))"
    by (simp add: to_response_rep sample_chunks_def replay_chunks_def sample_response_def spec_reply_def reply_step_def
        or_else_def no_reply_def max_content_def)
qed

text \<open>
  C30. What is billed is what is cached: over any lines an upstream sends, the prompt and completion tokens read live for
  billing are those of the accumulated response that is cached, so the record queued for the stream is the one the cached
  response's usage gives, and a later replay records the same tokens.  Only the total, which no record holds, may differ
  (\<open>captured_total_differs\<close>).
\<close>

theorem billed_usage_is_cached_usage:
  assumes "fold_res feed lines new_accumulator = Inr a" and "fold_res capture_usage lines zero_usage = Inr u"
    and "to_response now a = Inr r"
  shows "prompt_tokens u = prompt_tokens (resp_usage r) \<and> completion_tokens u = completion_tokens (resp_usage r) \<and>
         build_usage_record vk pn q m u l = build_usage_record vk pn q m (resp_usage r) l \<and>
         (let replayed = build_usage_record vk CACHE_PROVIDER_NAME free_pricing (resp_model r) (resp_usage r) l'
          in ur_input_tokens replayed = prompt_tokens u \<and> ur_output_tokens replayed = completion_tokens u)"
proof -
  have "same_priced u (acc_usage a)"
    if "fold_res feed ls b = Inr a" "fold_res capture_usage ls v = Inr u" "same_priced v (acc_usage b)" for ls b v
    using that
  proof (induction ls arbitrary: b v)
    case (Cons l ls)
    then obtain b1 v1 where s: "feed l b = Inr b1" "fold_res feed ls b1 = Inr a"
      "capture_usage l v = Inr v1" "fold_res capture_usage ls v1 = Inr u"
      by (auto simp: bind_res_Inr_iff)
    show ?case by (rule Cons.IH [OF s(2,4)]) (rule capture_feed_agree [OF s(1,3) Cons.prems(3)])
  qed simp
  from this [OF assms(1,2)] have "same_priced u (acc_usage a)" by (simp add: same_priced_def new_accumulator_def)
  moreover have "resp_usage r = acc_usage a"
    using assms(3) by (auto simp: to_response_def split: option.splits if_splits)
  ultimately show ?thesis by (simp add: same_priced_def build_usage_record_def estimated_cost_def Let_def)
qed

theorem billed_usage_is_cached_usage_witness:
  "\<exists>r. to_response 3 (rep (spec_reply sample_chunks)) = Inr r \<and>
     prompt_tokens (re_usage (spec_reply sample_chunks)) = prompt_tokens (resp_usage r)"
proof -
  have run: "fold_res feed (map (chunk_event 3) sample_chunks) new_accumulator = Inr (rep (spec_reply sample_chunks))"
    "fold_res capture_usage (map (chunk_event 3) sample_chunks) zero_usage = Inr (re_usage (spec_reply sample_chunks))"
    by (rule feed_spec [OF sample_chunks_ok], rule capture_spec [OF sample_chunks_ok])
  have "length (re_text (spec_reply sample_chunks)) \<le> max_content"
    by (simp add: sample_chunks_def replay_chunks_def Let_def spec_reply_def reply_step_def or_else_def no_reply_def
        sample_response_def max_content_def)
  then have "to_response 3 (rep (spec_reply sample_chunks)) = Inr (reply_response 3 (spec_reply sample_chunks))"
    by (simp add: to_response_rep)
  with billed_usage_is_cached_usage [OF run this] show ?thesis by blast
qed

text \<open>A usage object without a total: the reader adds up the tokens, the accumulator keeps its total.\<close>

lemma captured_total_differs:
  "capture_usage (sse_event (JObj [(''usage'', JObj [(''prompt_tokens'', JInt 2)])])) zero_usage = Inr (mk_usage 2 0 2) \<and>
   (\<exists>a. feed (sse_event (JObj [(''usage'', JObj [(''prompt_tokens'', JInt 2)])])) new_accumulator = Inr a \<and>
        acc_usage a = mk_usage 2 0 0)"
  by (simp add: capture_usage_def feed_def sse_payload_event feed_choice_def feed_usage_def zero_usage_def new_accumulator_def
      py_or_def)

text \<open>Two ways an upstream breaks a stream: a text that is no number, and an answer too long for a message.\<close>

lemma signed_twice_raises:
  "to_int (JStr ''--5'') d = Inl (ValueErr ''invalid literal for int() with base 10'')"
  by (simp add: py_isdigit_def py_isdigit_char_def is_digit_def py_int_def py_strip_def rstrip_while_def py_space_def)

lemma long_answer_not_cached: "max_content < length (acc_content a) \<Longrightarrow> to_response now a = Inl validation_error"
  by (auto simp: to_response_def split: option.splits)

end
