(* ===== verification/Security.thy ===== *)
theory Security
  imports Spend
begin

text \<open>
  Virtual keys: \<open>core/security.py\<close>, the bearer authentication of \<open>routers/chat.py\<close>, the key routes of
  \<open>routers/keys.py\<close> and the key commands of \<open>cli.py\<close>.  The digest function \<open>sha\<close> (SHA-256 in hex), the
  random part of a new key, the clock and \<open>datetime.isoformat\<close> are arguments.
\<close>

subsection \<open>core/security.py\<close>

definition hash_key :: "(string \<Rightarrow> string) \<Rightarrow> string \<Rightarrow> string" where
  "hash_key sha raw_key = sha raw_key"

definition verify_key_hash :: "(string \<Rightarrow> string) \<Rightarrow> string \<Rightarrow> string \<Rightarrow> bool" where
  "verify_key_hash sha raw_key expected_hash \<longleftrightarrow> hash_key sha raw_key = expected_hash"

fun as_utc :: "datetime \<Rightarrow> datetime" where
  "as_utc (Naive t) = Aware t"
| "as_utc (Aware t) = Aware t"

definition is_expired :: "rat \<Rightarrow> datetime option \<Rightarrow> bool" where
  "is_expired now expiry =
     (case expiry of None \<Rightarrow> False | Some t \<Rightarrow> instant (as_utc t) \<le> now)"

definition authenticate_virtual_key ::
    "(string \<Rightarrow> string) \<Rightarrow> rat \<Rightarrow> (string \<Rightarrow> exn + api_key_row option) \<Rightarrow> string \<Rightarrow> exn + api_key_row" where
  "authenticate_virtual_key sha now lookup raw_key =
     bind_res (lookup (hash_key sha raw_key)) (\<lambda>found.
       case found of
         None \<Rightarrow> Inl (InvalidVirtualKeyExn ''Virtual API key not found or inactive.'')
       | Some k \<Rightarrow>
           if \<not> is_active k then Inl (InvalidVirtualKeyExn ''Virtual API key not found or inactive.'')
           else if is_expired now (expires_at k) then
             Inl (InvalidVirtualKeyExn ''Virtual API key has expired.'')
           else Inr k)"

subsection \<open>routers/chat.py: \<open>authenticate_request\<close>\<close>

definition unauthorized :: "string \<Rightarrow> exn" where
  "unauthorized m = HttpExn \<lparr>status_code = 401, detail = PlainDetail m, exc_headers = []\<rparr>"

definition bearer_key :: "string option \<Rightarrow> string option" where
  "bearer_key auth_header =
     (case auth_header of
        None \<Rightarrow> None
      | Some h \<Rightarrow>
          if h = [] \<or> \<not> py_startswith h ''Bearer '' then None
          else let raw_key = py_strip (drop 7 h) in if raw_key = [] then None else Some raw_key)"

definition authenticate_request ::
    "(string \<Rightarrow> string) \<Rightarrow> rat \<Rightarrow> db \<Rightarrow> string option \<Rightarrow> exn + int" where
  "authenticate_request sha now d auth_header =
     (case bearer_key auth_header of
        None \<Rightarrow> Inl (unauthorized ''Missing or invalid API key'')
      | Some raw_key \<Rightarrow>
          (case authenticate_virtual_key sha now (\<lambda>h. get_key_by_hash h d) raw_key of
             Inr k \<Rightarrow> Inr (key_id k)
           | Inl (InvalidVirtualKeyExn m) \<Rightarrow> Inl (unauthorized ''Invalid API key'')
           | Inl e \<Rightarrow> Inl e))"

subsection \<open>routers/keys.py\<close>

record key_create =
  kc_client_name :: string
  kc_expires_in_days :: "int option"
  kc_spend_limit_usd :: "pyfloat option"

record key_created =
  kd_id :: int
  kd_client_name :: string
  kd_api_key :: string
  kd_spend_limit_usd :: "string option"
  kd_created_at :: datetime
  kd_expires_at :: "datetime option"

record key_summary =
  ks_id :: int
  ks_client_name :: string
  ks_is_active :: bool
  ks_spend_limit_usd :: "string option"
  ks_created_at :: datetime
  ks_expires_at :: "datetime option"

definition DEFAULT_KEY_EXPIRY_DAYS :: int where
  "DEFAULT_KEY_EXPIRY_DAYS = 90"

text \<open>The validator of the name; an accepted body carries the stripped name (the schema of the body is in \<open>Admin_Http\<close>).\<close>

definition client_name_not_blank :: "string \<Rightarrow> string option" where
  "client_name_not_blank value = (let stripped = py_strip value in if stripped = [] then None else Some stripped)"

definition get_keys :: "db \<Rightarrow> key_summary list" where
  "get_keys d =
     map (\<lambda>k. \<lparr>ks_id = key_id k, ks_client_name = client_name k, ks_is_active = is_active k,
               ks_spend_limit_usd = map_option dec_str (spend_limit_usd k),
               ks_created_at = key_created_at k, ks_expires_at = expires_at k\<rparr>)
         (list_keys d)"

definition expiry_of :: "rat \<Rightarrow> int option \<Rightarrow> datetime option" where
  "expiry_of now days = map_option (\<lambda>n. Aware (now + of_int n * 86400)) days"

definition create_key ::
    "(string \<Rightarrow> string) \<Rightarrow> sql_ops \<Rightarrow> (datetime \<Rightarrow> string) \<Rightarrow> rat \<Rightarrow> string \<Rightarrow> server \<Rightarrow> server \<Rightarrow>
     key_create \<Rightarrow> db \<Rightarrow> (exn + key_created) \<times> db" where
  "create_key sha sql isofmt now token srv1 srv2 payload d =
     (let expiry = expiry_of now (kc_expires_in_days payload);
          raw_key = ''sk-'' @ token
      in case insert_key sql srv1 (hash_key sha raw_key) (kc_client_name payload)
                (map_option dec_of_float (kc_spend_limit_usd payload)) expiry d of
           (Inl e, d1) \<Rightarrow> (Inl e, d1)
         | (Inr k, d1) \<Rightarrow>
             (case create_audit_log srv2 ''key_created'' (key_id k) (client_name k)
                     (map_option (\<lambda>t. ''expires_at='' @ isofmt t) expiry) d1 of
                (Some e, d2) \<Rightarrow> (Inl e, d2)
              | (None, d2) \<Rightarrow>
                  (Inr \<lparr>kd_id = key_id k, kd_client_name = client_name k, kd_api_key = raw_key,
                        kd_spend_limit_usd = map_option dec_str (spend_limit_usd k),
                        kd_created_at = key_created_at k, kd_expires_at = expires_at k\<rparr>, d2)))"

definition key_not_found :: exn where
  "key_not_found =
     HttpExn \<lparr>status_code = 404, detail = PlainDetail (''chave n'' @ [CHR 0xE3] @ ''o encontrada''),
              exc_headers = []\<rparr>"

text \<open>The result is the status code of the empty response.\<close>

definition revoke_key :: "server \<Rightarrow> int \<Rightarrow> db \<Rightarrow> (exn + nat) \<times> db" where
  "revoke_key srv i d =
     (case deactivate_key i d of
        (None, d1) \<Rightarrow> (Inl key_not_found, d1)
      | (Some k, d1) \<Rightarrow>
          (case create_audit_log srv ''key_revoked'' (key_id k) (client_name k) None d1 of
             (Some e, d2) \<Rightarrow> (Inl e, d2)
           | (None, d2) \<Rightarrow> (Inr 204, d2)))"

subsection \<open>cli.py\<close>

text \<open>The parsed arguments of \<open>create-key\<close>; \<open>parser.error\<close> exits with status 2.\<close>

datatype cli_exit = ExitStatus nat | CliRaised exn

record create_key_args =
  arg_client_name :: string
  arg_expires_in_days :: "int option"
  arg_no_expiry :: bool
  arg_spend_limit_usd :: "pyfloat option"

definition cli_expiry_days :: "create_key_args \<Rightarrow> cli_exit + int option" where
  "cli_expiry_days a =
     (if arg_no_expiry a \<and> arg_expires_in_days a \<noteq> None then Inl (ExitStatus 2)
      else if arg_no_expiry a then Inr None
      else Inr (Some (case arg_expires_in_days a of
                        None \<Rightarrow> DEFAULT_KEY_EXPIRY_DAYS
                      | Some n \<Rightarrow> if n = 0 then DEFAULT_KEY_EXPIRY_DAYS else n)))"

definition cli_detail :: "(datetime \<Rightarrow> string) \<Rightarrow> datetime option \<Rightarrow> dec option \<Rightarrow> string option" where
  "cli_detail isofmt expiry limit =
     (case (expiry, limit) of
        (None, None) \<Rightarrow> None
      | (Some t, None) \<Rightarrow> Some (''expires_at='' @ isofmt t)
      | (None, Some l) \<Rightarrow> Some (''spend_limit_usd='' @ dec_str l)
      | (Some t, Some l) \<Rightarrow> Some (''expires_at='' @ isofmt t @ ''; spend_limit_usd='' @ dec_str l))"

text \<open>The result is the raw key that is printed.\<close>

definition cli_create_key ::
    "(string \<Rightarrow> string) \<Rightarrow> sql_ops \<Rightarrow> (datetime \<Rightarrow> string) \<Rightarrow> rat \<Rightarrow> string \<Rightarrow> server \<Rightarrow> server \<Rightarrow>
     string \<Rightarrow> int option \<Rightarrow> pyfloat option \<Rightarrow> db \<Rightarrow> (exn + string) \<times> db" where
  "cli_create_key sha sql isofmt now token srv1 srv2 client days limit d =
     (let expiry = expiry_of now days;
          raw_key = ''sk-'' @ token
      in case insert_key sql srv1 (hash_key sha raw_key) client (map_option dec_of_float limit) expiry d of
           (Inl e, d1) \<Rightarrow> (Inl e, d1)
         | (Inr k, d1) \<Rightarrow>
             (case create_audit_log srv2 ''key_created'' (key_id k) client
                     (cli_detail isofmt expiry (spend_limit_usd k)) d1 of
                (Some e, d2) \<Rightarrow> (Inl e, d2)
              | (None, d2) \<Rightarrow> (Inr raw_key, d2)))"

definition cli_revoke_key :: "server \<Rightarrow> int \<Rightarrow> db \<Rightarrow> (cli_exit + unit) \<times> db" where
  "cli_revoke_key srv i d =
     (case deactivate_key i d of
        (None, d1) \<Rightarrow> (Inl (ExitStatus 1), d1)
      | (Some k, d1) \<Rightarrow>
          (case create_audit_log srv ''key_revoked'' (key_id k) (client_name k) None d1 of
             (Some e, d2) \<Rightarrow> (Inl (CliRaised e), d2)
           | (None, d2) \<Rightarrow> (Inr (), d2)))"

definition main_create_key ::
    "(string \<Rightarrow> string) \<Rightarrow> sql_ops \<Rightarrow> (datetime \<Rightarrow> string) \<Rightarrow> rat \<Rightarrow> string \<Rightarrow> server \<Rightarrow> server \<Rightarrow>
     create_key_args \<Rightarrow> db \<Rightarrow> (cli_exit + string) \<times> db" where
  "main_create_key sha sql isofmt now token srv1 srv2 a d =
     (case cli_expiry_days a of
        Inl x \<Rightarrow> (Inl x, d)
      | Inr days \<Rightarrow>
          (case cli_create_key sha sql isofmt now token srv1 srv2 (arg_client_name a) days
                  (arg_spend_limit_usd a) d of
             (Inl e, d') \<Rightarrow> (Inl (CliRaised e), d')
           | (Inr raw, d') \<Rightarrow> (Inr raw, d')))"

subsection \<open>Lemmas\<close>

lemma get_key_by_hash_Some:
  "get_key_by_hash h d = Inr (Some k) \<longleftrightarrow> filter (\<lambda>k. hashed_key k = h) (api_keys d) = [k]"
  by (auto simp: get_key_by_hash_def split: list.splits)

lemma get_key_by_hash_SomeD:
  "get_key_by_hash h d = Inr (Some k) \<Longrightarrow> k \<in> set (api_keys d) \<and> hashed_key k = h"
  unfolding get_key_by_hash_Some by (rule filter_eq_ConsD)

lemma authenticate_virtual_key_Inr_iff:
  "authenticate_virtual_key sha now lookup raw = Inr k \<longleftrightarrow>
     lookup (sha raw) = Inr (Some k) \<and> is_active k \<and> \<not> is_expired now (expires_at k)"
  by (auto simp: authenticate_virtual_key_def hash_key_def bind_res_Inr_iff split: option.splits if_splits)

lemma authenticate_virtual_key_Inl:
  "authenticate_virtual_key sha now lookup raw = Inl e \<Longrightarrow> lookup (sha raw) = Inr found \<Longrightarrow>
     \<exists>m. e = InvalidVirtualKeyExn m"
  by (auto simp: authenticate_virtual_key_def hash_key_def split: option.splits if_splits)

lemma authenticate_Inr_iff:
  "authenticate_request sha now d hdr = Inr i \<longleftrightarrow>
     (\<exists>raw k. bearer_key hdr = Some raw \<and> get_key_by_hash (sha raw) d = Inr (Some k) \<and>
              is_active k \<and> \<not> is_expired now (expires_at k) \<and> key_id k = i)"
proof (cases "bearer_key hdr")
  case (Some raw)
  then show ?thesis
    using authenticate_virtual_key_Inr_iff [of sha now "\<lambda>h. get_key_by_hash h d" raw]
    by (auto simp: authenticate_request_def split: sum.splits exn.splits)
qed (simp add: authenticate_request_def)

lemma instant_as_utc [simp]: "instant (as_utc t) = instant t"
  by (cases t) simp_all

lemma is_expired_iff: "is_expired now e \<longleftrightarrow> (\<exists>t. e = Some t \<and> instant t \<le> now)"
  by (simp add: is_expired_def split: option.splits)

text \<open>A revoked id: it exists, and no row with it is active.\<close>

definition revoked :: "int \<Rightarrow> db \<Rightarrow> bool" where
  "revoked i d \<longleftrightarrow>
     i \<in> key_id ` set (api_keys d) \<and> (\<forall>k \<in> set (api_keys d). key_id k = i \<longrightarrow> \<not> is_active k)"

lemma revoked_deactivate: "deactivate_key i d = (Some k, d') \<Longrightarrow> revoked i d'"
  by (auto simp: deactivate_key_def get_key_by_id_def revoked_def find_Some_iff
      dest: deactivated_active split: option.splits)

lemma deactivate_existing:
  assumes "i \<in> key_id ` set (api_keys d)"
  shows "\<exists>k d1. deactivate_key i d = (Some k, d1)"
proof -
  from assms have "get_key_by_id i d \<noteq> None" by (auto simp: get_key_by_id_def find_None_iff)
  then show ?thesis by (auto simp: deactivate_key_def)
qed

lemma revoked_step: "revoked i d \<Longrightarrow> revoked i (db_step sql x d)"
proof (cases x)
  case (AddKey srv h c l e)
  moreover assume "revoked i d"
  ultimately show ?thesis
    by (auto simp: revoked_def insert_key_def Let_def split: server.splits)
next
  case (Deactivate j)
  moreover assume "revoked i d"
  ultimately show ?thesis
    by (auto simp: revoked_def deactivate_key_def dest: deactivated_active split: option.splits)
qed (simp_all add: revoked_def create_usage_log_def create_failed_usage_log_def)

lemma revoked_run: "revoked i d \<Longrightarrow> revoked i (db_run sql ops d)"
  unfolding db_run_def by (induction ops arbitrary: d) (simp_all add: revoked_step)

lemma revoked_no_auth: "revoked i d \<Longrightarrow> authenticate_request sha now d hdr \<noteq> Inr i"
  unfolding authenticate_Inr_iff revoked_def by (auto dest: get_key_by_hash_SomeD)

lemma api_keys_create_audit_log:
  "create_audit_log srv a i c t d = (e, d') \<Longrightarrow> api_keys d' = api_keys d"
  using api_keys_other(2) [of srv a i c t d] by simp

lemma get_key_by_hash_unique:
  assumes "db_ok d" and "k \<in> set (api_keys d)" and "hashed_key k = h"
  shows "get_key_by_hash h d = Inr (Some k)"
proof -
  have "distinct (map hashed_key (api_keys d))" using assms(1) by (simp add: db_ok_def)
  then have "filter (\<lambda>k. hashed_key k = h) (api_keys d) = [k]"
    using assms(2,3)
  proof (induction "api_keys d" arbitrary: d)
    case (Cons a as)
    define d' where "d' = d\<lparr>api_keys := as\<rparr>"
    from Cons.hyps(2) Cons.prems have "\<forall>x \<in> set as. hashed_key x \<noteq> hashed_key a"
      by (metis distinct.simps(2) image_eqI list.set_map list.simps(9))
    moreover have "filter (\<lambda>k. hashed_key k = h) as = [k]" if "k \<in> set as"
      using Cons.hyps(1) [of d'] Cons.prems that
      by (simp add: d'_def Cons.hyps(2) [symmetric])
    ultimately show ?case
      using Cons.prems(2,3) by (auto simp: Cons.hyps(2) [symmetric] filter_empty_conv)
  qed simp
  then show ?thesis by (simp add: get_key_by_hash_Some)
qed

lemma py_strip_key:
  assumes "list_all (\<lambda>c. \<not> py_space c) token"
  shows "py_strip (''sk-'' @ token) = ''sk-'' @ token"
proof (rule py_strip_id)
  show "\<not> py_space (last (''sk-'' @ token))"
  proof (cases token rule: rev_cases)
    case Nil
    then show ?thesis by (simp add: py_space_def)
  next
    case (snoc cs c)
    then show ?thesis using assms by simp
  qed
qed (simp_all add: py_space_def)

lemma bearer_key_of_key:
  "list_all (\<lambda>c. \<not> py_space c) token \<Longrightarrow> bearer_key (Some (''Bearer '' @ ''sk-'' @ token)) = Some (''sk-'' @ token)"
  using py_strip_key [of token] by (simp add: bearer_key_def py_startswith_def)

lemma insert_key_Inr:
  "insert_key sql srv h c l e d = (Inr k, d') \<Longrightarrow>
     d' = d\<lparr>api_keys := api_keys d @ [k]\<rparr> \<and> h \<notin> hashed_key ` set (api_keys d) \<and>
     hashed_key k = h \<and> client_name k = c \<and> is_active k \<and>
     spend_limit_usd k = map_option (store_limit sql) l \<and> expires_at k = map_option (store_time sql) e"
  by (auto simp: insert_key_def Let_def split: server.splits if_splits)

lemma create_key_Inr:
  assumes "create_key sha sql isofmt now token srv1 srv2 b d = (Inr c, d')"
  shows "\<exists>k d1. insert_key sql srv1 (sha (''sk-'' @ token)) (kc_client_name b)
                 (map_option dec_of_float (kc_spend_limit_usd b)) (expiry_of now (kc_expires_in_days b)) d = (Inr k, d1) \<and>
               create_audit_log srv2 ''key_created'' (key_id k) (client_name k)
                 (map_option (\<lambda>t. ''expires_at='' @ isofmt t) (expiry_of now (kc_expires_in_days b))) d1 = (None, d') \<and>
               kd_id c = key_id k \<and> kd_api_key c = ''sk-'' @ token"
  using assms
  by (auto simp: create_key_def hash_key_def Let_def split: prod.splits sum.splits option.splits)

lemma expired_stored:
  assumes "sql_ok sql"
  shows "is_expired t (map_option (store_time sql) (expiry_of now days)) \<longleftrightarrow>
           (case days of None \<Rightarrow> False | Some n \<Rightarrow> now + of_int n * 86400 \<le> t)"
  by (auto simp: is_expired_iff expiry_of_def sql_ok_time [OF assms] split: option.splits)

lemma create_audit_log_None:
  "create_audit_log srv a i c t d = (None, d') \<Longrightarrow>
     \<exists>r. audit_logs d' = audit_logs d @ [r] \<and> audit_action r = a \<and> audit_key_id r = i \<and>
         audit_client r = c \<and> audit_detail r = t"
  by (auto simp: create_audit_log_def split: server.splits if_splits)

text \<open>The only error of authentication is the 401.\<close>

lemma authenticate_Inl:
  assumes "db_ok d" and "authenticate_request sha now d hdr = Inl e"
  shows "\<exists>m. e = unauthorized m"
proof -
  have found: "\<exists>r. get_key_by_hash h d = Inr r" for h
  proof (cases "\<exists>k \<in> set (api_keys d). hashed_key k = h")
    case True
    then show ?thesis using get_key_by_hash_unique [OF assms(1)] by blast
  next
    case False
    then have "filter (\<lambda>k. hashed_key k = h) (api_keys d) = []" by (simp add: filter_empty_conv)
    then show ?thesis by (simp add: get_key_by_hash_def)
  qed
  have "\<exists>m. x = InvalidVirtualKeyExn m"
    if "authenticate_virtual_key sha now (\<lambda>h. get_key_by_hash h d) raw = Inl x" for raw x
    using authenticate_virtual_key_Inl [OF that] found by blast
  with assms(2) show ?thesis
    by (auto simp: authenticate_request_def split: option.splits sum.splits exn.splits)
qed

subsection \<open>Properties\<close>

text \<open>
  C6. Authentication is exact: a request acts as key \<open>i\<close> exactly when its header is a bearer header
  whose stripped key hashes to the stored hash of an active row with id \<open>i\<close> whose expiry, if any, lies ahead;
  every other request is answered with a 401.
\<close>

theorem authentication_exact:
  assumes "db_ok d"
  shows "(authenticate_request sha now d hdr = Inr i \<longleftrightarrow>
            (\<exists>raw k. bearer_key hdr = Some raw \<and> k \<in> set (api_keys d) \<and> hashed_key k = sha raw \<and>
                     is_active k \<and> (\<forall>t. expires_at k = Some t \<longrightarrow> now < instant t) \<and> key_id k = i)) \<and>
         (\<forall>e. authenticate_request sha now d hdr = Inl e \<longrightarrow> (\<exists>m. e = unauthorized m))"
proof (intro conjI allI impI)
  have "get_key_by_hash h d = Inr (Some k) \<longleftrightarrow> k \<in> set (api_keys d) \<and> hashed_key k = h" for h k
    using get_key_by_hash_SomeD get_key_by_hash_unique [OF assms] by blast
  then show "authenticate_request sha now d hdr = Inr i \<longleftrightarrow>
      (\<exists>raw k. bearer_key hdr = Some raw \<and> k \<in> set (api_keys d) \<and> hashed_key k = sha raw \<and>
               is_active k \<and> (\<forall>t. expires_at k = Some t \<longrightarrow> now < instant t) \<and> key_id k = i)"
    by (auto simp: authenticate_Inr_iff is_expired_iff not_le)
qed (rule authenticate_Inl [OF assms])

theorem authentication_exact_witness:
  "authenticate_request (\<lambda>raw. ''h'') 5 (capped_db dec_zero) (Some ''Bearer sk-1 '') = Inr 7"
proof -
  have "db_ok (capped_db dec_zero)" by (simp add: db_ok_def capped_db_def)
  from authentication_exact [OF this, of "\<lambda>raw. ''h''" 5 "Some ''Bearer sk-1 ''" 7] show ?thesis
    by (simp add: capped_db_def capped_key_def bearer_key_def py_startswith_def py_strip_def py_space_def
        rstrip_while_def)
qed

text \<open>
  Revocation is final: after \<open>DELETE /api/keys/{id}\<close> on an existing key no request is ever
  authenticated as that key again, at any time, whatever is written afterwards, and even when the audit entry of the
  revocation itself was refused.
\<close>

theorem revoked_key_never_authenticates:
  assumes "i \<in> key_id ` set (api_keys d)"
  shows "authenticate_request sha now (db_run sql ops (snd (revoke_key srv i d))) hdr \<noteq> Inr i \<and>
         fst (revoke_key srv i d) \<noteq> Inl key_not_found"
proof -
  obtain k d1 where off: "deactivate_key i d = (Some k, d1)"
    using deactivate_existing [OF assms] by blast
  then have "revoked i d1" by (rule revoked_deactivate)
  then have "revoked i (snd (create_audit_log srv ''key_revoked'' (key_id k) (client_name k) None d1))"
    by (simp add: revoked_def)
  then have "revoked i (snd (revoke_key srv i d))"
    by (cases "create_audit_log srv ''key_revoked'' (key_id k) (client_name k) None d1")
      (auto simp: revoke_key_def off split: option.splits)
  moreover have "fst (revoke_key srv i d) \<noteq> Inl key_not_found"
    by (auto simp: revoke_key_def off key_not_found_def create_audit_log_def
        split: prod.splits option.splits server.splits if_splits)
  ultimately show ?thesis using revoked_run revoked_no_auth by blast
qed

theorem revoked_key_never_authenticates_witness:
  "authenticate_request (\<lambda>raw. ''h'') 5
     (db_run exact_sql [AddKey (Assigned 8 (Naive 0)) ''h2'' ''bob'' None None]
       (snd (revoke_key (Refused ''disk full'') 7 (capped_db dec_zero)))) (Some ''Bearer sk-1'') \<noteq> Inr 7"
  using revoked_key_never_authenticates [of 7 "capped_db dec_zero"]
  by (simp add: capped_db_def capped_key_def)

lemma created_key_works:
  assumes "create_key sha sql isofmt now token srv1 srv2 b d = (Inr c, d')" and "sql_ok sql"
    and "list_all (\<lambda>ch. \<not> py_space ch) token"
  shows "(authenticate_request sha t d' (Some (''Bearer '' @ kd_api_key c)) = Inr (kd_id c) \<longleftrightarrow>
            (case kc_expires_in_days b of None \<Rightarrow> True | Some n \<Rightarrow> t < now + of_int n * 86400)) \<and>
         map hashed_key (api_keys d') = map hashed_key (api_keys d) @ [sha (kd_api_key c)] \<and>
         (\<exists>r. audit_logs d' = audit_logs d @ [r] \<and> audit_action r = ''key_created'' \<and> audit_key_id r = kd_id c)"
proof -
  from create_key_Inr [OF assms(1)] obtain k d1
    where ins: "insert_key sql srv1 (sha (''sk-'' @ token)) (kc_client_name b)
                 (map_option dec_of_float (kc_spend_limit_usd b)) (expiry_of now (kc_expires_in_days b)) d = (Inr k, d1)"
      and aud: "create_audit_log srv2 ''key_created'' (key_id k) (client_name k)
                 (map_option (\<lambda>t. ''expires_at='' @ isofmt t) (expiry_of now (kc_expires_in_days b))) d1 = (None, d')"
      and c: "kd_id c = key_id k" "kd_api_key c = ''sk-'' @ token"
    by blast
  note k = insert_key_Inr [OF ins]
  have keys: "api_keys d' = api_keys d @ [k]"
    using k api_keys_create_audit_log [OF aud] by simp
  have "sha (''sk-'' @ token) \<notin> hashed_key ` set (api_keys d)" using k by blast
  then have "filter (\<lambda>x. hashed_key x = sha (''sk-'' @ token)) (api_keys d) = []"
    unfolding filter_empty_conv by (metis imageI)
  then have "get_key_by_hash (sha (''sk-'' @ token)) d' = Inr (Some k)"
    using k by (simp add: get_key_by_hash_Some keys)
  then have "authenticate_request sha t d' (Some (''Bearer '' @ kd_api_key c)) = Inr (kd_id c) \<longleftrightarrow>
      \<not> is_expired t (expires_at k)"
    using k bearer_key_of_key [OF assms(3)] by (auto simp: authenticate_Inr_iff c)
  moreover have "\<dots> \<longleftrightarrow> (case kc_expires_in_days b of None \<Rightarrow> True | Some n \<Rightarrow> t < now + of_int n * 86400)"
    using k expired_stored [OF assms(2), of t now "kc_expires_in_days b"]
    by (auto simp: not_le split: option.splits)
  moreover have "map hashed_key (api_keys d') = map hashed_key (api_keys d) @ [sha (kd_api_key c)]"
    using k by (simp add: keys c)
  moreover have "audit_logs d1 = audit_logs d" using k by simp
  ultimately show ?thesis using create_audit_log_None [OF aud] c by auto
qed

text \<open>
  A created key works, and only until it expires: the raw key the route returned authenticates as the
  new id exactly before the requested expiry (for ever when none was requested), only its
  hash was stored, and the creation was audited.
\<close>

theorem created_key_authenticates:
  assumes "create_key sha sql isofmt now token srv1 srv2 b d = (Inr c, d')" and "sql_ok sql"
    and "list_all (\<lambda>ch. \<not> py_space ch) token"
  shows "(authenticate_request sha t d' (Some (''Bearer '' @ kd_api_key c)) = Inr (kd_id c) \<longleftrightarrow>
            (case kc_expires_in_days b of None \<Rightarrow> True | Some n \<Rightarrow> t < now + of_int n * 86400)) \<and>
         map hashed_key (api_keys d') = map hashed_key (api_keys d) @ [sha (kd_api_key c)] \<and>
         (\<exists>r. audit_logs d' = audit_logs d @ [r] \<and> audit_action r = ''key_created'' \<and> audit_key_id r = kd_id c)"
  using assms by (rule created_key_works)

theorem created_key_authenticates_witness:
  "authenticate_request (\<lambda>raw. raw) 100
     (snd (create_key (\<lambda>raw. raw) exact_sql (\<lambda>t. ''x'') 0 ''ab'' (Assigned 1 (Naive 0)) (Assigned 1 (Naive 0))
        \<lparr>kc_client_name = ''acme'', kc_expires_in_days = Some 90, kc_spend_limit_usd = None\<rparr> empty_db))
     (Some ''Bearer sk-ab'') = Inr 1"
proof -
  let ?b = "\<lparr>kc_client_name = ''acme'', kc_expires_in_days = Some 90, kc_spend_limit_usd = None\<rparr>"
  obtain c d' where *: "create_key (\<lambda>raw. raw) exact_sql (\<lambda>t. ''x'') 0 ''ab'' (Assigned 1 (Naive 0))
      (Assigned 1 (Naive 0)) ?b empty_db = (Inr c, d')" and c: "kd_id c = 1" "kd_api_key c = ''sk-ab''"
    by (simp add: create_key_def insert_key_def create_audit_log_def empty_db_def Let_def hash_key_def)
  from created_key_authenticates [OF this(1) sql_ok_exact, of 100] * c show ?thesis
    by (simp add: py_space_def)
qed

text \<open>
  Listing the keys tells nothing about the hashes: two databases that differ in the stored
  hashes only give the same answer, one entry per key in ascending id.
\<close>

theorem key_listing_hides_hashes:
  "get_keys (d\<lparr>api_keys := map (\<lambda>k. k\<lparr>hashed_key := f k\<rparr>) (api_keys d)\<rparr>) = get_keys d \<and>
   sorted (map ks_id (get_keys d)) \<and> length (get_keys d) = length (api_keys d)"
proof -
  have ins: "insort_key key_id (k\<lparr>hashed_key := f k\<rparr>) (map (\<lambda>k. k\<lparr>hashed_key := f k\<rparr>) ks) =
      map (\<lambda>k. k\<lparr>hashed_key := f k\<rparr>) (insort_key key_id k ks)" for k ks
    by (induction ks) simp_all
  have "sort_key key_id (map (\<lambda>k. k\<lparr>hashed_key := f k\<rparr>) ks) =
      map (\<lambda>k. k\<lparr>hashed_key := f k\<rparr>) (sort_key key_id ks)" for ks
    by (induction ks) (simp_all add: ins)
  then show ?thesis
    using sorted_sort_key [of key_id "api_keys d"] by (simp add: get_keys_def list_keys_def comp_def)
qed

text \<open>
  The route and the command line store the same key: for the same name, days and limit both insert
  the same row and return the same raw key; they differ in the audit entry only.
\<close>

theorem cli_and_route_store_same_key:
  "api_keys (snd (create_key sha sql isofmt now token srv1 srv2 b d)) =
   api_keys (snd (cli_create_key sha sql isofmt now token srv1 srv2 (kc_client_name b)
                    (kc_expires_in_days b) (kc_spend_limit_usd b) d)) \<and>
   map_sum id kd_api_key (fst (create_key sha sql isofmt now token srv1 srv2 b d)) =
   fst (cli_create_key sha sql isofmt now token srv1 srv2 (kc_client_name b)
          (kc_expires_in_days b) (kc_spend_limit_usd b) d)"
proof -
  let ?ins = "insert_key sql srv1 (sha (''sk-'' @ token)) (kc_client_name b)
      (map_option dec_of_float (kc_spend_limit_usd b)) (expiry_of now (kc_expires_in_days b)) d"
  show ?thesis
  proof (cases ?ins)
    case (Pair r d1)
    show ?thesis
    proof (cases r)
      case (Inl e)
      with Pair show ?thesis by (simp add: create_key_def cli_create_key_def Let_def hash_key_def)
    next
      case (Inr k)
      then have "client_name k = kc_client_name b" using Pair insert_key_Inr by blast
      then show ?thesis using Pair Inr
        by (cases srv2) (simp_all add: create_key_def cli_create_key_def Let_def hash_key_def create_audit_log_def)
    qed
  qed
qed

end
