(* ===== verification/Rate_Limiter.thy ===== *)
theory Rate_Limiter
  imports Redis_Service Core_Errors Core_Config
begin

text \<open>
  The sliding-window rate limiter of \<open>core/rate_limiter.py\<close> over the Redis service.  The client clock
  reading \<open>now\<close>, its \<open>repr\<close> and the random token are arguments.  The check is two calls: the counting
  pipeline, and the rollback of a rejected request; between them other requests run, which the step
  relation \<open>rl_step\<close> makes explicit.
\<close>

subsection \<open>\<open>check_rate_limit_status\<close>\<close>

record rate_limit_status =
  rl_allowed :: bool
  rl_limit :: int
  rl_remaining :: int
  rl_window :: int

definition rl_key :: "int \<Rightarrow> string" where
  "rl_key virtual_key_id = ''ratelimit:'' @ str_int virtual_key_id"

definition rl_member :: "string \<Rightarrow> string \<Rightarrow> string" where
  "rl_member now_repr token = now_repr @ '':'' @ token"

definition rl_pipeline :: "settings \<Rightarrow> string \<Rightarrow> string \<Rightarrow> rat \<Rightarrow> redis_cmd list" where
  "rl_pipeline s key member now =
     [ZRemRangeByScore key 0 (now - of_int (RATE_LIMIT_WINDOW_SECONDS s)), ZAdd key member now, ZCard key,
      Expire key (RATE_LIMIT_WINDOW_SECONDS s)]"

datatype rl_reply = Unreachable | Counted int

definition rl_count ::
    "'w redis \<Rightarrow> settings \<Rightarrow> rat \<Rightarrow> string \<Rightarrow> int \<Rightarrow> 'w \<Rightarrow> (exn + rl_reply) \<times> 'w" where
  "rl_count exec s now member virtual_key_id w =
     (case exec (rl_pipeline s (rl_key virtual_key_id) member now) w of
        (Inl m, w') \<Rightarrow> (Inr Unreachable, w')
      | (Inr [r1, r2, RInt count, r4], w') \<Rightarrow> (Inr (Counted count), w')
      | (Inr rs, w') \<Rightarrow> (Inl TypeErr, w'))"

text \<open>Redis unreachable: \<open>RATE_LIMIT_FAIL_OPEN\<close> decides, and an admitted request is told no false quota.\<close>

definition rl_fallback :: "settings \<Rightarrow> rate_limit_status" where
  "rl_fallback s =
     \<lparr>rl_allowed = RATE_LIMIT_FAIL_OPEN s, rl_limit = RATE_LIMIT_REQUESTS s,
      rl_remaining = (if RATE_LIMIT_FAIL_OPEN s then RATE_LIMIT_REQUESTS s else 0),
      rl_window = RATE_LIMIT_WINDOW_SECONDS s\<rparr>"

definition rl_verdict :: "settings \<Rightarrow> int \<Rightarrow> rate_limit_status" where
  "rl_verdict s count =
     (let allowed = (count \<le> RATE_LIMIT_REQUESTS s)
      in \<lparr>rl_allowed = allowed, rl_limit = RATE_LIMIT_REQUESTS s,
          rl_remaining = (if allowed then max 0 (RATE_LIMIT_REQUESTS s - count) else 0),
          rl_window = RATE_LIMIT_WINDOW_SECONDS s\<rparr>)"

text \<open>A failed rollback is logged and ignored.\<close>

definition rl_rollback :: "'w redis \<Rightarrow> int \<Rightarrow> string \<Rightarrow> 'w \<Rightarrow> 'w" where
  "rl_rollback exec virtual_key_id member w = snd (exec [ZRem (rl_key virtual_key_id) member] w)"

definition check_rate_limit_status ::
    "'w redis \<Rightarrow> settings \<Rightarrow> rat \<Rightarrow> string \<Rightarrow> string \<Rightarrow> int \<Rightarrow> 'w \<Rightarrow> (exn + rate_limit_status) \<times> 'w" where
  "check_rate_limit_status exec s now now_repr token virtual_key_id w =
     (let member = rl_member now_repr token
      in case rl_count exec s now member virtual_key_id w of
           (Inl e, w1) \<Rightarrow> (Inl e, w1)
         | (Inr Unreachable, w1) \<Rightarrow> (Inr (rl_fallback s), w1)
         | (Inr (Counted count), w1) \<Rightarrow>
             (Inr (rl_verdict s count),
              if rl_allowed (rl_verdict s count) then w1 else rl_rollback exec virtual_key_id member w1))"

definition check_rate_limit ::
    "'w redis \<Rightarrow> settings \<Rightarrow> rat \<Rightarrow> string \<Rightarrow> string \<Rightarrow> int \<Rightarrow> 'w \<Rightarrow> (exn + bool) \<times> 'w" where
  "check_rate_limit exec s now now_repr token virtual_key_id w =
     (case check_rate_limit_status exec s now now_repr token virtual_key_id w of
        (Inl e, w') \<Rightarrow> (Inl e, w')
      | (Inr st, w') \<Rightarrow> (Inr (rl_allowed st), w'))"

subsection \<open>Concurrent requests of one key\<close>

text \<open>
  \<open>rl_pending\<close> are the rejected members whose rollback has not run yet; \<open>rl_accepted\<close> is the history of
  requests admitted by a count, \<open>rl_open\<close> of those admitted because Redis gave no answer, with their clock readings.  A step is the pipeline of an arriving request
  (whose clock was read at most \<open>skew\<close> before the server executes it, and whose member is new), a
  rollback, or anything that leaves the key alone while time passes.
\<close>

record 'w rl_conf =
  rl_world :: 'w
  rl_pending :: "string list"
  rl_accepted :: "(string \<times> rat) list"
  rl_open :: "(string \<times> rat) list"

definition rl_arrive :: "settings \<Rightarrow> rat \<Rightarrow> string \<Rightarrow> rl_reply \<Rightarrow> 'w \<Rightarrow> 'w rl_conf \<Rightarrow> 'w rl_conf" where
  "rl_arrive s now member v w' c =
     (case v of
        Unreachable \<Rightarrow>
          if rl_allowed (rl_fallback s) then c\<lparr>rl_world := w', rl_open := rl_open c @ [(member, now)]\<rparr>
          else c\<lparr>rl_world := w'\<rparr>
      | Counted n \<Rightarrow>
          if rl_allowed (rl_verdict s n) then c\<lparr>rl_world := w', rl_accepted := rl_accepted c @ [(member, now)]\<rparr>
          else c\<lparr>rl_world := w', rl_pending := rl_pending c @ [member]\<rparr>)"

inductive rl_step ::
    "'w redis \<Rightarrow> ('w \<Rightarrow> keyspace) \<Rightarrow> ('w \<Rightarrow> rat) \<Rightarrow> settings \<Rightarrow> int \<Rightarrow> rat \<Rightarrow> 'w rl_conf \<Rightarrow> 'w rl_conf \<Rightarrow> bool"
  for exec :: "'w redis" and view :: "'w \<Rightarrow> keyspace" and server_time :: "'w \<Rightarrow> rat"
    and s :: settings and i :: int and skew :: rat where
  Arrive: "rl_step exec view server_time s i skew c (rl_arrive s now member v w' c)"
    if "rl_count exec s now member i (rl_world c) = (Inr v, w')"
      and "now \<le> server_time (rl_world c)" and "server_time (rl_world c) - skew \<le> now"
      and "member \<notin> fst ` set (rl_accepted c)" and "member \<notin> set (rl_pending c)"
| Rollback: "rl_step exec view server_time s i skew c
      (c\<lparr>rl_world := rl_rollback exec i member (rl_world c), rl_pending := remove1 member (rl_pending c)\<rparr>)"
    if "member \<in> set (rl_pending c)"
| Elsewhere: "rl_step exec view server_time s i skew c (c\<lparr>rl_world := w'\<rparr>)"
    if "view w' (rl_key i) = view (rl_world c) (rl_key i)" and "server_time (rl_world c) \<le> server_time w'"

text \<open>Each admitted request found fewer than \<open>limit\<close> earlier ones less than \<open>width\<close> before it.\<close>

definition paced :: "int \<Rightarrow> rat \<Rightarrow> (string \<times> rat) list \<Rightarrow> bool" where
  "paced limit width acc \<longleftrightarrow>
     (\<forall>us m t vs. acc = us @ (m, t) # vs \<longrightarrow> int (length (filter (\<lambda>a. t - width < snd a) us)) < limit)"

lemma paced_Nil [simp]: "paced l v []"
  by (simp add: paced_def)

lemma paced_snoc:
  "paced l v (acc @ [(m, t)]) \<longleftrightarrow> paced l v acc \<and> int (length (filter (\<lambda>a. t - v < snd a) acc)) < l"
    (is "?L \<longleftrightarrow> ?R")
proof
  assume L: ?L
  have "int (length (filter (\<lambda>a. t - v < snd a) acc)) < l"
    using L unfolding paced_def by blast
  moreover have "paced l v acc"
    unfolding paced_def
  proof (intro allI impI)
    fix us m' t' vs assume "acc = us @ (m', t') # vs"
    then have "acc @ [(m, t)] = us @ (m', t') # (vs @ [(m, t)])" by simp
    with L show "int (length (filter (\<lambda>a. t' - v < snd a) us)) < l" unfolding paced_def by blast
  qed
  ultimately show ?R by simp
next
  assume R: ?R
  show ?L
    unfolding paced_def
  proof (intro allI impI)
    fix us m' t' vs assume eq: "acc @ [(m, t)] = us @ (m', t') # vs"
    show "int (length (filter (\<lambda>a. t' - v < snd a) us)) < l"
    proof (cases vs rule: rev_cases)
      case Nil
      with eq R show ?thesis by simp
    next
      case (snoc ws x)
      with eq have "acc = us @ (m', t') # ws" by simp
      with R show ?thesis unfolding paced_def by blast
    qed
  qed
qed

text \<open>Hence no window of that width, wherever it lies, holds more than \<open>limit\<close> admitted requests.\<close>

lemma paced_window:
  assumes "paced l v acc" and "0 \<le> l"
  shows "int (length (filter (\<lambda>a. x - v < snd a \<and> snd a \<le> x) acc)) \<le> l"
  using assms
proof (induction acc rule: rev_induct)
  case (snoc a acc)
  obtain m t where a: "a = (m, t)" by (cases a)
  show ?case
  proof (cases "x - v < t \<and> t \<le> x")
    case True
    have "length (filter (\<lambda>a. x - v < snd a \<and> snd a \<le> x) acc) \<le> length (filter (\<lambda>a. t - v < snd a) acc)"
      using True by (auto simp: length_filter_conv_card intro!: card_mono)
    with snoc.prems True a show ?thesis by (simp add: paced_snoc)
  next
    case False
    with snoc a show ?thesis by (auto simp: paced_snoc)
  qed
qed simp

subsection \<open>The pipeline on the keyspace\<close>

definition zset_of :: "rat \<Rightarrow> keyspace \<Rightarrow> string \<Rightarrow> (string \<times> rat) list" where
  "zset_of t ks k = (case live t ks k of Some (RZset zs) \<Rightarrow> zs | _ \<Rightarrow> [])"

definition zset_key :: "keyspace \<Rightarrow> string \<Rightarrow> bool" where
  "zset_key ks k \<longleftrightarrow>
     (case ks k of None \<Rightarrow> True | Some (RZset zs, dl) \<Rightarrow> distinct (map fst zs) | Some (RString x, dl) \<Rightarrow> False)"

definition kept :: "settings \<Rightarrow> rat \<Rightarrow> (string \<times> rat) list \<Rightarrow> (string \<times> rat) list" where
  "kept s now zs = filter (\<lambda>ms. \<not> (0 \<le> snd ms \<and> snd ms \<le> now - of_int (RATE_LIMIT_WINDOW_SECONDS s))) zs"

lemma live_put [simp]:
  "live t (ks(k \<mapsto> (v, None))) k = Some v"
  "dl > t \<Longrightarrow> live t (ks(k \<mapsto> (v, Some dl))) k = Some v"
  "live t (ks(k := None)) k = None"
  by (simp_all add: live_def)

lemma live_deadline:
  "live t ks k = Some v \<Longrightarrow> live t (ks(k \<mapsto> (v', deadline ks k))) k = Some v'"
  by (auto simp: live_def deadline_def split: option.splits if_splits)

lemma zset_key_with:
  "zset_key ks k \<Longrightarrow>
     with_zset t ks k f = f (zset_of t ks k) (if live t ks k = None then None else deadline ks k)"
  by (auto simp: with_zset_def zset_of_def zset_key_def live_def
      split: option.splits redis_value.splits prod.splits if_splits)

lemma zset_key_put: "distinct (map fst zs) \<Longrightarrow> zset_key (put_zset k zs dl ks) k"
  by (auto simp: zset_key_def put_zset_def)

lemma zset_of_put:
  "zset_of t (put_zset k zs (if live t ks k = None then None else deadline ks k) ks) k = zs"
  by (cases "live t ks k") (auto simp: zset_of_def put_zset_def live_deadline)

lemma distinct_zset_of: "zset_key ks k \<Longrightarrow> distinct (map fst (zset_of t ks k))"
  by (auto simp: zset_of_def zset_key_def live_def split: option.splits redis_value.splits prod.splits if_splits)

lemma distinct_kept: "distinct (map fst zs) \<Longrightarrow> distinct (map fst (kept s now zs))"
  unfolding kept_def by (rule distinct_map_filter)

lemma update_not_Nil [simp]: "AList.update m x zs \<noteq> []"
  by (cases zs) auto

lemma zset_of_live: "zset_of t ks k = zs \<Longrightarrow> zs \<noteq> [] \<Longrightarrow> live t ks k = Some (RZset zs)"
  by (auto simp: zset_of_def split: option.splits redis_value.splits)

lemma run_pipeline:
  assumes "zset_key ks k" and "0 < RATE_LIMIT_WINDOW_SECONDS s"
    and new_def: "new = AList.update m now (kept s now (zset_of t ks k))"
  shows "\<exists>a b. run_cmds t (rl_pipeline s k m now) ks =
      ([RInt a, RInt b, RInt (int (length new)), RInt 1],
       ks(k \<mapsto> (RZset new, Some (t + of_int (RATE_LIMIT_WINDOW_SECONDS s)))))"
proof -
  define dl where "dl = (if live t ks k = None then None else deadline ks k)"
  define ks1 where "ks1 = put_zset k (kept s now (zset_of t ks k)) dl ks"
  define dl1 where "dl1 = (if live t ks1 k = None then None else deadline ks1 k)"
  define ks2 where "ks2 = put_zset k new dl1 ks1"
  have d: "distinct (map fst (kept s now (zset_of t ks k)))"
    by (intro distinct_kept distinct_zset_of assms(1))
  have z1: "zset_key ks1 k" unfolding ks1_def by (rule zset_key_put) (rule d)
  have z2: "zset_key ks2 k" unfolding ks2_def by (rule zset_key_put) (simp add: new_def distinct_update d)
  have of1: "zset_of t ks1 k = kept s now (zset_of t ks k)"
    unfolding ks1_def dl_def by (rule zset_of_put)
  have of2: "zset_of t ks2 k = new" unfolding ks2_def dl1_def by (rule zset_of_put)
  then have live2: "live t ks2 k = Some (RZset new)"
    by (rule zset_of_live) (simp add: new_def)
  have c1: "\<exists>a. run_cmd t (ZRemRangeByScore k 0 (now - of_int (RATE_LIMIT_WINDOW_SECONDS s))) ks = (RInt a, ks1)"
    by (simp add: zset_key_with [OF assms(1)] Let_def ks1_def dl_def kept_def)
  have c2: "\<exists>b. run_cmd t (ZAdd k m now) ks1 = (RInt b, ks2)"
    by (simp add: zset_key_with [OF z1] of1 ks2_def dl1_def new_def)
  have c3: "run_cmd t (ZCard k) ks2 = (RInt (int (length new)), ks2)"
    by (simp add: zset_key_with [OF z2] of2)
  have "ks2(k \<mapsto> v) = ks(k \<mapsto> v)" for v
    by (simp add: ks2_def ks1_def put_zset_def)
  then have c4: "run_cmd t (Expire k (RATE_LIMIT_WINDOW_SECONDS s)) ks2 =
      (RInt 1, ks(k \<mapsto> (RZset new, Some (t + of_int (RATE_LIMIT_WINDOW_SECONDS s)))))"
    using assms(2) by (simp add: live2)
  from c1 c2 c3 c4 show ?thesis
    by (auto simp: rl_pipeline_def simp del: run_cmd.simps)
qed

lemma update_keep: "a \<in> set zs \<Longrightarrow> fst a \<noteq> m \<Longrightarrow> a \<in> set (AList.update m x zs)"
  by (induction zs) auto

lemma update_new: "(m, x) \<in> set (AList.update m x zs)"
  by (induction zs) auto

subsection \<open>The invariant of concurrent requests\<close>

definition rl_inv :: "('w \<Rightarrow> keyspace) \<Rightarrow> ('w \<Rightarrow> rat) \<Rightarrow> settings \<Rightarrow> int \<Rightarrow> rat \<Rightarrow> 'w rl_conf \<Rightarrow> bool" where
  "rl_inv view server_time s i skew c \<longleftrightarrow>
     zset_key (view (rl_world c)) (rl_key i) \<and>
     distinct (map fst (rl_accepted c)) \<and>
     fst ` set (rl_accepted c) \<inter> set (rl_pending c) = {} \<and>
     (\<forall>a \<in> set (rl_accepted c). snd a \<le> server_time (rl_world c)) \<and>
     (\<forall>a \<in> set (rl_accepted c). server_time (rl_world c) - of_int (RATE_LIMIT_WINDOW_SECONDS s) < snd a \<longrightarrow>
        (\<exists>zs dl. view (rl_world c) (rl_key i) = Some (RZset zs, Some dl) \<and> a \<in> set zs \<and>
                 snd a + of_int (RATE_LIMIT_WINDOW_SECONDS s) \<le> dl)) \<and>
     paced (RATE_LIMIT_REQUESTS s) (of_int (RATE_LIMIT_WINDOW_SECONDS s) - skew) (rl_accepted c)"

lemma recent_in_zset:
  assumes "rl_inv view server_time s i skew c" and "a \<in> set (rl_accepted c)"
    and "server_time (rl_world c) - of_int (RATE_LIMIT_WINDOW_SECONDS s) < snd a"
  shows "a \<in> set (zset_of (server_time (rl_world c)) (view (rl_world c)) (rl_key i))"
proof -
  from assms obtain zs dl where
    zs: "view (rl_world c) (rl_key i) = Some (RZset zs, Some dl)" "a \<in> set zs"
        "snd a + of_int (RATE_LIMIT_WINDOW_SECONDS s) \<le> dl"
    unfolding rl_inv_def by blast
  then show ?thesis using assms(3) by (simp add: zset_of_def live_def)
qed

text \<open>What the pipeline leaves: every recent accepted request, under a deadline that outlives it.\<close>

lemma pipeline_keeps_recent:
  assumes inv: "rl_inv view server_time s i skew c" and w: "0 < RATE_LIMIT_WINDOW_SECONDS s"
    and a: "a \<in> set (rl_accepted c)" "server_time (rl_world c) - of_int (RATE_LIMIT_WINDOW_SECONDS s) < snd a"
    and m: "member \<notin> fst ` set (rl_accepted c)" and now: "now \<le> server_time (rl_world c)"
  shows "a \<in> set (AList.update member now (kept s now
           (zset_of (server_time (rl_world c)) (view (rl_world c)) (rl_key i))))"
proof (rule update_keep)
  show "a \<in> set (kept s now (zset_of (server_time (rl_world c)) (view (rl_world c)) (rl_key i)))"
    using recent_in_zset [OF inv a] a now by (auto simp: kept_def)
  show "fst a \<noteq> member" using a m by blast
qed

lemma rl_inv_pipeline:
  assumes inv: "rl_inv view server_time s i skew c" and w: "0 < RATE_LIMIT_WINDOW_SECONDS s"
    and ks: "view w' = snd (run_cmds (server_time (rl_world c)) (rl_pipeline s (rl_key i) member now) (view (rl_world c)))"
    and t: "server_time (rl_world c) \<le> server_time w'"
    and m: "member \<notin> fst ` set (rl_accepted c)" and now: "now \<le> server_time (rl_world c)"
  shows "rl_inv view server_time s i skew (c\<lparr>rl_world := w'\<rparr>)"
proof -
  let ?t = "server_time (rl_world c)"
  let ?new = "AList.update member now (kept s now (zset_of ?t (view (rl_world c)) (rl_key i)))"
  have z: "zset_key (view (rl_world c)) (rl_key i)" using inv by (simp add: rl_inv_def)
  from run_pipeline [OF z w refl, where m = member and now = now and t = ?t] ks
  have v: "view w' (rl_key i) = Some (RZset ?new, Some (?t + of_int (RATE_LIMIT_WINDOW_SECONDS s)))"
    by auto
  have "distinct (map fst ?new)"
    by (intro distinct_update distinct_kept distinct_zset_of z)
  moreover have "a \<in> set ?new" if "a \<in> set (rl_accepted c)"
      "server_time w' - of_int (RATE_LIMIT_WINDOW_SECONDS s) < snd a" for a
    using pipeline_keeps_recent [OF inv w that(1) _ m now] that(2) t by simp
  moreover have "\<forall>a \<in> set (rl_accepted c). snd a \<le> ?t" using inv by (simp add: rl_inv_def)
  ultimately show ?thesis
    using inv t unfolding rl_inv_def by (auto simp: v zset_key_def intro: order_trans)
qed

lemma rl_inv_elsewhere:
  assumes inv: "rl_inv view server_time s i skew c"
    and "view w' (rl_key i) = view (rl_world c) (rl_key i)" and "server_time (rl_world c) \<le> server_time w'"
  shows "rl_inv view server_time s i skew (c\<lparr>rl_world := w'\<rparr>)"
  using assms unfolding rl_inv_def by (force simp: zset_key_def)

lemma count_bounds_recent:
  assumes inv: "rl_inv view server_time s i skew c" and w: "0 < RATE_LIMIT_WINDOW_SECONDS s"
    and m: "member \<notin> fst ` set (rl_accepted c)" and now: "now \<le> server_time (rl_world c)"
    and skew: "server_time (rl_world c) - skew \<le> now"
  shows "length (filter (\<lambda>a. now - (of_int (RATE_LIMIT_WINDOW_SECONDS s) - skew) < snd a) (rl_accepted c)) <
         length (AList.update member now (kept s now
           (zset_of (server_time (rl_world c)) (view (rl_world c)) (rl_key i))))"
    (is "length ?recent < length ?new")
proof -
  have z: "zset_key (view (rl_world c)) (rl_key i)" using inv by (simp add: rl_inv_def)
  have d: "distinct (map fst ?new)" by (intro distinct_update distinct_kept distinct_zset_of z)
  have "distinct (rl_accepted c)" using inv by (simp add: rl_inv_def distinct_map)
  then have dr: "distinct ((member, now) # ?recent)" using m by force
  have "a \<in> set ?new" if "a \<in> set ?recent" for a
    using pipeline_keeps_recent [OF inv w _ _ m now, of a] that skew by simp
  then have "set ((member, now) # ?recent) \<subseteq> set ?new" using update_new by auto
  then have "card (set ((member, now) # ?recent)) \<le> card (set ?new)" by (intro card_mono) simp_all
  then show ?thesis
    using distinct_card [OF dr] card_length [of ?new] by simp
qed

lemma rl_inv_rollback:
  assumes inv: "rl_inv view server_time s i skew c" and m: "member \<in> set (rl_pending c)"
    and ks: "view w' = view (rl_world c) \<or>
             view w' = snd (run_cmds (server_time (rl_world c)) [ZRem (rl_key i) member] (view (rl_world c)))"
    and t: "server_time (rl_world c) \<le> server_time w'"
  shows "rl_inv view server_time s i skew (c\<lparr>rl_world := w', rl_pending := remove1 member (rl_pending c)\<rparr>)"
proof -
  let ?t = "server_time (rl_world c)" and ?ks = "view (rl_world c)"
  have z: "zset_key ?ks (rl_key i)" using inv by (simp add: rl_inv_def)
  have sub: "set (remove1 member (rl_pending c)) \<subseteq> set (rl_pending c)" by (rule set_remove1_subset)
  have clean: "rl_inv view server_time s i skew (c\<lparr>rl_world := w'\<rparr>)" using ks
  proof
    assume "view w' = ?ks"
    then show ?thesis using rl_inv_elsewhere [OF inv] t by simp
  next
    let ?rest = "filter (\<lambda>ms. fst ms \<noteq> member) (zset_of ?t ?ks (rl_key i))"
    assume "view w' = snd (run_cmds ?t [ZRem (rl_key i) member] ?ks)"
    then have v: "view w' = put_zset (rl_key i) ?rest
        (if live ?t ?ks (rl_key i) = None then None else deadline ?ks (rl_key i)) ?ks"
      by (simp add: zset_key_with [OF z])
    have keep: "\<exists>zs dl. view w' (rl_key i) = Some (RZset zs, Some dl) \<and> a \<in> set zs \<and>
          snd a + of_int (RATE_LIMIT_WINDOW_SECONDS s) \<le> dl"
      if a: "a \<in> set (rl_accepted c)" "server_time w' - of_int (RATE_LIMIT_WINDOW_SECONDS s) < snd a" for a
    proof -
      from a t have r: "?t - of_int (RATE_LIMIT_WINDOW_SECONDS s) < snd a" by simp
      have "a \<in> set (zset_of ?t ?ks (rl_key i))" by (rule recent_in_zset [OF inv a(1) r])
      moreover have "fst a \<noteq> member" using inv a(1) m unfolding rl_inv_def by blast
      ultimately have "a \<in> set ?rest" by simp
      moreover from this have "?rest \<noteq> []" by (metis empty_iff empty_set)
      moreover obtain zs dl where "?ks (rl_key i) = Some (RZset zs, Some dl)"
          "snd a + of_int (RATE_LIMIT_WINDOW_SECONDS s) \<le> dl"
        using inv a(1) r unfolding rl_inv_def by blast
      ultimately show ?thesis
        using r by (auto simp: v put_zset_def live_def deadline_def)
    qed
    have zk: "zset_key (view w') (rl_key i)"
      unfolding v by (intro zset_key_put distinct_map_filter distinct_zset_of z)
    have le: "\<forall>a \<in> set (rl_accepted c). snd a \<le> server_time w'"
      using inv t unfolding rl_inv_def by force
    show ?thesis
      using inv keep zk le unfolding rl_inv_def by simp
  qed
  then show ?thesis using sub unfolding rl_inv_def by auto
qed

context redis_service
begin

lemma rl_count_cases:
  assumes "rl_count exec s now member i w = (Inr v, w')"
    and z: "zset_key (view w) (rl_key i)" and W: "0 < RATE_LIMIT_WINDOW_SECONDS s"
  shows "server_time w \<le> server_time w' \<and>
         (view w' = view w \<or>
          view w' = snd (run_cmds (server_time w) (rl_pipeline s (rl_key i) member now) (view w))) \<and>
         (\<forall>n. v = Counted n \<longrightarrow>
            view w' = snd (run_cmds (server_time w) (rl_pipeline s (rl_key i) member now) (view w)) \<and>
            n = int (length (AList.update member now (kept s now (zset_of (server_time w) (view w) (rl_key i))))))"
proof -
  obtain r where e: "exec (rl_pipeline s (rl_key i) member now) w = (r, w')"
    using assms(1) by (auto simp: rl_count_def split: prod.splits sum.splits list.splits redis_reply.splits)
  show ?thesis
  proof (cases r)
    case (Inl m)
    with e have "v = Unreachable" using assms(1) by (simp add: rl_count_def)
    with e Inl failed [of "rl_pipeline s (rl_key i) member now" w m w'] time_mono' [OF e] show ?thesis by simp
  next
    case (Inr rs)
    with e answered have run: "run_cmds (server_time w) (rl_pipeline s (rl_key i) member now) (view w) = (rs, view w')"
      by blast
    moreover from run_pipeline [OF z W refl, where m = member and now = now and t = "server_time w"] run
    obtain a b where "rs = [RInt a, RInt b,
        RInt (int (length (AList.update member now (kept s now (zset_of (server_time w) (view w) (rl_key i)))))), RInt 1]"
      by auto
    ultimately show ?thesis using e Inr assms(1) time_mono' [OF e] by (auto simp: rl_count_def)
  qed
qed

lemma rl_inv_step:
  assumes "rl_step exec view server_time s i skew c c'"
    and inv: "rl_inv view server_time s i skew c" and W: "0 < RATE_LIMIT_WINDOW_SECONDS s"
  shows "rl_inv view server_time s i skew c'"
  using assms(1)
proof cases
  case (Arrive now member v w')
  have z: "zset_key (view (rl_world c)) (rl_key i)" using inv by (simp add: rl_inv_def)
  note count = rl_count_cases [OF Arrive(2) z W]
  have step: "rl_inv view server_time s i skew (c\<lparr>rl_world := w'\<rparr>)"
    using count rl_inv_elsewhere [OF inv, of w'] rl_inv_pipeline [OF inv W, of w' member now] Arrive by auto
  show ?thesis
  proof (cases v)
    case Unreachable
    with step show ?thesis by (simp add: Arrive rl_arrive_def rl_inv_def)
  next
    case (Counted n)
    let ?new = "AList.update member now (kept s now (zset_of (server_time (rl_world c)) (view (rl_world c)) (rl_key i)))"
    from Counted count have n: "n = int (length ?new)"
      and v: "view w' = snd (run_cmds (server_time (rl_world c)) (rl_pipeline s (rl_key i) member now) (view (rl_world c)))"
      by auto
    show ?thesis
    proof (cases "rl_allowed (rl_verdict s n)")
      case False
      with step Arrive show ?thesis by (auto simp: Counted rl_arrive_def rl_inv_def)
    next
      case True
      then have "int (length (filter (\<lambda>a. now - (of_int (RATE_LIMIT_WINDOW_SECONDS s) - skew) < snd a) (rl_accepted c)))
          < RATE_LIMIT_REQUESTS s"
        using count_bounds_recent [OF inv W, of member now] Arrive by (simp add: n rl_verdict_def Let_def)
      moreover have "view w' (rl_key i) =
          Some (RZset ?new, Some (server_time (rl_world c) + of_int (RATE_LIMIT_WINDOW_SECONDS s)))"
        using run_pipeline [OF z W refl, where m = member and now = now and t = "server_time (rl_world c)"] v
        by auto
      ultimately show ?thesis
        using step Arrive True update_new [of member now] count
        by (auto simp: Counted rl_arrive_def rl_inv_def paced_snoc)
    qed
  qed
next
  case (Rollback member)
  obtain r w' where e: "exec [ZRem (rl_key i) member] (rl_world c) = (r, w')" by fastforce
  then have "view w' = view (rl_world c) \<or>
      view w' = snd (run_cmds (server_time (rl_world c)) [ZRem (rl_key i) member] (view (rl_world c)))"
    by (rule outcome)
  from rl_inv_rollback [OF inv Rollback(2) this time_mono' [OF e]] show ?thesis
    by (simp add: Rollback rl_rollback_def e)
next
  case (Elsewhere w')
  then show ?thesis using rl_inv_elsewhere [OF inv] by simp
qed

lemma rl_inv_reachable:
  assumes "(rl_step exec view server_time s i skew)\<^sup>*\<^sup>* c c'"
    and "rl_inv view server_time s i skew c" and "0 < RATE_LIMIT_WINDOW_SECONDS s"
  shows "rl_inv view server_time s i skew c'"
  using assms by (induction rule: rtranclp_induct) (simp_all add: rl_inv_step)

lemma check_answered:
  assumes z: "zset_key (view w) (rl_key i)" and W: "0 < RATE_LIMIT_WINDOW_SECONDS s"
    and e: "exec (rl_pipeline s (rl_key i) (rl_member now_repr token) now) w = (Inr rs, w1)"
    and fresh: "rl_member now_repr token \<notin> fst ` set (kept s now (zset_of (server_time w) (view w) (rl_key i)))"
  shows "check_rate_limit_status exec s now now_repr token i w =
      (let n = int (length (kept s now (zset_of (server_time w) (view w) (rl_key i)))) + 1
       in (Inr (rl_verdict s n),
           if n \<le> RATE_LIMIT_REQUESTS s then w1 else rl_rollback exec i (rl_member now_repr token) w1)) \<and>
    view w1 (rl_key i) = Some (RZset (kept s now (zset_of (server_time w) (view w) (rl_key i)) @ [(rl_member now_repr token, now)]),
      Some (server_time w + of_int (RATE_LIMIT_WINDOW_SECONDS s)))"
proof -
  from answered [OF e] run_pipeline [OF z W refl, where m = "rl_member now_repr token" and now = now and t = "server_time w"]
  show ?thesis
    by (auto simp: check_rate_limit_status_def rl_count_def e rl_verdict_def Let_def update_fresh [OF fresh])
qed

lemma rollback_answered:
  assumes "view w (rl_key i) = Some (RZset (zs @ [(m, x)]), Some dl)" and "m \<notin> fst ` set zs"
    and "server_time w < dl" and "exec [ZRem (rl_key i) m] w = (Inr rs, w')"
  shows "view w' (rl_key i) = (if zs = [] then None else Some (RZset zs, Some dl))"
proof -
  have "filter (\<lambda>ms. fst ms \<noteq> m) zs = zs" using assms(2) by (force simp: filter_id_conv)
  then show ?thesis
    using assms(1,3) answered_view [OF assms(4)]
    by (simp add: with_zset_def live_def put_zset_def deadline_def)
qed

end

subsection \<open>Properties\<close>

text \<open>A limiter that fails closed admits nothing without a count.\<close>

lemma none_uncounted:
  assumes "(rl_step exec view server_time s i skew)\<^sup>*\<^sup>* c c'" and "\<not> RATE_LIMIT_FAIL_OPEN s"
  shows "rl_open c' = rl_open c"
  using assms(1)
proof induction
  case (step c1 c2)
  from step.hyps(2) have "rl_open c2 = rl_open c1"
    by cases (auto simp: rl_arrive_def rl_fallback_def assms(2) split: rl_reply.splits)
  with step.IH show ?case by simp
qed simp

text \<open>
  C20. The limiter never admits more than the limit by a count: however the pipelines, the rollbacks (in any order, late,
  failing) and calls that are lost before or after the server ran them interleave, in every time
  window of the configured width, less the time that may pass between reading the clock and the server executing
  the pipeline, at most \<open>RATE_LIMIT_REQUESTS\<close> requests of a key have been admitted by a count.  The only other
  requests admitted are those whose pipeline Redis did not answer (\<open>rl_open\<close>), which no bound holds for, and there are none of
  them unless \<open>RATE_LIMIT_FAIL_OPEN\<close> is set.
\<close>

theorem sliding_window_bound:
  assumes "redis_documented exec view server_time"
    and "0 < RATE_LIMIT_WINDOW_SECONDS s" and "0 \<le> RATE_LIMIT_REQUESTS s"
    and "view w (rl_key i) = None"
    and "(rl_step exec view server_time s i skew)\<^sup>*\<^sup>*
           \<lparr>rl_world = w, rl_pending = [], rl_accepted = [], rl_open = []\<rparr> c"
  shows "int (length (filter (\<lambda>a. x - (of_int (RATE_LIMIT_WINDOW_SECONDS s) - skew) < snd a \<and> snd a \<le> x)
           (rl_accepted c))) \<le> RATE_LIMIT_REQUESTS s \<and>
         (\<not> RATE_LIMIT_FAIL_OPEN s \<longrightarrow> rl_open c = [])"
proof -
  have "rl_inv view server_time s i skew \<lparr>rl_world = w, rl_pending = [], rl_accepted = [], rl_open = []\<rparr>"
    using assms(4) by (simp add: rl_inv_def zset_key_def)
  then have "rl_inv view server_time s i skew c"
    by (rule redis_service.rl_inv_reachable [OF redis_service.intro [OF assms(1)] assms(5) _ assms(2)])
  then show ?thesis using paced_window assms(3) none_uncounted [OF assms(5)] by (simp add: rl_inv_def)
qed

definition one_admitted :: "mem_redis rl_conf" where
  "one_admitted = rl_arrive default_settings 0 ''0:ab'' (Counted 1)
     (snd (rl_count mem_exec default_settings 0 ''0:ab'' 1 mem_start))
     \<lparr>rl_world = mem_start, rl_pending = [], rl_accepted = [], rl_open = []\<rparr>"

theorem sliding_window_bound_witness:
  "length (filter (\<lambda>a. - 60 < snd a \<and> snd a \<le> (0 :: rat)) (rl_accepted one_admitted)) \<le> 60 \<and>
   rl_accepted one_admitted = [(''0:ab'', 0)]"
proof -
  let ?c = "\<lparr>rl_world = mem_start, rl_pending = [], rl_accepted = [], rl_open = []\<rparr>"
  have W: "0 < RATE_LIMIT_WINDOW_SECONDS default_settings" by (simp add: default_settings_def)
  have "zset_key (mem_keys mem_start) (rl_key 1)" by (simp add: zset_key_def mem_start_def)
  from run_pipeline [OF this W refl, where m = "''0:ab''" and now = 0 and t = 0]
  have "fst (rl_count mem_exec default_settings 0 ''0:ab'' 1 mem_start) = Inr (Counted 1)"
    by (auto simp: rl_count_def mem_exec_def mem_start_def Let_def kept_def zset_of_def live_def)
  then have "rl_count mem_exec default_settings 0 ''0:ab'' 1 (rl_world ?c) =
      (Inr (Counted 1), snd (rl_count mem_exec default_settings 0 ''0:ab'' 1 mem_start))"
    by (simp add: prod_eq_iff)
  from rl_step.Arrive [where c = ?c, OF this, of mem_time 0 mem_keys]
  have "rl_step mem_exec mem_keys mem_time default_settings 1 0 ?c one_admitted"
    by (simp add: one_admitted_def mem_start_def)
  then have "(rl_step mem_exec mem_keys mem_time default_settings 1 0)\<^sup>*\<^sup>* ?c one_admitted" by simp
  from sliding_window_bound [OF mem_documented W _ _ this, of 0] show ?thesis
    by (simp add: mem_start_def default_settings_def one_admitted_def rl_arrive_def rl_verdict_def)
qed

text \<open>
  C33. A single check is exact.  When Redis answers, the request is admitted exactly while fewer than the limit are
  recorded in the window, the reported remainder is what is then left, an admitted request is recorded, and a rejected one
  (its rollback answered within the window) leaves the record as the pruning left it: rejections consume no quota.  When
  Redis does not answer, \<open>RATE_LIMIT_FAIL_OPEN\<close> decides.
\<close>

theorem rate_check_exact:
  fixes w :: 'w
  assumes doc: "redis_documented exec view server_time"
    and W: "0 < RATE_LIMIT_WINDOW_SECONDS s" and z: "zset_key (view w) (rl_key i)"
    and recent: "recent = kept s now (zset_of (server_time w) (view w) (rl_key i))"
    and member: "member = rl_member now_repr token" "member \<notin> fst ` set recent"
    and check: "check_rate_limit_status exec s now now_repr token i w = (st, w')"
    and call: "exec (rl_pipeline s (rl_key i) member now) w = (r, w1)"
    and quick: "server_time w1 < server_time w + of_int (RATE_LIMIT_WINDOW_SECONDS s)"
  shows "case r of
      Inl m \<Rightarrow> st = Inr (rl_fallback s) \<and> w' = w1
    | Inr rs \<Rightarrow>
        (\<exists>v. st = Inr v \<and>
           (if int (length recent) < RATE_LIMIT_REQUESTS s
            then rl_allowed v \<and> rl_remaining v = RATE_LIMIT_REQUESTS s - int (length recent) - 1 \<and>
                 (\<exists>dl. view w' (rl_key i) = Some (RZset (recent @ [(member, now)]), dl))
            else \<not> rl_allowed v \<and> rl_remaining v = 0 \<and>
                 (\<forall>rs2. exec [ZRem (rl_key i) member] w1 = (Inr rs2, w') \<longrightarrow>
                    (if recent = [] then view w' (rl_key i) = None
                     else \<exists>dl. view w' (rl_key i) = Some (RZset recent, dl)))))"
proof (cases r)
  case (Inl m)
  with check call show ?thesis
    by (simp add: check_rate_limit_status_def rl_count_def Let_def member(1) [symmetric])
next
  case (Inr rs)
  note service = redis_service.intro [OF doc]
  note exact = redis_service.check_answered [OF service z W]
  have fresh: "rl_member now_repr token \<notin> fst ` set (kept s now (zset_of (server_time w) (view w) (rl_key i)))"
    using member recent by simp
  from exact [OF _ fresh, of rs w1] call member(1) Inr check
  have st: "st = Inr (rl_verdict s (int (length recent) + 1))"
    and w': "w' = (if int (length recent) + 1 \<le> RATE_LIMIT_REQUESTS s then w1 else rl_rollback exec i member w1)"
    and v: "view w1 (rl_key i) = Some (RZset (recent @ [(member, now)]),
              Some (server_time w + of_int (RATE_LIMIT_WINDOW_SECONDS s)))"
    by (simp_all add: recent [symmetric] Let_def)
  show ?thesis
    using redis_service.rollback_answered [OF service v member(2) quick]
    by (auto simp: Inr st w' v rl_verdict_def Let_def)
qed

theorem rate_check_exact_witness:
  "\<exists>st w'. check_rate_limit_status mem_exec default_settings 0 ''0.0'' ''ab'' 1 mem_start = (Inr st, w') \<and>
     rl_allowed st \<and> rl_remaining st = 59 \<and>
     (\<exists>dl. mem_keys w' (rl_key 1) = Some (RZset [(''0.0:ab'', 0)], dl))"
proof -
  let ?m = "rl_member ''0.0'' ''ab''"
  have W: "0 < RATE_LIMIT_WINDOW_SECONDS default_settings" by (simp add: default_settings_def)
  have z: "zset_key (mem_keys mem_start) (rl_key 1)" by (simp add: zset_key_def mem_start_def)
  have none: "[] = kept default_settings 0 (zset_of (mem_time mem_start) (mem_keys mem_start) (rl_key 1))"
    by (simp add: kept_def zset_of_def live_def mem_start_def)
  obtain st w' where check: "check_rate_limit_status mem_exec default_settings 0 ''0.0'' ''ab'' 1 mem_start = (st, w')"
    by fastforce
  obtain r w1 where call: "mem_exec (rl_pipeline default_settings (rl_key 1) ?m 0) mem_start = (r, w1)"
    by fastforce
  from run_pipeline [OF z W refl, where m = ?m and now = 0 and t = 0] call
  have r: "\<exists>rs. r = Inr rs" and t: "mem_time w1 = 0"
    by (auto simp: mem_exec_def mem_start_def Let_def split: if_splits)
  have lim: "RATE_LIMIT_REQUESTS default_settings = 60" "RATE_LIMIT_WINDOW_SECONDS default_settings = 60"
      "mem_time mem_start = 0"
    by (simp_all add: default_settings_def mem_start_def)
  from rate_check_exact [OF mem_documented W z none refl _ check call] r t show ?thesis
    by (auto simp: check lim rl_member_def)
qed

end
