(* ===== verification/Chat_Route.thy ===== *)
theory Chat_Route
  imports Streaming Security Rate_Limiter
begin

text \<open>
  \<open>routers/chat.py\<close>: the chat completions endpoint from the dependencies (authentication is in \<open>Security\<close>,
  the spend cap in \<open>Spend\<close>) to the answer.  A streamed answer is the list of its lines, the exception its
  generator ended with, and the state the process is left in; the client's hanging up in mid-stream is
  \<open>stream_closed\<close>.  The request id of the log context, the clock and the latencies are arguments.
\<close>

subsection \<open>The registry of the process\<close>

definition get_registry :: "registry \<Rightarrow> registry option \<Rightarrow> registry \<times> registry option" where
  \<comment> \<open>the first argument is what \<open>build_registry()\<close> gives\<close>
  "get_registry built cur = (case cur of None \<Rightarrow> (built, Some built) | Some r \<Rightarrow> (r, Some r))"

definition close_registry :: "registry option \<Rightarrow> registry option" where
  "close_registry cur = None"

subsection \<open>Dependencies\<close>

text \<open>\<open>record_failed_request\<close> on the state of the process.\<close>

definition failed :: "int \<Rightarrow> string \<Rightarrow> int \<Rightarrow> string \<Rightarrow> 'w gw \<Rightarrow> 'w gw" where
  "failed virtual_key_id model latency_ms error_type g =
     (case record_failed_request virtual_key_id [] model latency_ms error_type (gw_prom g, gw_tasks g) of
        (p, ts) \<Rightarrow> g\<lparr>gw_prom := p, gw_tasks := ts\<rparr>)"

definition rate_headers :: "rate_limit_status \<Rightarrow> (string \<times> string) list" where
  "rate_headers st =
     [(''X-RateLimit-Limit'', str_int (rl_limit st)), (''X-RateLimit-Remaining'', str_int (rl_remaining st)),
      (''X-RateLimit-Reset'', str_int (rl_window st))]"

definition enforce_rate_limit ::
    "settings \<Rightarrow> int \<Rightarrow> rate_limit_status \<Rightarrow> 'w gw \<Rightarrow> (exn + (string \<times> string) list) \<times> 'w gw" where
  "enforce_rate_limit s virtual_key_id st g =
     (if \<not> rl_allowed st then
        (Inl (HttpExn
           \<lparr>status_code = 429, detail = ErrorDetail ''Rate limit exceeded'' ''rate_limit_error'' None,
            exc_headers = (''Retry-After'', str_int (RATE_LIMIT_WINDOW_SECONDS s)) # rate_headers st\<rparr>),
         failed virtual_key_id [] 0 ''rate_limited'' g)
      else (Inr (rate_headers st), g))"

subsection \<open>Errors\<close>

definition classify_upstream_error ::
    "provider_error option \<Rightarrow> nat \<times> string \<times> string \<times> string option" where
  "classify_upstream_error lst =
     (case lst of
        Some (ProviderTimeoutError m p) \<Rightarrow> (504, ''timeout_error'', ''Upstream provider timed out: '' @ m, None)
      | Some (ProviderAuthError m p) \<Rightarrow> (502, ''auth_error'', ''Upstream provider auth failed: '' @ m, None)
      | Some (ProviderRateLimitedError m p ra) \<Rightarrow>
          (502, ''rate_limit_error'', ''Upstream provider rate limited: '' @ m, ra)
      | Some (ProviderError m p) \<Rightarrow> (502, ''upstream_error'', ''Upstream provider error: '' @ m, None)
      | None \<Rightarrow> (502, ''upstream_error'', ''No provider available'', None))"

definition missing_model :: "string \<Rightarrow> string" where
  "missing_model model = ''Model '' @ [CHR 0x27] @ model @ [CHR 0x27] @ '' does not exist''"

definition model_not_found :: "string \<Rightarrow> exn" where
  "model_not_found model =
     HttpExn \<lparr>status_code = 404, detail = ErrorDetail (missing_model model) ''model_not_found'' None, exc_headers = []\<rparr>"

definition enforce_max_tokens :: "settings \<Rightarrow> chat_request \<Rightarrow> exn + chat_request" where
  "enforce_max_tokens s body =
     (let limit = MAX_TOKENS_PER_REQUEST s
      in case max_tokens body of
           Some n \<Rightarrow>
             (if limit < n then
                Inl (HttpExn
                  \<lparr>status_code = 400,
                   detail = ErrorDetail
                     (''max_tokens ('' @ str_int n @ '') exceeds the configured limit ('' @ str_int limit @ '')'')
                     ''invalid_request_error'' None,
                   exc_headers = []\<rparr>)
              else Inr body)
         | None \<Rightarrow> Inr (body\<lparr>max_tokens := Some limit\<rparr>))"

definition reject_unknown_streaming_model ::
    "chat_request \<Rightarrow> registry \<Rightarrow> int \<Rightarrow> int \<Rightarrow> 'w gw \<Rightarrow> exn option \<times> 'w gw" where
  "reject_unknown_streaming_model body r virtual_key_id latency_ms g =
     (if streaming_model_known r (req_model body) then (None, g)
      else (Some (model_not_found (req_model body)),
            failed virtual_key_id (req_model body) latency_ms ''model_not_found'' g))"

text \<open>The event of an error; the request id of the log context is added when there is one.\<close>

definition sse_error :: "string option \<Rightarrow> string \<Rightarrow> string \<Rightarrow> string list option \<Rightarrow> string option \<Rightarrow> string" where
  "sse_error request_id message error_type attempted retry_after =
     sse_event (JObj [(''error'', JObj (
       [(''message'', JStr message), (''type'', JStr error_type)]
       @ opt_field ''attempted_providers'' (\<lambda>ps. JArr (map JStr ps)) attempted
       @ opt_field ''retry_after'' JStr retry_after
       @ (if given request_id then opt_field ''request_id'' JStr request_id else [])))])"

subsection \<open>The streamed answer\<close>

record 'w chat_env =
  chat_base :: "'w env"
  chat_stream :: "'w stream_call"
  chat_time :: "'w \<Rightarrow> int"
  chat_request_id :: "string option"
  chat_outside :: "'w \<Rightarrow> 'w \<Rightarrow> bool"

abbreviation exec_of :: "'w chat_env \<Rightarrow> 'w redis" where
  "exec_of ce \<equiv> env_exec (chat_base ce)"

record relay =
  rs_provider :: "provider option"
  rs_usage :: usage
  rs_acc :: accumulator

definition new_relay :: relay where
  "new_relay = \<lparr>rs_provider = None, rs_usage = zero_usage, rs_acc = new_accumulator\<rparr>"

definition relay_line :: "provider \<times> string \<Rightarrow> relay \<Rightarrow> exn + relay" where
  "relay_line pl r =
     bind_res (capture_usage (snd pl) (rs_usage r)) (\<lambda>u.
     bind_res (feed (snd pl) (rs_acc r)) (\<lambda>a.
       Inr \<lparr>rs_provider = (case rs_provider r of None \<Rightarrow> Some (fst pl) | Some p \<Rightarrow> Some p), rs_usage = u, rs_acc = a\<rparr>))"

text \<open>The \<open>async for\<close> loop: a line that cannot be read ends it before it is passed on.\<close>

fun relay_lines :: "(provider \<times> string) list \<Rightarrow> relay \<Rightarrow> string list \<times> (exn + relay)" where
  "relay_lines [] r = ([], Inr r)"
| "relay_lines (pl # pls) r =
     (case relay_line pl r of
        Inl e \<Rightarrow> ([], Inl e)
      | Inr r' \<Rightarrow> (case relay_lines pls r' of (lines, res) \<Rightarrow> (snd pl # lines, res)))"

text \<open>The \<open>except\<close> clauses: what is sent and recorded, or the exception that none of them catches.\<close>

definition stream_failed ::
    "string option \<Rightarrow> chat_request \<Rightarrow> int \<Rightarrow> int \<Rightarrow> exn \<Rightarrow> 'w gw \<Rightarrow> string list \<times> exn option \<times> 'w gw" where
  "stream_failed request_id req vk l e g =
     (case e of
        NoProviderExn x \<Rightarrow>
          (if attempted_providers x = [] then
             ([sse_error request_id (missing_model (req_model req)) ''model_not_found'' None None], None,
              failed vk (req_model req) l ''model_not_found'' g)
           else
             (case classify_upstream_error (last_error x) of
                (st, etype, message, retry_after) \<Rightarrow>
                  ([sse_error request_id message etype (Some (attempted_providers x)) retry_after], None,
                   failed vk (req_model req) l ''upstream_error'' g)))
      | ProviderExn pe \<Rightarrow>
          (case pe of
             ProviderTimeoutError m p \<Rightarrow>
               ([sse_error request_id (''Upstream provider timed out: '' @ m) ''timeout_error'' None None], None,
                failed vk (req_model req) l ''timeout_error'' g)
           | ProviderRateLimitedError m p ra \<Rightarrow>
               ([sse_error request_id (''Upstream provider rate limited: '' @ m) ''rate_limit_error'' None ra], None,
                failed vk (req_model req) l ''rate_limit_error'' g)
           | _ \<Rightarrow>
               ([sse_error request_id (''Upstream provider error: '' @ pe_message pe) ''upstream_error'' None None], None,
                failed vk (req_model req) l ''upstream_error'' g))
      | _ \<Rightarrow> ([], Some e, g))"

text \<open>The \<open>finally\<close> clause after a complete stream.\<close>

definition stream_succeeded ::
    "'w chat_env \<Rightarrow> chat_request \<Rightarrow> int \<Rightarrow> int \<Rightarrow> relay \<Rightarrow> 'w gw \<Rightarrow> exn option \<times> 'w gw" where
  "stream_succeeded ce req vk l r g =
     (case (case rs_provider r of
              None \<Rightarrow> (None, g)
            | Some p \<Rightarrow> schedule_stream_usage vk p (req_model req) (rs_usage r) l g) of
        (Some e, g1) \<Rightarrow> (Some e, g1)
      | (None, g1) \<Rightarrow>
          (if \<not> saw_any_chunk (rs_acc r) then (None, g1)
           else
             (case to_response (chat_time ce (gw_world g1)) (rs_acc r) of
                Inl e \<Rightarrow> (Some e, g1)
              | Inr response \<Rightarrow>
                  (None, g1\<lparr>gw_world :=
                     cache_set (exec_of ce) (env_enc (chat_base ce)) (env_settings (chat_base ce))
                       (request_key (chat_base ce) req vk) response (gw_world g1)\<rparr>))))"

definition stream_replay ::
    "'w chat_env \<Rightarrow> int \<Rightarrow> int \<Rightarrow> chat_response \<Rightarrow> 'w gw \<Rightarrow> string list \<times> exn option \<times> 'w gw" where
  "stream_replay ce vk l cached g =
     (case synthesize_cached_stream (chat_time ce (gw_world g)) cached of
        Inl e \<Rightarrow> ([], Some e, g)
      | Inr lines \<Rightarrow> (lines, schedule_cached_stream_usage vk cached l g))"

definition stream_relayed ::
    "'w chat_env \<Rightarrow> chat_request \<Rightarrow> int \<Rightarrow> int \<Rightarrow> (provider \<times> string) list \<Rightarrow> exn option \<Rightarrow> 'w gw \<Rightarrow>
     string list \<times> exn option \<times> 'w gw" where
  \<comment> \<open>what becomes of the lines \<open>items\<close> of the providers and of the exception \<open>fin\<close> that ended them\<close>
  "stream_relayed ce req vk l items fin g =
     (case relay_lines items new_relay of
        (lines, Inl e) \<Rightarrow>
          (case stream_failed (chat_request_id ce) req vk l e g of
             (extra, x, g1) \<Rightarrow> (lines @ extra, x, g1))
      | (lines, Inr r) \<Rightarrow>
          (case fin of
             Some e \<Rightarrow>
               (case stream_failed (chat_request_id ce) req vk l e g of
                  (extra, x, g1) \<Rightarrow> (lines @ extra, x, g1))
           | None \<Rightarrow> (lines, stream_succeeded ce req vk l r g)))"

definition stream_upstream ::
    "'w chat_env \<Rightarrow> chat_request \<Rightarrow> int \<Rightarrow> int \<Rightarrow> 'w gw \<Rightarrow> string list \<times> exn option \<times> 'w gw" where
  "stream_upstream ce req vk l g =
     (case stream_chat_completion (chat_stream ce) (env_registry (chat_base ce)) req (gw_world g) of
        ((items, fin), w) \<Rightarrow> stream_relayed ce req vk l items fin (g\<lparr>gw_world := w\<rparr>))"

definition stream_response ::
    "'w chat_env \<Rightarrow> chat_request \<Rightarrow> int \<Rightarrow> int \<Rightarrow> 'w gw \<Rightarrow> string list \<times> exn option \<times> 'w gw" where
  "stream_response ce req vk l g =
     (case cache_get (exec_of ce) (env_dec (chat_base ce)) (request_key (chat_base ce) req vk) (gw_prom g, gw_world g) of
        (Some cached, p, w) \<Rightarrow> stream_replay ce vk l cached (g\<lparr>gw_prom := p, gw_world := w\<rparr>)
      | (None, p, w) \<Rightarrow> stream_upstream ce req vk l (g\<lparr>gw_prom := p, gw_world := w\<rparr>))"

text \<open>
  The client hangs up after \<open>n\<close> relayed lines of an upstream stream: the generator is closed at its \<open>yield\<close>, no
  \<open>except\<close> clause applies and \<open>success\<close> is still false in \<open>finally\<close>.
\<close>

definition stream_closed ::
    "'w chat_env \<Rightarrow> nat \<Rightarrow> chat_request \<Rightarrow> int \<Rightarrow> 'w gw \<Rightarrow> string list \<times> 'w gw" where
  "stream_closed ce n req vk g =
     (case cache_get (exec_of ce) (env_dec (chat_base ce)) (request_key (chat_base ce) req vk) (gw_prom g, gw_world g) of
        (Some cached, p, w) \<Rightarrow>
          (case synthesize_cached_stream (chat_time ce w) cached of
             Inl e \<Rightarrow> ([], g\<lparr>gw_prom := p, gw_world := w\<rparr>)
           | Inr lines \<Rightarrow> (take n lines, g\<lparr>gw_prom := p, gw_world := w\<rparr>))
      | (None, p, w) \<Rightarrow>
          (case stream_chat_completion (chat_stream ce) (env_registry (chat_base ce)) req w of
             ((items, fin), w') \<Rightarrow> (fst (relay_lines (take n items) new_relay), g\<lparr>gw_prom := p, gw_world := w'\<rparr>)))"

subsection \<open>The endpoint\<close>

datatype chat_reply =
    JsonReply chat_response "(string \<times> string) list"
  | StreamReply "string list" "exn option" "(string \<times> string) list"

definition stream_headers :: "(string \<times> string) list \<Rightarrow> (string \<times> string) list" where
  "stream_headers injected =
     fold (\<lambda>(k, v) hs. dict_setdefault k v hs) injected
       [(''Cache-Control'', ''no-cache''), (''X-Accel-Buffering'', ''no'')]"

text \<open>The \<open>except\<close> clauses of the non-streaming branch.\<close>

definition chat_failed :: "chat_request \<Rightarrow> int \<Rightarrow> int \<Rightarrow> exn \<Rightarrow> 'w gw \<Rightarrow> exn \<times> 'w gw" where
  "chat_failed body vk l e g =
     (case e of
        NoProviderExn x \<Rightarrow>
          (if attempted_providers x = [] then
             (model_not_found (req_model body), failed vk (req_model body) l ''model_not_found'' g)
           else
             (case classify_upstream_error (last_error x) of
                (st, etype, message, retry_after) \<Rightarrow>
                  (HttpExn
                     \<lparr>status_code = st, detail = ErrorDetail message etype (Some (attempted_providers x)),
                      exc_headers = (if given retry_after then [(''Retry-After'', the retry_after)] else [])\<rparr>,
                   failed vk (req_model body) l ''upstream_error'' g)))
      | ProviderExn pe \<Rightarrow>
          (HttpExn
             \<lparr>status_code = 502,
              detail = ErrorDetail (''Upstream provider error: '' @ pe_message pe) ''upstream_error'' None,
              exc_headers = []\<rparr>,
           failed vk (req_model body) l ''upstream_error'' g)
      | _ \<Rightarrow> (e, g))"

text \<open>\<open>None\<close>: the request waits for another one that never finishes (see \<open>Single_Flight\<close>).\<close>

definition chat_completions ::
    "'w chat_env \<Rightarrow> chat_request \<Rightarrow> int \<Rightarrow> (string \<times> string) list \<Rightarrow> string \<Rightarrow> int \<Rightarrow> 'w gw \<Rightarrow>
     ((exn + chat_reply) \<times> 'w gw) option" where
  "chat_completions ce body0 vk injected token l g =
     (case enforce_max_tokens (env_settings (chat_base ce)) body0 of
        Inl e \<Rightarrow> Some (Inl e, g)
      | Inr body \<Rightarrow>
          (if stream body then
             (case reject_unknown_streaming_model body (env_registry (chat_base ce)) vk l g of
                (Some e, g1) \<Rightarrow> Some (Inl e, g1)
              | (None, g1) \<Rightarrow>
                  (case stream_response ce body vk l g1 of
                     (lines, x, g2) \<Rightarrow> Some (Inr (StreamReply lines x (stream_headers injected)), g2)))
           else
             (case handle_chat_completion (chat_base ce) body vk token l g of
                None \<Rightarrow> None
              | Some (Inr response, g1) \<Rightarrow> Some (Inr (JsonReply response injected), g1)
              | Some (Inl e, g1) \<Rightarrow>
                  (case chat_failed body vk l e g1 of (e', g2) \<Rightarrow> Some (Inl e', g2)))))"

text \<open>
  The whole request, in the order the framework solves the dependencies: authentication, rate limit, spend
  cap, handler.  The clocks and tokens are arguments.
\<close>

record arrival =
  ar_auth :: "string option"
  ar_wall :: rat
  ar_now :: rat
  ar_now_repr :: string
  ar_rl_token :: string
  ar_lock_token :: string
  ar_latency :: int

definition limit_key ::
    "'w chat_env \<Rightarrow> arrival \<Rightarrow> int \<Rightarrow> 'w gw \<Rightarrow> (exn + int \<times> (string \<times> string) list) \<times> 'w gw" where
  \<comment> \<open>\<open>enforce_rate_limit\<close> once the key is known\<close>
  "limit_key ce ar vk g =
     (let s = env_settings (chat_base ce)
      in case check_rate_limit_status (exec_of ce) s (ar_now ar) (ar_now_repr ar) (ar_rl_token ar) vk (gw_world g) of
           (Inl e, w) \<Rightarrow> (Inl e, g\<lparr>gw_world := w\<rparr>)
         | (Inr st, w) \<Rightarrow>
             (case enforce_rate_limit s vk st (g\<lparr>gw_world := w\<rparr>) of
                (Inl e, g1) \<Rightarrow> (Inl e, g1)
              | (Inr injected, g1) \<Rightarrow> (Inr (vk, injected), g1)))"

definition rate_limited ::
    "'w chat_env \<Rightarrow> db \<Rightarrow> arrival \<Rightarrow> 'w gw \<Rightarrow> (exn + int \<times> (string \<times> string) list) \<times> 'w gw" where
  \<comment> \<open>\<open>Depends(enforce_rate_limit)\<close>, which depends on \<open>authenticate_request\<close>\<close>
  "rate_limited ce d ar g =
     (case authenticate_request (env_sha (chat_base ce)) (ar_wall ar) d (ar_auth ar) of
        Inl e \<Rightarrow> (Inl e, g)
      | Inr vk \<Rightarrow> limit_key ce ar vk g)"

definition chat_dependencies ::
    "'w chat_env \<Rightarrow> sql_ops \<Rightarrow> db \<Rightarrow> arrival \<Rightarrow> 'w gw \<Rightarrow> (exn + int \<times> (string \<times> string) list) \<times> 'w gw" where
  "chat_dependencies ce sql d ar g =
     (case rate_limited ce d ar g of
        (Inl e, g1) \<Rightarrow> (Inl e, g1)
      | (Inr (vk, injected), g1) \<Rightarrow>
          (case enforce_spend_cap sql (env_settings (chat_base ce)) d vk of
             Inl e \<Rightarrow> (Inl e, g1)
           | Inr vk' \<Rightarrow> (Inr (vk, injected), g1)))"

definition chat_endpoint ::
    "'w chat_env \<Rightarrow> sql_ops \<Rightarrow> db \<Rightarrow> arrival \<Rightarrow> chat_request \<Rightarrow> 'w gw \<Rightarrow> ((exn + chat_reply) \<times> 'w gw) option" where
  "chat_endpoint ce sql d ar body g =
     (case chat_dependencies ce sql d ar g of
        (Inl e, g1) \<Rightarrow> Some (Inl e, g1)
      | (Inr (vk, injected), g1) \<Rightarrow> chat_completions ce body vk injected (ar_lock_token ar) (ar_latency ar) g1)"

subsection \<open>Lemmas\<close>

lemma failed_tasks [simp]:
  "gw_tasks (failed vk m l t g) = gw_tasks g @ [PersistFailure vk [] m l t]"
  "gw_world (failed vk m l t g) = gw_world g"
  "inflight (failed vk m l t g) = inflight g" "futures (failed vk m l t g) = futures g"
  by (simp_all add: failed_def record_failed_request_def)

lemma account_tasks: "account r g = (None, g') \<Longrightarrow> gw_tasks g' = gw_tasks g @ [PersistUsage r] \<and> gw_world g' = gw_world g"
  by (auto simp: account_def split: prod.splits option.splits)

text \<open>
  The error type a failed stream is recorded with.  The exceptions that reading an upstream's lines may raise are none
  of those the route catches.
\<close>

fun failure_label :: "exn \<Rightarrow> string" where
  "failure_label (NoProviderExn x) = (if attempted_providers x = [] then ''model_not_found'' else ''upstream_error'')"
| "failure_label (ProviderExn (ProviderTimeoutError m p)) = ''timeout_error''"
| "failure_label (ProviderExn (ProviderRateLimitedError m p ra)) = ''rate_limit_error''"
| "failure_label e = ''upstream_error''"

fun uncaught :: "exn \<Rightarrow> bool" where
  "uncaught (ProviderExn e) = False"
| "uncaught (NoProviderExn x) = False"
| "uncaught e = True"

definition error_event :: "string \<Rightarrow> bool" where
  "error_event line \<longleftrightarrow> (\<exists>rid m t att ra. line = sse_error rid m t att ra)"

lemma error_event_sse [simp]: "error_event (sse_error rid m t att ra)"
  unfolding error_event_def by blast

lemma stream_failed_caught:
  assumes "\<not> uncaught e"
  shows "\<exists>event. error_event event \<and>
    stream_failed rid req vk l e g = ([event], None, failed vk (req_model req) l (failure_label e) g)"
  using assms
  by (cases e rule: failure_label.cases)
    (auto simp: stream_failed_def split: provider_error.splits prod.splits)

lemma stream_failed_uncaught: "uncaught e \<Longrightarrow> stream_failed rid req vk l e g = ([], Some e, g)"
  by (cases e) (auto simp: stream_failed_def)

lemma stream_failed_accounts:
  assumes "stream_failed rid req vk l e g = (lines, None, g')"
  shows "\<exists>m t. gw_tasks g' = gw_tasks g @ [PersistFailure vk [] m l t] \<and> length lines = 1"
  using assms stream_failed_caught [of e rid req vk l g] stream_failed_uncaught [of e rid req vk l g]
  by (cases "uncaught e") auto

lemma stream_failed_escapes:
  assumes "stream_failed rid req vk l e g = (lines, Some x, g')"
  shows "x = e \<and> g' = g \<and> lines = []"
  using assms
  by (auto simp: stream_failed_def split: exn.splits provider_error.splits if_splits prod.splits)

lemma relay_line_provider: "relay_line (p, t) r = Inr r' \<Longrightarrow> rs_provider r' \<noteq> None"
  by (auto simp: relay_line_def bind_res_Inr_iff split: option.splits)

text \<open>The serving provider is the one of the first line.\<close>

definition first_provider :: "provider option \<Rightarrow> (provider \<times> string) list \<Rightarrow> provider option" where
  "first_provider o1 pls = (case o1 of Some p \<Rightarrow> Some p | None \<Rightarrow> (case pls of [] \<Rightarrow> None | pl # _ \<Rightarrow> Some (fst pl)))"

lemma first_provider_simps [simp]:
  "first_provider o1 [] = o1" "first_provider (Some p) pls = Some p" "first_provider None (pl # pls) = Some (fst pl)"
  by (simp_all add: first_provider_def split: option.split)

lemma first_provider_step:
  "first_provider (case o1 of None \<Rightarrow> Some (fst pl) | Some p \<Rightarrow> Some p) pls = first_provider o1 (pl # pls)"
  by (cases o1) simp_all

lemma relay_lines_ok:
  "relay_lines pls r = (lines, Inr r') \<Longrightarrow>
     lines = map snd pls \<and>
     rs_provider r' = first_provider (rs_provider r) pls \<and>
     fold_res capture_usage (map snd pls) (rs_usage r) = Inr (rs_usage r') \<and>
     fold_res feed (map snd pls) (rs_acc r) = Inr (rs_acc r')"
proof (induction pls arbitrary: r lines)
  case (Cons pl pls)
  then obtain r1 ls where "relay_line pl r = Inr r1" "relay_lines pls r1 = (ls, Inr r')" "lines = snd pl # ls"
    by (auto split: sum.splits prod.splits)
  with Cons.IH [OF this(2)] show ?case
    by (auto simp: relay_line_def bind_res_Inr_iff first_provider_step)
qed simp

lemma relay_lines_fold:
  "fold_res capture_usage (map snd pls) (rs_usage r) = Inr u \<Longrightarrow> fold_res feed (map snd pls) (rs_acc r) = Inr a \<Longrightarrow>
     relay_lines pls r =
       (map snd pls, Inr \<lparr>rs_provider = first_provider (rs_provider r) pls,
                          rs_usage = u, rs_acc = a\<rparr>)"
proof (induction pls arbitrary: r)
  case (Cons pl pls)
  then obtain u1 a1 where s: "capture_usage (snd pl) (rs_usage r) = Inr u1" "feed (snd pl) (rs_acc r) = Inr a1"
    "fold_res capture_usage (map snd pls) u1 = Inr u" "fold_res feed (map snd pls) a1 = Inr a"
    by (auto simp: bind_res_Inr_iff)
  have "relay_line pl r = Inr \<lparr>rs_provider = (case rs_provider r of None \<Rightarrow> Some (fst pl) | Some p \<Rightarrow> Some p), rs_usage = u1, rs_acc = a1\<rparr>"
    by (simp add: relay_line_def s)
  moreover note Cons.IH [of "\<lparr>rs_provider = (case rs_provider r of None \<Rightarrow> Some (fst pl) | Some p \<Rightarrow> Some p), rs_usage = u1, rs_acc = a1\<rparr>"]
  ultimately show ?case using s by (simp add: first_provider_step)
qed (auto intro: relay.equality)

lemma relay_lines_prefix: "relay_lines pls r = (lines, Inl e) \<Longrightarrow> length lines < length pls"
  by (induction pls arbitrary: r lines) (fastforce split: sum.splits prod.splits)+

lemma stream_replay_accounts:
  assumes "stream_replay ce vk l cached g = (lines, None, g')"
  shows "gw_tasks g' = gw_tasks g @ [PersistUsage (build_usage_record vk CACHE_PROVIDER_NAME free_pricing
           (resp_model cached) (resp_usage cached) l)]"
  using assms account_tasks
  by (auto simp: stream_replay_def schedule_cached_stream_usage_def split: sum.splits)

text \<open>A stream without error delivered something: with nothing delivered the candidates are exhausted.\<close>

lemma try_streams_delivers: "try_streams op ps req att lst w = ((items, None), w') \<Longrightarrow> items \<noteq> []"
  by (induction ps arbitrary: att lst w) (auto split: prod.splits list.splits option.splits exn.splits)

lemma stream_succeeded_accounts:
  assumes "stream_succeeded ce req vk l r g = (None, g')" and "rs_provider r = Some p"
  shows "gw_tasks g' = gw_tasks g @ [PersistUsage (build_usage_record vk (provider_name p)
           (pricing_for (config p) (req_model req)) (req_model req) (rs_usage r) l)]"
  using assms account_tasks
  by (fastforce simp: stream_succeeded_def schedule_stream_usage_def split: prod.splits option.splits sum.splits if_splits)

subsection \<open>A concrete process, for examples\<close>

text \<open>Redis is down and the limiter fails open; the provider streams the given lines.\<close>

definition demo_chat :: "string list \<Rightarrow> unit chat_env" where
  "demo_chat ls =
     \<lparr>chat_base = down_env\<lparr>env_sha := (\<lambda>raw. ''h''), env_settings := default_settings\<lparr>RATE_LIMIT_FAIL_OPEN := True\<rparr>\<rparr>,
      chat_stream = (\<lambda>p req w. ((ls, None), w)), chat_time = (\<lambda>w. 0), chat_request_id = None,
      chat_outside = (\<lambda>w w'. True)\<rparr>"

definition demo_arrival :: arrival where
  "demo_arrival =
     \<lparr>ar_auth = Some ''Bearer sk-1'', ar_wall = 5, ar_now = 5, ar_now_repr = ''5.0'', ar_rl_token = ''t'',
      ar_lock_token = ''t'', ar_latency = 3\<rparr>"

lemma demo_chat_simps [simp]:
  "env_exec (chat_base (demo_chat ls)) = (\<lambda>cs w. (Inl ''down'', w))" "env_dec (chat_base (demo_chat ls)) = json_dec"
  "env_registry (chat_base (demo_chat ls)) = [(''a'', sample_provider ''a'' 0 [])]"
  "env_settings (chat_base (demo_chat ls)) = default_settings\<lparr>RATE_LIMIT_FAIL_OPEN := True\<rparr>"
  "env_sha (chat_base (demo_chat ls)) = (\<lambda>raw. ''h'')"
  "chat_stream (demo_chat ls) = (\<lambda>p req w. ((ls, None), w))" "chat_request_id (demo_chat ls) = None"
  by (simp_all add: demo_chat_def)

lemma demo_stream_response:
  "stream_response (demo_chat [sse_done]) req vk l (demo_gw ()) =
     ([sse_done], None,
      accounted (build_usage_record vk ''a'' (pricing_for (config (sample_provider ''a'' 0 [])) (req_model req))
        (req_model req) zero_usage l) (demo_gw () \<lparr>gw_prom := record_cache_event ''error'' empty_prom\<rparr>))"
  using sample_priced [of "''a''" 0 "[]" "req_model req"]
  by (simp add: stream_response_def cache_get_def stream_upstream_def stream_relayed_def stream_chat_completion_def sample_registry_serves
      relay_line_def new_relay_def stream_succeeded_def schedule_stream_usage_def account_ok priced_nonneg_def
      zero_usage_def new_accumulator_def demo_gw_def)

lemma demo_admitted:
  "authenticate_request (\<lambda>raw. ''h'') 5 (capped_db dec_zero) (Some ''Bearer sk-1'') = Inr 7"
  "enforce_spend_cap exact_sql (default_settings\<lparr>RATE_LIMIT_FAIL_OPEN := True\<rparr>) (capped_db dec_zero) 7 = Inr 7"
  "check_rate_limit_status (\<lambda>cs w. (Inl ''down'', w)) (default_settings\<lparr>RATE_LIMIT_FAIL_OPEN := True\<rparr>) t r k 7 w =
     (Inr (rl_fallback (default_settings\<lparr>RATE_LIMIT_FAIL_OPEN := True\<rparr>)), w)"
  by (simp_all add: capped_db_def capped_key_def bearer_key_def py_startswith_def py_strip_def py_space_def
      rstrip_while_def authenticate_request_def authenticate_virtual_key_def get_key_by_hash_def hash_key_def
      is_expired_def enforce_spend_cap_def key_cap_error_def global_cap_error_def get_key_by_id_def default_settings_def
      get_key_spend_usd_def sample_log_def exact_sql_def add_exact_def dec_val_def dec_zero_def
      check_rate_limit_status_def rl_count_def mk_dec_def)

subsection \<open>Properties\<close>

text \<open>
  Nothing happens before admission: a request is handled only as the key its credentials authenticate, after the
  rate limiter admitted it and below every spend cap; any other request gets an error, the outside world
  has seen at most the limiter's check, and nothing is charged.
\<close>

theorem chat_admission:
  assumes "chat_endpoint ce sql d ar body g = Some (res, g')"
  shows "(\<exists>vk st w. authenticate_request (env_sha (chat_base ce)) (ar_wall ar) d (ar_auth ar) = Inr vk \<and>
             check_rate_limit_status (exec_of ce) (env_settings (chat_base ce)) (ar_now ar) (ar_now_repr ar)
               (ar_rl_token ar) vk (gw_world g) = (Inr st, w) \<and> rl_allowed st \<and>
             enforce_spend_cap sql (env_settings (chat_base ce)) d vk = Inr vk \<and>
             chat_completions ce body vk (rate_headers st) (ar_lock_token ar) (ar_latency ar) (g\<lparr>gw_world := w\<rparr>)
               = Some (res, g')) \<or>
         (\<exists>e. res = Inl e \<and>
             (gw_world g' = gw_world g \<or>
              (\<exists>vk r. check_rate_limit_status (exec_of ce) (env_settings (chat_base ce)) (ar_now ar) (ar_now_repr ar)
                 (ar_rl_token ar) vk (gw_world g) = (r, gw_world g'))) \<and>
             (gw_tasks g' = gw_tasks g \<or>
              (\<exists>vk. gw_tasks g' = gw_tasks g @ [PersistFailure vk [] [] 0 ''rate_limited''])))"
proof (cases "authenticate_request (env_sha (chat_base ce)) (ar_wall ar) d (ar_auth ar)")
  case (Inl e)
  then show ?thesis using assms by (auto simp: chat_endpoint_def chat_dependencies_def rate_limited_def limit_key_def Let_def)
next
  case (Inr vk)
  obtain r w where c: "check_rate_limit_status (exec_of ce) (env_settings (chat_base ce)) (ar_now ar) (ar_now_repr ar)
      (ar_rl_token ar) vk (gw_world g) = (r, w)" by fastforce
  show ?thesis
  proof (cases r)
    case (Inl e)
    then have "res = Inl e" "g' = g\<lparr>gw_world := w\<rparr>"
      using assms Inr c by (simp_all add: chat_endpoint_def chat_dependencies_def rate_limited_def limit_key_def Let_def)
    then show ?thesis using c by auto
  next
    case st: (Inr st)
    show ?thesis
    proof (cases "rl_allowed st")
      case False
      then obtain e where "res = Inl e" "g' = failed vk [] 0 ''rate_limited'' (g\<lparr>gw_world := w\<rparr>)"
        using assms Inr c st by (auto simp: chat_endpoint_def chat_dependencies_def rate_limited_def limit_key_def Let_def enforce_rate_limit_def)
      then show ?thesis using c by auto
    next
      case True
      show ?thesis
      proof (cases "enforce_spend_cap sql (env_settings (chat_base ce)) d vk")
        case (Inl e)
        then have "res = Inl e" "g' = g\<lparr>gw_world := w\<rparr>"
          using assms Inr c st True by (simp_all add: chat_endpoint_def chat_dependencies_def rate_limited_def limit_key_def Let_def enforce_rate_limit_def)
        then show ?thesis using c by auto
      next
        case cap: (Inr vk')
        then have "vk' = vk" by (auto simp: enforce_spend_cap_def split: option.splits)
        then show ?thesis
          using assms Inr c st True cap by (simp add: chat_endpoint_def chat_dependencies_def rate_limited_def limit_key_def Let_def enforce_rate_limit_def)
      qed
    qed
  qed
qed

lemma demo_endpoint:
  "\<exists>h g'. chat_endpoint (demo_chat [sse_done]) exact_sql (capped_db dec_zero) demo_arrival
     (sample_request\<lparr>stream := True\<rparr>) (demo_gw ()) = Some (Inr (StreamReply [sse_done] None h), g')"
proof -
  have "enforce_max_tokens (default_settings\<lparr>RATE_LIMIT_FAIL_OPEN := True\<rparr>) (sample_request\<lparr>stream := True\<rparr>) =
      Inr (sample_request\<lparr>stream := True, max_tokens := Some (MAX_TOKENS_PER_REQUEST default_settings)\<rparr>)"
    by (simp add: enforce_max_tokens_def sample_request_def)
  then show ?thesis
    by (simp add: chat_endpoint_def chat_dependencies_def rate_limited_def limit_key_def demo_arrival_def demo_admitted rl_fallback_def enforce_rate_limit_def Let_def
        chat_completions_def reject_unknown_streaming_model_def streaming_model_known_def registry_all_def
        sample_provider_def mk_config_def demo_stream_response)
qed

theorem chat_admission_witness:
  "\<exists>vk. authenticate_request (\<lambda>raw. ''h'') 5 (capped_db dec_zero) (Some ''Bearer sk-1'') = Inr vk \<and>
     enforce_spend_cap exact_sql (default_settings\<lparr>RATE_LIMIT_FAIL_OPEN := True\<rparr>) (capped_db dec_zero) vk = Inr vk"
proof -
  obtain h g' where "chat_endpoint (demo_chat [sse_done]) exact_sql (capped_db dec_zero) demo_arrival
     (sample_request\<lparr>stream := True\<rparr>) (demo_gw ()) = Some (Inr (StreamReply [sse_done] None h), g')"
    using demo_endpoint by blast
  from chat_admission [OF this] show ?thesis by (auto simp: demo_arrival_def)
qed

text \<open>
  A failed fallback chain is reported for what it was: the caller gets 404 when no provider was tried, 504
  when the last one timed out and 502 otherwise, with all attempted providers named, and one failure is
  recorded for its key and model.
\<close>

theorem upstream_failure_reported:
  assumes "enforce_max_tokens (env_settings (chat_base ce)) body0 = Inr body" and "\<not> stream body"
    and "handle_chat_completion (chat_base ce) body vk token l g = Some (Inl (NoProviderExn x), g1)"
  shows "\<exists>h g' t. chat_completions ce body0 vk injected token l g = Some (Inl (HttpExn h), g') \<and>
           status_code h = (if attempted_providers x = [] then 404
                            else case last_error x of Some (ProviderTimeoutError m p) \<Rightarrow> 504 | _ \<Rightarrow> 502) \<and>
           (attempted_providers x \<noteq> [] \<longrightarrow> ed_attempted (detail h) = Some (attempted_providers x)) \<and>
           gw_tasks g' = gw_tasks g1 @ [PersistFailure vk [] (req_model body) l t]"
proof (cases "attempted_providers x = []")
  case True
  then show ?thesis
    using assms by (simp add: chat_completions_def chat_failed_def model_not_found_def)
next
  case False
  obtain st etype message ra where c: "classify_upstream_error (last_error x) = (st, etype, message, ra)"
    by (metis prod.exhaust)
  then have "st = (case last_error x of Some (ProviderTimeoutError m p) \<Rightarrow> 504 | _ \<Rightarrow> 502)"
    by (auto simp: classify_upstream_error_def split: option.splits provider_error.splits)
  then show ?thesis using assms False c by (simp add: chat_completions_def chat_failed_def)
qed

theorem upstream_failure_reported_witness:
  "\<exists>h g'. chat_completions (demo_chat [] \<lparr>chat_base := down_env\<lparr>env_registry := []\<rparr>\<rparr>) sample_request 7 [] ''t'' 3 (demo_gw ())
     = Some (Inl (HttpExn h), g') \<and> status_code h = 404"
proof -
  let ?env = "down_env\<lparr>env_registry := []\<rparr>"
  let ?body = "sample_request\<lparr>max_tokens := Some (MAX_TOKENS_PER_REQUEST default_settings)\<rparr>"
  have "drive ?env ?body 7 ''t'' 3 Arrived (demo_gw ()) =
      drive ?env ?body 7 ''t'' 3 (Looked None) (demo_gw () \<lparr>gw_prom := record_cache_event ''error'' empty_prom\<rparr>)"
    by (rule drive_step) (simp_all add: cache_get_def demo_gw_def)
  also have "\<dots> = (Finished (Inl (no_candidates ?body)), demo_gw () \<lparr>gw_prom := record_cache_event ''error'' empty_prom\<rparr>)"
    by (subst drive_step [where p' = "Finished (Inl (no_candidates ?body))"])
      (simp_all add: select_providers_def registry_all_def demo_gw_def)
  finally have run: "handle_chat_completion ?env ?body 7 ''t'' 3 (demo_gw ()) =
      Some (Inl (no_candidates ?body), demo_gw () \<lparr>gw_prom := record_cache_event ''error'' empty_prom\<rparr>)"
    by (simp add: handle_chat_completion_def)
  have max: "enforce_max_tokens (env_settings ?env) sample_request = Inr ?body"
    by (simp add: enforce_max_tokens_def sample_request_def down_env_def)
  obtain x where x: "no_candidates ?body = NoProviderExn x" "attempted_providers x = []"
    by (simp add: no_candidates_def)
  from upstream_failure_reported
    [of "demo_chat [] \<lparr>chat_base := ?env\<rparr>" sample_request ?body 7 "''t''" 3 "demo_gw ()" x, where injected = "[]"]
  show ?thesis using run max x by (auto simp: sample_request_def)
qed

text \<open>What reading a line may raise.\<close>

definition tame :: "exn + 'a \<Rightarrow> bool" where
  "tame x \<longleftrightarrow> (\<forall>e. x = Inl e \<longrightarrow> uncaught e)"

lemma tame_simps [simp]: "tame (Inr a)" "tame (Inl e) \<longleftrightarrow> uncaught e"
  by (simp_all add: tame_def)

lemma tame_bind: "tame x \<Longrightarrow> (\<And>a. tame (f a)) \<Longrightarrow> tame (bind_res x f)"
  by (cases x) simp_all

lemma tame_python [simp]: "tame (py_get x k d)" "tame (to_int v i)" "tame (py_first x)"
proof -
  show "tame (py_get x k d)" using py_get_error [of x k d] by (auto simp: tame_def)
  show "tame (to_int v i)" by (cases v) (auto split: option.splits)
  show "tame (py_first x)" by (cases x) (auto split: list.splits)
qed

lemma tame_lines [simp]: "tame (capture_usage t u)" "tame (feed t a)"
proof -
  show "tame (capture_usage t u)"
    by (auto simp: capture_usage_def intro!: tame_bind split: option.split)
  have "tame (feed_choice cs a)" "tame (feed_usage us a)" for cs us a
    by (auto simp: feed_choice_def feed_usage_def intro!: tame_bind split: json.split)
  then show "tame (feed t a)"
    by (auto simp: feed_def intro!: tame_bind split: option.split)
qed

lemma relay_lines_uncaught: "relay_lines pls r = (ls, Inl e) \<Longrightarrow> uncaught e"
proof (induction pls arbitrary: r ls)
  case (Cons pl pls)
  have "tame (relay_line pl r)" unfolding relay_line_def by (intro tame_bind) simp_all
  with Cons show ?case by (auto simp: tame_def split: sum.splits prod.splits)
qed simp

text \<open>The usage that was reported by an upstream whose lines could all be read.\<close>

definition read_whole :: "(provider \<times> string) list \<Rightarrow> usage option" where
  "read_whole items =
     (case (fold_res capture_usage (map snd items) zero_usage, fold_res feed (map snd items) new_accumulator) of
        (Inr u, Inr a) \<Rightarrow> Some u
      | _ \<Rightarrow> None)"

lemma read_whole_relayed:
  "relay_lines items new_relay = (ls, Inr r) \<Longrightarrow>
     read_whole items = Some (rs_usage r) \<and> ls = map snd items \<and> rs_provider r = first_provider None items"
  using relay_lines_ok [of items new_relay ls r] by (simp add: read_whole_def new_relay_def)

lemma read_whole_cut: "relay_lines items new_relay = (ls, Inl e) \<Longrightarrow> read_whole items = None"
  using relay_lines_fold [of items new_relay]
  by (auto simp: read_whole_def new_relay_def split: sum.splits)

text \<open>The two records of an answer: at no cost from the cache, or priced by the provider that gave it.\<close>

definition cached_bill :: "int \<Rightarrow> int \<Rightarrow> chat_response \<Rightarrow> usage_record" where
  "cached_bill l vk r = build_usage_record vk CACHE_PROVIDER_NAME free_pricing (resp_model r) (resp_usage r) l"

definition provider_bill :: "int \<Rightarrow> int \<Rightarrow> chat_request \<Rightarrow> provider \<Rightarrow> string \<Rightarrow> usage \<Rightarrow> usage_record" where
  "provider_bill l vk req p m u = build_usage_record vk (provider_name p) (pricing_for (config p) (req_model req)) m u l"

lemma stream_relayed_whole:
  assumes "stream_relayed ce req vk l items None g = (lines, x, g')" and "read_whole items = Some u" and "items \<noteq> []"
  shows "lines = map snd items \<and>
    (let b = provider_bill l vk req (fst (hd items)) (req_model req) u
     in gw_tasks g' = gw_tasks g @ (if countable b then [PersistUsage b] else []) \<and> (x = None \<longrightarrow> countable b))"
proof -
  obtain ls res where rl: "relay_lines items new_relay = (ls, res)" by fastforce
  obtain r where r: "res = Inr r" using rl assms(2) by (cases res) (auto dest: read_whole_cut)
  with rl read_whole_relayed [of items ls r] assms(2,3)
  have ok: "ls = map snd items" "rs_usage r = u" "rs_provider r = Some (fst (hd items))"
    by (auto simp: first_provider_def neq_Nil_conv)
  have "stream_succeeded ce req vk l r g = (x, g')" "lines = ls"
    using assms(1) rl r by (simp_all add: stream_relayed_def)
  with ok show ?thesis
    by (auto simp: stream_succeeded_def schedule_stream_usage_def account_countable provider_bill_def Let_def
        split: option.splits prod.splits if_splits sum.splits)
qed

lemma stream_relayed_cut:
  assumes "stream_relayed ce req vk l items fin g = (lines, x, g')" and "fin = None \<longrightarrow> read_whole items = None"
  shows "(case x of
      Some e \<Rightarrow> gw_tasks g' = gw_tasks g
    | None \<Rightarrow>
        (\<exists>exc event. fin = Some exc \<and> error_event event \<and> lines = map snd items @ [event] \<and>
           gw_tasks g' = gw_tasks g @ [PersistFailure vk [] (req_model req) l (failure_label exc)]))"
proof -
  obtain ls res where rl: "relay_lines items new_relay = (ls, res)" by fastforce
  show ?thesis
  proof (cases res)
    case (Inl e)
    with rl relay_lines_uncaught have "uncaught e" by blast
    with assms(1) rl Inl show ?thesis by (auto simp: stream_relayed_def stream_failed_uncaught)
  next
    case (Inr r)
    with rl read_whole_relayed [of items ls r] assms(2) obtain exc where "fin = Some exc" "ls = map snd items"
      by (cases fin) auto
    with assms(1) rl Inr stream_failed_caught [of exc "chat_request_id ce" req vk l g] show ?thesis
      by (cases "uncaught exc") (auto simp: stream_relayed_def stream_failed_uncaught)
  qed
qed

lemma stream_replay_bills:
  assumes "stream_replay ce vk l r g = (lines, x, g')"
  shows "case synthesize_cached_stream (chat_time ce (gw_world g)) r of
      Inl e \<Rightarrow> lines = [] \<and> x = Some e \<and> gw_tasks g' = gw_tasks g
    | Inr ls \<Rightarrow> lines = ls \<and>
        gw_tasks g' = gw_tasks g @ (if countable (cached_bill l vk r) then [PersistUsage (cached_bill l vk r)] else []) \<and>
        (x = None \<longrightarrow> countable (cached_bill l vk r))"
  using assms
  by (auto simp: stream_replay_def schedule_cached_stream_usage_def cached_bill_def account_countable
      dest!: sym [of "account _ _"] split: sum.splits if_splits)

lemma stream_delivers:
  "stream_chat_completion op r req w = ((items, None), w') \<Longrightarrow> items \<noteq> []"
  unfolding stream_chat_completion_def by (rule try_streams_delivers)

text \<open>
  C23. A stream is accounted exactly once, and for what it was: when the generator of a streamed answer ends without an exception, it
  has queued exactly one more record.  A replay sent the lines of the cached response and is recorded at no cost with that
  response's usage; an upstream that ended without an error had all its lines sent, and is recorded with the
  usage they reported, priced by the provider of the first line; any other stream sent its lines and an error event, and
  is recorded as one failure of the kind of the exception that ended it.
\<close>

theorem stream_accounted_once:
  assumes "stream_response ce req vk l g = (lines, None, g')"
  shows "case cache_get (exec_of ce) (env_dec (chat_base ce)) (request_key (chat_base ce) req vk) (gw_prom g, gw_world g) of
      (Some r, p, w) \<Rightarrow>
        synthesize_cached_stream (chat_time ce w) r = Inr lines \<and>
        gw_tasks g' = gw_tasks g @ [PersistUsage (cached_bill l vk r)]
    | (None, p, w) \<Rightarrow>
        (case stream_chat_completion (chat_stream ce) (env_registry (chat_base ce)) req w of
           ((items, None), w') \<Rightarrow>
             lines = map snd items \<and>
             (\<exists>u. fold_res capture_usage lines zero_usage = Inr u \<and>
                gw_tasks g' = gw_tasks g @ [PersistUsage (provider_bill l vk req (fst (hd items)) (req_model req) u)])
         | ((items, Some exc), w') \<Rightarrow>
             (\<exists>event. lines = map snd items @ [event] \<and> error_event event) \<and>
             gw_tasks g' = gw_tasks g @ [PersistFailure vk [] (req_model req) l (failure_label exc)])"
proof -
  obtain c p w where get: "cache_get (exec_of ce) (env_dec (chat_base ce)) (request_key (chat_base ce) req vk)
      (gw_prom g, gw_world g) = (c, p, w)" by (metis prod.exhaust)
  show ?thesis
  proof (cases c)
    case (Some r)
    then have "stream_replay ce vk l r (g\<lparr>gw_prom := p, gw_world := w\<rparr>) = (lines, None, g')"
      using assms get by (simp add: stream_response_def)
    from stream_replay_bills [OF this] show ?thesis using get Some by (auto split: sum.splits)
  next
    case None
    obtain items fin w' where
      st: "stream_chat_completion (chat_stream ce) (env_registry (chat_base ce)) req w = ((items, fin), w')"
      by (metis prod.exhaust)
    have rel: "stream_relayed ce req vk l items fin (g\<lparr>gw_prom := p, gw_world := w'\<rparr>) = (lines, None, g')"
      using assms get None st by (simp add: stream_response_def stream_upstream_def)
    show ?thesis
    proof (cases "fin = None \<and> read_whole items \<noteq> None")
      case True
      then obtain u where u: "fin = None" "read_whole items = Some u" by blast
      then have "fold_res capture_usage (map snd items) zero_usage = Inr u"
        by (auto simp: read_whole_def split: sum.splits)
      with stream_relayed_whole [OF rel [unfolded u(1)] u(2)] stream_delivers st u(1) show ?thesis
        using get None by (fastforce simp: Let_def)
    next
      case False
      with stream_relayed_cut [OF rel] show ?thesis using get None st by (cases fin) auto
    qed
  qed
qed

theorem stream_accounted_once_witness:
  "\<exists>g'. stream_response (demo_chat [sse_done]) sample_request 7 3 (demo_gw ()) = ([sse_done], None, g') \<and>
     gw_tasks g' = [PersistUsage (provider_bill 3 7 sample_request (sample_provider ''a'' 0 []) ''m'' zero_usage)]"
  using stream_accounted_once [OF demo_stream_response [of sample_request 7 3]] demo_stream_response [of sample_request 7 3]
  by (auto simp: cache_get_def stream_chat_completion_def sample_registry_serves sample_request_def demo_gw_def)

text \<open>The two halves of a stream and its replay: a complete stream of chunks, and the stream of a cached response.\<close>

lemma complete_stream:
  assumes miss: "cache_get (exec_of ce) (env_dec (chat_base ce)) (request_key (chat_base ce) req vk)
                 (gw_prom g, gw_world g) = (None, p, w)"
    and up: "stream_chat_completion (chat_stream ce) (env_registry (chat_base ce)) req w =
               ((map (Pair q) (map (chunk_event now) cs @ [sse_done]), None), w1)"
    and cs: "list_all chunk_ok cs" "cs \<noteq> []" "length (re_text (spec_reply cs)) \<le> max_content"
    and priced: "priced_nonneg q (req_model req)"
  shows "\<exists>g'. stream_response ce req vk l g = (map (chunk_event now) cs @ [sse_done], None, g') \<and>
    gw_world g' = cache_set (exec_of ce) (env_enc (chat_base ce)) (env_settings (chat_base ce)) (request_key (chat_base ce) req vk)
      (reply_response (chat_time ce w1) (spec_reply cs)) w1"
proof -
  let ?s = "spec_reply cs" and ?lines = "map (chunk_event now) cs @ [sse_done]"
  let ?g1 = "g\<lparr>gw_prom := p, gw_world := w1\<rparr>"
  let ?fin = "stream_succeeded ce req vk l \<lparr>rs_provider = Some q, rs_usage = re_usage ?s, rs_acc = rep ?s\<rparr> ?g1"
  have nonneg: "usage_nonneg (re_usage ?s)"
    using fold_reply_usage_nonneg [OF cs(1), of no_reply] by (simp add: spec_reply_def zero_usage_def)
  have fe: "fold_res feed ?lines new_accumulator = Inr (rep ?s)"
    and ca: "fold_res capture_usage ?lines zero_usage = Inr (re_usage ?s)"
    by (simp_all add: fold_res_append feed_spec capture_spec cs(1))
  have "?lines = map snd (map (Pair q) ?lines)" by (simp add: comp_def)
  then have relay: "relay_lines (map (Pair q) ?lines) new_relay =
      (?lines, Inr \<lparr>rs_provider = Some q, rs_usage = re_usage ?s, rs_acc = rep ?s\<rparr>)"
    using relay_lines_fold [of "map (Pair q) ?lines" new_relay] fe ca cs(2)
    by (cases cs) (simp_all add: new_relay_def comp_def)
  have seen: "saw_any_chunk (rep ?s)"
    using cs(2) by (cases cs rule: rev_cases) (simp_all add: rep_def spec_reply_def reply_step_def)
  have "stream_upstream ce req vk l (g\<lparr>gw_prom := p, gw_world := w\<rparr>) = (?lines, ?fin)"
    using up relay by (simp add: stream_upstream_def stream_relayed_def Let_def)
  moreover have "fst ?fin = None \<and> gw_world (snd ?fin) = cache_set (exec_of ce) (env_enc (chat_base ce))
      (env_settings (chat_base ce)) (request_key (chat_base ce) req vk) (reply_response (chat_time ce w1) ?s) w1"
    using nonneg priced seen cs(3)
    by (simp add: stream_succeeded_def schedule_stream_usage_def account_ok priced_nonneg_def accounted_def to_response_rep)
  ultimately show ?thesis using miss by (cases ?fin) (simp add: stream_response_def)
qed

lemma cached_stream:
  assumes hit: "cache_get (exec_of ce) (env_dec (chat_base ce)) (request_key (chat_base ce) req vk)
                  (gw_prom h, gw_world h) = (Some r, p, w)"
    and r: "usage_nonneg (resp_usage r)" "resp_id r \<noteq> []" "choices r = [c]"
  shows "\<exists>lines h' a. stream_response ce req vk l h = (lines, None, h') \<and> gw_world h' = w \<and>
           synthesize_cached_stream (chat_time ce w) r = Inr lines \<and> fold_res feed lines new_accumulator = Inr a \<and> acc_content a = msg_content (choice_message c) \<and>
           acc_finish a = JStr (finish_text (choice_finish c)) \<and> acc_usage a = resp_usage r"
proof -
  let ?h1 = "h\<lparr>gw_prom := p, gw_world := w\<rparr>"
  let ?lines = "map (chunk_event (chat_time ce w)) (replay_chunks r c) @ [sse_done]"
  have "schedule_cached_stream_usage vk r l ?h1 =
      (None, accounted (build_usage_record vk CACHE_PROVIDER_NAME free_pricing (resp_model r) (resp_usage r) l) ?h1)"
    using r(1) by (simp add: schedule_cached_stream_usage_def account_ok free_pricing_def dec_zero_def)
  then obtain h' where "stream_response ce req vk l h = (?lines, None, h')" "gw_world h' = w"
    by (simp add: stream_response_def hit stream_replay_def synthesize_chunks [OF r(3)] accounted_def)
  moreover have "fold_res feed ?lines new_accumulator = Inr (rep (spec_reply (replay_chunks r c)))"
    using r(1) by (simp add: fold_res_append feed_spec replay_chunks_ok)
  ultimately show ?thesis using replay_reply [OF r(2), of c] synthesize_chunks [OF r(3), of "chat_time ce w"] by (auto simp: rep_def)
qed

text \<open>
  C29. A stream that completed answers the next identical request.  The first request misses the cache, its upstream
  streams the lines of any list of chunks, and Redis answers the write of the entry.  From the state that request leaves, in
  any later state in which nobody has touched the entry, whose time to live has not passed and in which Redis answers the
  read, the same request of the same key is answered by a replay of the accumulated response: the read is all that happens
  outside, no provider is called, and the client is told the same text, finish reason and usage.
\<close>

theorem completed_stream_is_replayed:
  assumes doc: "redis_documented (exec_of ce) view server_time"
    and codec: "\<And>r. response_ok r \<Longrightarrow> env_dec (chat_base ce) (env_enc (chat_base ce) r) = Some r"
    and miss: "cache_get (exec_of ce) (env_dec (chat_base ce)) (request_key (chat_base ce) req vk)
                 (gw_prom g, gw_world g) = (None, p, w)"
    and up: "stream_chat_completion (chat_stream ce) (env_registry (chat_base ce)) req w =
               ((map (Pair q) (map (chunk_event now) cs @ [sse_done]), None), w1)"
    and cs: "list_all chunk_ok cs" "cs \<noteq> []" "length (re_text (spec_reply cs)) \<le> max_content"
    and priced: "priced_nonneg q (req_model req)"
    and writable: "\<And>v. \<exists>rs w2. exec_of ce [SetEx (request_key (chat_base ce) req vk) v
                       (CACHE_TTL_SECONDS (env_settings (chat_base ce)))] w1 = (Inr rs, w2)"
    and first: "stream_response ce req vk l g = (lines, x, g1)"
    and kept: "view (gw_world h) (request_key (chat_base ce) req vk) = view (gw_world g1) (request_key (chat_base ce) req vk)"
    and live: "server_time (gw_world h) < server_time w1 + of_int (CACHE_TTL_SECONDS (env_settings (chat_base ce)))"
    and readable: "exec_of ce [Get (request_key (chat_base ce) req vk)] (gw_world h) = (Inr rs, w3)"
  shows "lines = map (chunk_event now) cs @ [sse_done] \<and> x = None \<and>
         (\<exists>replay h' a. stream_response ce req vk l' h = (replay, None, h') \<and> gw_world h' = w3 \<and>
           synthesize_cached_stream (chat_time ce w3) (reply_response (chat_time ce w1) (spec_reply cs)) = Inr replay \<and>
           fold_res feed replay new_accumulator = Inr a \<and> acc_content a = re_text (spec_reply cs) \<and>
           acc_finish a = JStr (finish_text (re_finish (spec_reply cs))) \<and> acc_usage a = re_usage (spec_reply cs))"
proof -
  let ?k = "request_key (chat_base ce) req vk" and ?b = "chat_base ce" and ?s = "spec_reply cs"
  let ?r = "reply_response (chat_time ce w1) ?s"
  have nonneg: "usage_nonneg (re_usage ?s)"
    using fold_reply_usage_nonneg [OF cs(1), of no_reply] by (simp add: spec_reply_def zero_usage_def)
  then have rok: "response_ok ?r" using cs(3) by (simp add: reply_response_def response_ok_def)
  from complete_stream [OF miss up cs priced, of l] first
  have done1: "lines = map (chunk_event now) cs @ [sse_done]" "x = None"
    "gw_world g1 = cache_set (exec_of ce) (env_enc ?b) (env_settings ?b) ?k ?r w1" by auto
  obtain rs2 w2 where set: "exec_of ce [SetEx ?k (env_enc ?b ?r) (CACHE_TTL_SECONDS (env_settings ?b))] w1 = (Inr rs2, w2)"
    using writable by blast
  then have "view (gw_world g1) ?k = Some (RString (env_enc ?b ?r), Some (server_time w1 + of_int (CACHE_TTL_SECONDS (env_settings ?b))))"
    using redis_service.cache_set_answered [OF redis_service.intro [OF doc] set] done1(3) by (simp add: cache_set_def)
  then have hit: "cache_get (exec_of ce) (env_dec ?b) ?k (gw_prom h, gw_world h) =
      (Some ?r, record_cache_event ''hit'' (gw_prom h), w3)"
    using cache_get_entry [OF doc readable, of "env_enc ?b ?r" _ "env_dec ?b" ?r "gw_prom h"] kept codec [OF rok] live by simp
  have r: "usage_nonneg (resp_usage ?r)" "resp_id ?r \<noteq> []" "choices ?r = [hd (choices ?r)]"
    using nonneg by (simp_all add: reply_response_def)
  from done1(1,2) cached_stream [OF hit r, of l'] show ?thesis
    by (auto simp: reply_response_def)
qed

definition demo_streaming :: "mem_redis chat_env" where
  "demo_streaming =
     \<lparr>chat_base = demo_env (Inl IndexErr),
      chat_stream = (\<lambda>p req w. ((map (chunk_event 3) sample_chunks @ [sse_done], None), w)),
      chat_time = (\<lambda>w. 3), chat_request_id = None, chat_outside = (\<lambda>w w'. True)\<rparr>"

theorem completed_stream_is_replayed_witness:
  "\<exists>g1 lines h a. stream_response demo_streaming sample_request 7 3 (demo_gw mem_start) =
       (map (chunk_event 3) sample_chunks @ [sse_done], None, g1) \<and>
     stream_response demo_streaming sample_request 7 3 g1 = (lines, None, h) \<and>
     fold_res feed lines new_accumulator = Inr a \<and> acc_content a = ''hi''"
proof -
  let ?r = "reply_response 3 (spec_reply sample_chunks)"
  let ?w2 = "mem_start\<lparr>mem_keys := (mem_keys mem_start)(''k'' \<mapsto> (RString (json_enc ?r), Some (mem_time mem_start + of_int 300)))\<rparr>"
  have ttl: "CACHE_TTL_SECONDS (env_settings (chat_base demo_streaming)) = 300"
    by (simp add: demo_streaming_def demo_env_def default_settings_def)
  have ce: "env_exec (chat_base demo_streaming) = mem_exec" "env_dec (chat_base demo_streaming) = json_dec"
    "env_enc (chat_base demo_streaming) = json_enc" "request_key (chat_base demo_streaming) req vk = ''k''"
    "chat_time demo_streaming w = 3" for req vk w
    by (simp_all add: demo_streaming_def)
  have miss: "cache_get mem_exec json_dec ''k'' (gw_prom (demo_gw mem_start), gw_world (demo_gw mem_start)) =
      (None, record_cache_event ''miss'' empty_prom, mem_start)"
    by (simp add: cache_get_def empty_world_get demo_gw_def)
  have up: "stream_chat_completion (chat_stream demo_streaming) (env_registry (chat_base demo_streaming)) sample_request mem_start =
      ((map (Pair (sample_provider ''a'' 0 [])) (map (chunk_event 3) sample_chunks @ [sse_done]), None), mem_start)"
    by (simp add: demo_streaming_def stream_chat_completion_def sample_registry_serves sample_chunks_def replay_chunks_def
        Let_def)
  have said: "re_text (spec_reply sample_chunks) = ''hi''" "sample_chunks \<noteq> []"
    by (simp_all add: sample_chunks_def replay_chunks_def Let_def spec_reply_def reply_step_def or_else_def no_reply_def
        sample_response_def)
  have fits: "length (re_text (spec_reply sample_chunks)) \<le> max_content" by (simp add: said max_content_def)
  have set: "mem_exec [SetEx ''k'' v 300] mem_start = (Inr [ROk], mem_start\<lparr>mem_keys := (mem_keys mem_start)(''k'' \<mapsto>
      (RString v, Some (mem_time mem_start + of_int 300)))\<rparr>)" for v
    by (rule mem_set_answered) (simp_all add: mem_start_def)
  obtain g1 where first: "stream_response demo_streaming sample_request 7 3 (demo_gw mem_start) =
      (map (chunk_event 3) sample_chunks @ [sse_done], None, g1)" "gw_world g1 = ?w2"
    using complete_stream [where ce = demo_streaming and now = 3 and vk = 7 and l = 3, unfolded ce ttl,
        OF miss up sample_chunks_ok said(2) fits sample_priced]
    by (auto simp: cache_set_def set ttl ce)
  have get: "mem_exec [Get ''k''] (gw_world g1) = (Inr [RBulk (json_enc ?r)], ?w2)"
    unfolding first by (rule mem_get_string) (simp_all add: live_def mem_start_def)
  have "\<exists>replay h' a. stream_response demo_streaming sample_request 7 3 g1 = (replay, None, h') \<and>
      fold_res feed replay new_accumulator = Inr a \<and> acc_content a = re_text (spec_reply sample_chunks)"
    using completed_stream_is_replayed [where ce = demo_streaming and server_time = mem_time and view = mem_keys
          and cs = sample_chunks and now = 3 and h = g1 and l' = 3, unfolded ce ttl,
          OF mem_documented json_dec_enc miss up sample_chunks_ok said(2) fits sample_priced _ first(1) refl _ get]
      set first(2) by (auto simp: mem_start_def)
  then show ?thesis unfolding said using first(1) by blast
qed

text \<open>
  Hanging up is free: a client that disconnects right after the last line of a completed upstream stream has
  received every line that a patient client is charged for, and nothing is recorded for it.
\<close>

theorem hang_up_unrecorded:
  assumes "fst (cache_get (exec_of ce) (env_dec (chat_base ce)) (request_key (chat_base ce) req vk)
             (gw_prom g, gw_world g)) = None"
    and "stream_response ce req vk l g = (lines, None, g')" and "gw_tasks g' = gw_tasks g @ [PersistUsage r]"
  shows "\<exists>g''. stream_closed ce (length lines) req vk g = (lines, g'') \<and> gw_tasks g'' = gw_tasks g"
proof -
  obtain p w where get: "cache_get (exec_of ce) (env_dec (chat_base ce)) (request_key (chat_base ce) req vk)
      (gw_prom g, gw_world g) = (None, p, w)" using assms(1) by (metis prod.exhaust fst_conv)
  have up: "stream_upstream ce req vk l (g\<lparr>gw_prom := p, gw_world := w\<rparr>) = (lines, None, g')"
    using assms(2) get by (simp add: stream_response_def)
  obtain items fin w' where st: "stream_chat_completion (chat_stream ce) (env_registry (chat_base ce)) req w = ((items, fin), w')"
    by (metis prod.exhaust)
  obtain ls res where rl: "relay_lines items new_relay = (ls, res)" by fastforce
  let ?g1 = "g\<lparr>gw_prom := p, gw_world := w'\<rparr>"
  have no: "\<not> (\<exists>e ex. stream_failed (chat_request_id ce) req vk l e ?g1 = (ex, None, g'))"
    using stream_failed_accounts [of "chat_request_id ce" req vk l _ ?g1 _ g'] assms(3) by fastforce
  obtain s where s: "res = Inr s" "fin = None"
    using up st rl no by (cases res; cases fin) (auto simp: stream_upstream_def stream_relayed_def Let_def split: prod.splits)
  then have "lines = ls" using up st rl by (simp add: stream_upstream_def stream_relayed_def)
  moreover have "ls = map snd items" using relay_lines_ok [OF rl [unfolded s(1)]] by simp
  ultimately show ?thesis using get st rl s by (simp add: stream_closed_def)
qed

theorem hang_up_unrecorded_witness:
  "\<exists>g''. stream_closed (demo_chat [sse_done]) 1 sample_request 7 (demo_gw ()) = ([sse_done], g'') \<and> gw_tasks g'' = []"
  using hang_up_unrecorded [OF _ demo_stream_response [of sample_request 7 3]]
  by (simp add: cache_get_def accounted_def demo_gw_def)

text \<open>
  A chunk that is no object aborts the stream unrecorded: the usage reader raises \<open>AttributeError\<close>, which no clause
  of the route catches, so the client's stream breaks off with neither an error event nor any record.
\<close>

theorem malformed_chunk_unrecorded:
  "\<exists>g'. stream_response (demo_chat [''data: []'']) sample_request 7 3 (demo_gw ()) = ([], Some AttributeErr, g') \<and>
     gw_tasks g' = []"
proof -
  have "sse_payload ''data: []'' = Some (JArr [])"
    by (simp add: sse_payload_def py_strip_def py_space_def rstrip_while_def json_eval)
  then show ?thesis
    by (simp add: stream_response_def cache_get_def stream_upstream_def stream_relayed_def stream_chat_completion_def sample_registry_serves
        relay_line_def capture_usage_def stream_failed_def demo_gw_def)
qed

end
