(* ===== verification/Stream_Tasks.thy ===== *)
theory Stream_Tasks
  imports Chat_Route
begin

text \<open>
  A streamed answer in the segments between its awaits (\<open>_stream_response\<close>): the lookup in the cache, the call of the
  providers, and the end, which replays the cached answer or closes the relayed one.  What other requests do in between
  acts on the process the next segment finds.
\<close>

datatype stream_pc =
    Opened
  | Replaying chat_response
  | Missed
  | Upstream "(provider \<times> string) list" "exn option"
  | Ended "string list" "exn option"
  | HungUp

fun stream_advance ::
    "'w chat_env \<Rightarrow> chat_request \<Rightarrow> int \<Rightarrow> int \<Rightarrow> stream_pc \<Rightarrow> 'w gw \<Rightarrow> stream_pc \<times> 'w gw" where
  "stream_advance ce req vk l Opened g =
     (case cache_get (exec_of ce) (env_dec (chat_base ce)) (request_key (chat_base ce) req vk) (gw_prom g, gw_world g) of
        (Some cached, p, w) \<Rightarrow> (Replaying cached, g\<lparr>gw_prom := p, gw_world := w\<rparr>)
      | (None, p, w) \<Rightarrow> (Missed, g\<lparr>gw_prom := p, gw_world := w\<rparr>))"
| "stream_advance ce req vk l (Replaying cached) g =
     (case stream_replay ce vk l cached g of (lines, x, g') \<Rightarrow> (Ended lines x, g'))"
| "stream_advance ce req vk l Missed g =
     (case stream_chat_completion (chat_stream ce) (env_registry (chat_base ce)) req (gw_world g) of
        ((items, fin), w) \<Rightarrow> (Upstream items fin, g\<lparr>gw_world := w\<rparr>))"
| "stream_advance ce req vk l (Upstream items fin) g =
     (case stream_relayed ce req vk l items fin g of (lines, x, g') \<Rightarrow> (Ended lines x, g'))"
| "stream_advance ce req vk l (Ended lines x) g = (Ended lines x, g)"
| "stream_advance ce req vk l HungUp g = (HungUp, g)"

fun streaming :: "stream_pc \<Rightarrow> bool" where
  "streaming (Ended lines x) = False"
| "streaming HungUp = False"
| "streaming p = True"

text \<open>Undisturbed, the segments are the generator.\<close>

lemma stream_segments:
  assumes "stream_response ce req vk l g = (lines, x, g')"
  shows "\<exists>p1 g1 p2 g2. stream_advance ce req vk l Opened g = (p1, g1) \<and> stream_advance ce req vk l p1 g1 = (p2, g2) \<and>
           stream_advance ce req vk l p2 g2 = (Ended lines x, g') \<and> streaming p1"
  using assms
  by (auto simp: stream_response_def stream_upstream_def split: prod.splits option.splits)

text \<open>A client that hangs up leaves the process as the segments before left it.\<close>

lemma closed_segments:
  assumes "stream_closed ce n req vk g = (lines, g')"
  shows "\<exists>p1 g1. stream_advance ce req vk l Opened g = (p1, g1) \<and>
           ((\<exists>r. p1 = Replaying r \<and> g' = g1) \<or> (\<exists>p2. stream_advance ce req vk l p1 g1 = (p2, g') \<and> streaming p2))"
  using assms
  by (auto simp: stream_closed_def split: prod.splits option.splits sum.splits)

text \<open>A stream that has ended has one more delivery; every other segment goes on.\<close>

lemma stream_advance_stopped: "\<not> streaming p \<Longrightarrow> stream_advance ce req vk l p g = (p, g)"
  by (cases p) auto

lemma stream_advance_not_hung: "streaming p \<Longrightarrow> fst (stream_advance ce req vk l p g) \<noteq> HungUp"
  by (cases p) (auto split: prod.splits option.splits)

text \<open>The lines that await their end come from one provider of the request, and from none only when all have failed.\<close>

fun sourced :: "'w chat_env \<Rightarrow> chat_request \<Rightarrow> stream_pc \<Rightarrow> bool" where
  "sourced ce req (Upstream items fin) \<longleftrightarrow>
     (fin = None \<longrightarrow> items \<noteq> []) \<and>
     (items \<noteq> [] \<longrightarrow>
       (\<exists>q ts. q \<in> set (select_providers (env_registry (chat_base ce)) (req_model req)) \<and> items = map (Pair q) ts))"
| "sourced ce req p \<longleftrightarrow> True"

lemma sourced_step:
  assumes "stream_advance ce req vk l p g = (p', g')" and "sourced ce req p"
  shows "sourced ce req p'"
proof (cases p)
  case Missed
  obtain items fin w where st: "stream_chat_completion (chat_stream ce) (env_registry (chat_base ce)) req (gw_world g) = ((items, fin), w)"
    by (metis prod.exhaust)
  have "fin = None \<longrightarrow> items \<noteq> []"
    using st unfolding stream_chat_completion_def by (auto dest: try_streams_delivers)
  moreover have "\<exists>q ts. q \<in> set (select_providers (env_registry (chat_base ce)) (req_model req)) \<and> items = map (Pair q) ts"
    if "items \<noteq> []"
    using try_streams_source [OF st [unfolded stream_chat_completion_def] that] by blast
  ultimately show ?thesis using assms(1) Missed st by auto
qed (use assms in \<open>auto split: prod.splits option.splits\<close>)

end
