(* ===== verification/Http_App.thy ===== *)
theory Http_App
  imports Chat_Route
begin

text \<open>
  \<open>main.py\<close>, \<open>core/logging.py\<close>, \<open>routers/health.py\<close>, \<open>routers/metrics.py\<close> and the health check of
  \<open>storage/redis.py\<close>: the middlewares and exception handlers around every route, and the probes.

  The framework runs them in this nesting, outermost first: the security-header middleware (added last), the
  request-id middleware, the exception handlers, the route.  A middleware runs the rest in a copy of its logging
  context.  The header mapping of a response is the framework's (\<open>header_ops\<close>): a case-insensitive mutable
  mapping with \<open>setdefault\<close>.
\<close>

subsection \<open>Responses\<close>

definition lower_char :: "char \<Rightarrow> char" where
  "lower_char c = (if 65 \<le> (of_char c :: nat) \<and> (of_char c :: nat) \<le> 90 then char_of (of_char c + 32 :: nat) else c)"

definition lower :: "string \<Rightarrow> string" where
  "lower s = map lower_char s"

record 'h header_ops =
  header_get :: "'h \<Rightarrow> string \<Rightarrow> string option"
  header_set :: "string \<Rightarrow> string \<Rightarrow> 'h \<Rightarrow> 'h"
  header_default :: "string \<Rightarrow> string \<Rightarrow> 'h \<Rightarrow> 'h"
  header_init :: "(string \<times> string) list \<Rightarrow> 'h"

text \<open>What the framework documents of its header mapping; a new JSON response also has its length and type.\<close>

definition headers_ok :: "'h header_ops \<Rightarrow> bool" where
  "headers_ok ops \<longleftrightarrow>
     (\<forall>h k v j. header_get ops (header_set ops k v h) j = (if lower j = lower k then Some v else header_get ops h j)) \<and>
     (\<forall>h k v j. header_get ops (header_default ops k v h) j =
        (if lower j = lower k \<and> header_get ops h j = None then Some v else header_get ops h j)) \<and>
     (\<forall>hs j. lower j \<notin> {''content-length'', ''content-type''} \<longrightarrow>
        header_get ops (header_init ops hs) j = map_of (map (map_prod lower id) hs) (lower j))"

datatype http_body = JsonBody json | TextBody string | EventBody "string list" "exn option"

record 'h http_response =
  http_status :: nat
  http_headers :: 'h
  http_body :: http_body

text \<open>One entry of \<open>RequestValidationError.errors()\<close>: its location and its message, when it has them.\<close>

datatype loc_part = LocName string | LocIndex int

record validation_entry =
  ve_loc :: "loc_part list option"
  ve_msg :: "string option"

datatype 'a routed = Answer 'a | Raised exn | Invalid "validation_entry list"

subsection \<open>core/logging.py\<close>

text \<open>The logging context of a request.\<close>

type_synonym log_ctx = "string \<rightharpoonup> string"

definition bind_request_context :: "string \<Rightarrow> string \<Rightarrow> log_ctx \<Rightarrow> log_ctx" where
  "bind_request_context k v c = c(k \<mapsto> v)"

definition clear_request_context :: "log_ctx \<Rightarrow> log_ctx" where
  "clear_request_context c = Map.empty"

subsection \<open>main.py: exception handlers\<close>

definition error_fields :: "http_detail \<Rightarrow> jobj" where
  "error_fields dt =
     (case dt of
        PlainDetail m \<Rightarrow> [(''message'', JStr m), (''type'', JStr ''invalid_request_error'')]
      | ErrorDetail m t att \<Rightarrow>
          [(''message'', JStr m), (''type'', JStr t)] @ opt_field ''attempted_providers'' (\<lambda>ps. JArr (map JStr ps)) att)"

definition openai_style_exception_handler ::
    "'h header_ops \<Rightarrow> log_ctx \<Rightarrow> http_exception \<Rightarrow> 'h http_response" where
  "openai_style_exception_handler ops c exc =
     (let request_id = c ''request_id''
      in \<lparr>http_status = status_code exc, http_headers = header_init ops (exc_headers exc),
          http_body = JsonBody (JObj [(''error'', JObj (error_fields (detail exc)
            @ (if given request_id then opt_field ''request_id'' JStr request_id else [])))])\<rparr>)"

fun loc_text :: "loc_part \<Rightarrow> string" where
  "loc_text (LocName n) = n"
| "loc_text (LocIndex i) = str_int i"

definition dotted :: "string list \<Rightarrow> string" where
  "dotted ps = (case ps of [] \<Rightarrow> [] | p # qs \<Rightarrow> p @ concat (map (\<lambda>q. CHR ''.'' # q) qs))"

definition validation_exception_handler :: "'h header_ops \<Rightarrow> validation_entry list \<Rightarrow> 'h http_response" where
  "validation_exception_handler ops errs =
     (let first = (case errs of [] \<Rightarrow> \<lparr>ve_loc = None, ve_msg = None\<rparr> | e # _ \<Rightarrow> e);
          parts = (case ve_loc first of None \<Rightarrow> [] | Some ps \<Rightarrow> filter (\<lambda>p. p \<noteq> LocName ''body'') ps);
          loc = dotted (map loc_text parts);
          msg = (case ve_msg first of None \<Rightarrow> ''Invalid request'' | Some m \<Rightarrow> m)
      in \<lparr>http_status = 400, http_headers = header_init ops [],
          http_body = JsonBody (JObj [(''error'', JObj
            ([(''type'', JStr ''invalid_request_error''), (''message'', JStr msg)]
             @ (if loc \<noteq> [] then [(''param'', JStr loc)] else [])))])\<rparr>)"

text \<open>The handlers the application registers; any other exception goes on to the server.\<close>

definition handle_exceptions ::
    "'h header_ops \<Rightarrow> (log_ctx \<Rightarrow> 'w \<Rightarrow> 'h http_response routed \<times> 'w) \<Rightarrow> log_ctx \<Rightarrow> 'w \<Rightarrow> (exn + 'h http_response) \<times> 'w" where
  "handle_exceptions ops route c w =
     (case route c w of
        (Answer r, w') \<Rightarrow> (Inr r, w')
      | (Invalid errs, w') \<Rightarrow> (Inr (validation_exception_handler ops errs), w')
      | (Raised (HttpExn h), w') \<Rightarrow> (Inr (openai_style_exception_handler ops c h), w')
      | (Raised e, w') \<Rightarrow> (Inl e, w'))"

subsection \<open>main.py: middlewares\<close>

definition APP_REQUEST_ID_HEADER :: string where
  "APP_REQUEST_ID_HEADER = ''X-Request-ID''"

definition request_id_of :: "string option \<Rightarrow> string \<Rightarrow> string" where
  "request_id_of header uuid = (if given header then the header else uuid)"

text \<open>The \<open>finally\<close> clause clears the context also when the rest raises.\<close>

definition request_id_middleware ::
    "'h header_ops \<Rightarrow> (log_ctx \<Rightarrow> 'w \<Rightarrow> (exn + 'h http_response) \<times> 'w) \<Rightarrow> string option \<Rightarrow> string \<Rightarrow> log_ctx \<Rightarrow> 'w \<Rightarrow>
     (exn + 'h http_response) \<times> log_ctx \<times> 'w" where
  "request_id_middleware ops call_next header uuid c w =
     (let request_id = request_id_of header uuid;
          c1 = bind_request_context ''request_id'' request_id c
      in case call_next c1 w of
           (Inl e, w') \<Rightarrow> (Inl e, clear_request_context c1, w')
         | (Inr r, w') \<Rightarrow>
             (Inr (r\<lparr>http_headers := header_set ops APP_REQUEST_ID_HEADER request_id (http_headers r)\<rparr>),
              clear_request_context c1, w'))"

definition SECURITY_HEADERS :: "(string \<times> string) list" where
  "SECURITY_HEADERS =
     [(''X-Content-Type-Options'', ''nosniff''), (''X-Frame-Options'', ''DENY''), (''Referrer-Policy'', ''no-referrer'')]"

definition security_headers_middleware ::
    "'h header_ops \<Rightarrow> (exn + 'h http_response) \<times> 's \<Rightarrow> (exn + 'h http_response) \<times> 's" where
  "security_headers_middleware ops answered =
     (case answered of
        (Inl e, s) \<Rightarrow> (Inl e, s)
      | (Inr r, s) \<Rightarrow>
          (Inr (r\<lparr>http_headers := foldl (\<lambda>h kv. header_default ops (fst kv) (snd kv) h) (http_headers r) SECURITY_HEADERS\<rparr>),
           s))"

text \<open>\<open>create_app\<close>: the application around one route.\<close>

definition app_call ::
    "'h header_ops \<Rightarrow> (log_ctx \<Rightarrow> 'w \<Rightarrow> 'h http_response routed \<times> 'w) \<Rightarrow> string option \<Rightarrow> string \<Rightarrow> log_ctx \<Rightarrow> 'w \<Rightarrow>
     (exn + 'h http_response) \<times> log_ctx \<times> 'w" where
  "app_call ops route header uuid c w =
     security_headers_middleware ops (request_id_middleware ops (handle_exceptions ops route) header uuid c w)"

subsection \<open>Health\<close>

text \<open>
  A probe answers after some seconds or never; it may end in an error.  \<open>asyncio.wait_for\<close> gives the outcome and
  the seconds waited, \<open>None\<close> for \<open>TimeoutError\<close>.
\<close>

datatype 'a probe = Probed 'a | ProbeRedisError | ProbeOSError | ProbeRaised exn

definition wait_for :: "rat \<Rightarrow> rat option \<times> 'a \<Rightarrow> 'a option \<times> rat" where
  "wait_for limit p =
     (case fst p of
        None \<Rightarrow> (None, limit)
      | Some t \<Rightarrow> if t \<le> limit then (Some (snd p), t) else (None, limit))"

definition HEALTHCHECK_TIMEOUT_SECONDS :: rat where
  "HEALTHCHECK_TIMEOUT_SECONDS = 2"

definition DB_HEALTHCHECK_TIMEOUT_SECONDS :: rat where
  "DB_HEALTHCHECK_TIMEOUT_SECONDS = 2"

definition redis_healthcheck :: "rat option \<times> bool probe \<Rightarrow> (exn + bool) \<times> rat" where
  "redis_healthcheck ping =
     (case wait_for HEALTHCHECK_TIMEOUT_SECONDS ping of
        (Some (Probed b), t) \<Rightarrow> (Inr b, t)
      | (Some (ProbeRaised e), t) \<Rightarrow> (Inl e, t)
      | (_, t) \<Rightarrow> (Inr False, t))"

definition database_ok :: "rat option \<times> unit probe \<Rightarrow> bool \<times> rat" where
  "database_ok query =
     (case wait_for DB_HEALTHCHECK_TIMEOUT_SECONDS query of
        (Some (Probed u), t) \<Rightarrow> (True, t)
      | (_, t) \<Rightarrow> (False, t))"

definition health :: jobj where
  "health = [(''status'', JStr ''ok'')]"

text \<open>The status code, the body and the seconds both probes took.\<close>

definition readiness :: "rat option \<times> bool probe \<Rightarrow> rat option \<times> unit probe \<Rightarrow> (exn + nat \<times> jobj) \<times> rat" where
  "readiness ping query =
     (case redis_healthcheck ping of
        (Inl e, t1) \<Rightarrow> (Inl e, t1)
      | (Inr redis_ok, t1) \<Rightarrow>
          (case database_ok query of
             (db_ok', t2) \<Rightarrow>
               let ready = redis_ok \<and> db_ok'
               in (Inr (if ready then 200 else 503,
                        [(''status'', JStr (if ready then ''ready'' else ''degraded'')), (''redis'', JBool redis_ok),
                         (''database'', JBool db_ok')]),
                   t1 + t2)))"

subsection \<open>Startup\<close>

datatype log_event = LogWarning string jobj | LogInfo string jobj

definition ollama_url :: "settings \<Rightarrow> string" where
  "ollama_url s = py_rstrip_char (CHR ''/'') (OLLAMA_BASE_URL s) @ ''/models''"

text \<open>\<open>get\<close> is the HTTP client: the status of the answer, or \<open>None\<close> when the call raised.\<close>

definition ollama_healthcheck :: "settings \<Rightarrow> (string \<Rightarrow> nat option) \<Rightarrow> bool option" where
  "ollama_healthcheck s get =
     (if \<not> OLLAMA_ENABLED s then None
      else Some (case get (ollama_url s) of None \<Rightarrow> False | Some status \<Rightarrow> status < 500))"

text \<open>What \<open>lifespan\<close> logs before the application serves.\<close>

definition lifespan_startup ::
    "settings \<Rightarrow> rat option \<times> bool probe \<Rightarrow> rat option \<times> unit probe \<Rightarrow> (string \<Rightarrow> nat option) \<Rightarrow> exn + log_event list" where
  "lifespan_startup s ping query get =
     bind_res (fst (redis_healthcheck ping)) (\<lambda>redis_ok.
       let db_ok' = fst (database_ok query);
           ollama_ok = ollama_healthcheck s get
       in Inr ((if ollama_ok = Some False
                then [LogWarning ''ollama_unreachable_at_startup'' [(''base_url'', JStr (OLLAMA_BASE_URL s))]] else [])
               @ [LogInfo ''startup_complete''
                    ([(''redis'', JBool redis_ok), (''database'', JBool db_ok')] @ opt_field ''ollama'' JBool ollama_ok)]))"

subsection \<open>routers/metrics.py\<close>

text \<open>
  \<open>render\<close>: with several workers (\<open>PROMETHEUS_MULTIPROC_DIR\<close>) what all of them left in the directory, else the process's
  own counters; \<open>exposition\<close> is the text format of the library.
\<close>

definition render :: "string option \<Rightarrow> (string \<Rightarrow> prom) \<Rightarrow> (prom \<Rightarrow> string) \<Rightarrow> prom \<Rightarrow> string" where
  "render multiproc_dir collect exposition own =
     (if given multiproc_dir then exposition (collect (the multiproc_dir)) else exposition own)"

definition metrics_response :: "'h header_ops \<Rightarrow> string \<Rightarrow> 'h http_response" where
  "metrics_response ops rendered =
     \<lparr>http_status = 200,
      http_headers = header_init ops
        [(''X-Content-Type-Options'', ''nosniff''), (''Content-Type'', ''text/plain; version=0.0.4; charset=utf-8'')],
      http_body = TextBody rendered\<rparr>"

subsection \<open>Lemmas\<close>

lemma headers_ok_set:
  "headers_ok ops \<Longrightarrow> header_get ops (header_set ops k v h) j = (if lower j = lower k then Some v else header_get ops h j)"
  by (simp add: headers_ok_def)

lemma headers_ok_default:
  "headers_ok ops \<Longrightarrow> header_get ops (header_default ops k v h) j =
     (if lower j = lower k \<and> header_get ops h j = None then Some v else header_get ops h j)"
  by (simp add: headers_ok_def)

lemma headers_ok_init:
  "headers_ok ops \<Longrightarrow> lower j \<noteq> ''content-length'' \<Longrightarrow> lower j \<noteq> ''content-type'' \<Longrightarrow>
     header_get ops (header_init ops hs) j = map_of (map (map_prod lower id) hs) (lower j)"
  by (simp add: headers_ok_def)

text \<open>Association lists with lower-case names.\<close>

definition list_headers :: "(string \<times> string) list header_ops" where
  "list_headers =
     \<lparr>header_get = (\<lambda>h k. map_of h (lower k)), header_set = (\<lambda>k v h. (lower k, v) # h),
      header_default = (\<lambda>k v h. if map_of h (lower k) = None then h @ [(lower k, v)] else h),
      header_init = map (map_prod lower id)\<rparr>"

lemma list_headers_ok: "headers_ok list_headers"
  by (auto simp: headers_ok_def list_headers_def map_add_def split: option.splits)

lemma lower_names [simp]:
  "lower ''X-Request-ID'' = ''x-request-id''" "lower ''X-Content-Type-Options'' = ''x-content-type-options''"
  "lower ''X-Frame-Options'' = ''x-frame-options''" "lower ''Referrer-Policy'' = ''referrer-policy''"
  "lower ''Retry-After'' = ''retry-after''"
  by code_simp+

lemma security_header_value:
  assumes "headers_ok ops" and "(k, v) \<in> set SECURITY_HEADERS"
  shows "header_get ops (foldl (\<lambda>h kv. header_default ops (fst kv) (snd kv) h) h SECURITY_HEADERS) k =
           (case header_get ops h k of None \<Rightarrow> Some v | Some v' \<Rightarrow> Some v')"
  using assms by (auto simp: SECURITY_HEADERS_def headers_ok_default split: option.splits)

lemma security_header_other:
  assumes "headers_ok ops" and "lower k \<notin> (lower \<circ> fst) ` set SECURITY_HEADERS"
  shows "header_get ops (foldl (\<lambda>h kv. header_default ops (fst kv) (snd kv) h) h SECURITY_HEADERS) k = header_get ops h k"
  using assms by (auto simp: SECURITY_HEADERS_def headers_ok_default)

lemma request_id_nonempty: "uuid \<noteq> [] \<Longrightarrow> request_id_of header uuid \<noteq> []"
  by (cases header) (auto simp: request_id_of_def given_def)

text \<open>What the two middlewares make of a response.\<close>

definition marked :: "'h header_ops \<Rightarrow> string \<Rightarrow> 'h http_response \<Rightarrow> 'h http_response" where
  "marked ops rid r =
     r\<lparr>http_headers := foldl (\<lambda>h kv. header_default ops (fst kv) (snd kv) h)
         (header_set ops APP_REQUEST_ID_HEADER rid (http_headers r)) SECURITY_HEADERS\<rparr>"

lemma marked_simps [simp]: "http_status (marked ops rid r) = http_status r" "http_body (marked ops rid r) = http_body r"
  by (simp_all add: marked_def)

lemma marked_request_id:
  "headers_ok ops \<Longrightarrow> header_get ops (http_headers (marked ops rid r)) APP_REQUEST_ID_HEADER = Some rid"
  by (simp add: marked_def security_header_other SECURITY_HEADERS_def headers_ok_set headers_ok_default
      APP_REQUEST_ID_HEADER_def)

lemma marked_security:
  assumes "headers_ok ops" and "(k, v) \<in> set SECURITY_HEADERS"
  shows "header_get ops (http_headers (marked ops rid r)) k =
           (case header_get ops (http_headers r) k of None \<Rightarrow> Some v | Some v' \<Rightarrow> Some v')"
proof -
  have "lower k \<noteq> lower APP_REQUEST_ID_HEADER"
    using assms(2) by (auto simp: SECURITY_HEADERS_def APP_REQUEST_ID_HEADER_def)
  then show ?thesis using security_header_value [OF assms] by (simp add: marked_def headers_ok_set [OF assms(1)])
qed

lemma marked_other:
  assumes "headers_ok ops" and "lower k \<noteq> lower APP_REQUEST_ID_HEADER" and "lower k \<notin> (lower \<circ> fst) ` set SECURITY_HEADERS"
  shows "header_get ops (http_headers (marked ops rid r)) k = header_get ops (http_headers r) k"
  using assms(2) security_header_other [OF assms(1,3)] by (simp add: marked_def headers_ok_set [OF assms(1)])

lemma app_call_Inr:
  "app_call ops route header uuid c w = (Inr r, c', w') \<longleftrightarrow>
     (\<exists>r0. handle_exceptions ops route (c(''request_id'' \<mapsto> request_id_of header uuid)) w = (Inr r0, w') \<and> c' = Map.empty \<and>
        r = marked ops (request_id_of header uuid) r0)"
  by (auto simp: app_call_def request_id_middleware_def security_headers_middleware_def bind_request_context_def
      clear_request_context_def marked_def Let_def split: prod.splits sum.splits)

text \<open>The body of an error: its fields, and the id of the request.\<close>

lemma error_response_body:
  assumes "rid \<noteq> []"
  shows "http_body (openai_style_exception_handler ops (c(''request_id'' \<mapsto> rid)) h) =
           JsonBody (JObj [(''error'', JObj (error_fields (detail h) @ [(''request_id'', JStr rid)]))])"
  using assms by (simp add: openai_style_exception_handler_def opt_field_def given_def Let_def)

lemma error_response_status: "http_status (openai_style_exception_handler ops c h) = status_code h"
  by (simp add: openai_style_exception_handler_def Let_def)

lemma error_response_header:
  "headers_ok ops \<Longrightarrow> header_get ops (http_headers (marked ops rid (openai_style_exception_handler ops c h))) ''Retry-After'' =
     map_of (map (map_prod lower id) (exc_headers h)) ''retry-after''"
  by (simp add: marked_other SECURITY_HEADERS_def APP_REQUEST_ID_HEADER_def headers_ok_init openai_style_exception_handler_def
      Let_def)

lemma error_fields_named:
  "\<exists>m t. map_of (error_fields dt) ''message'' = Some (JStr m) \<and> map_of (error_fields dt) ''type'' = Some (JStr t)"
  by (cases dt) (simp_all add: error_fields_def)

lemma app_call_Inl:
  "app_call ops route header uuid c w = (Inl e, c', w') \<longleftrightarrow>
     handle_exceptions ops route (c(''request_id'' \<mapsto> request_id_of header uuid)) w = (Inl e, w') \<and> c' = Map.empty"
  by (auto simp: app_call_def request_id_middleware_def security_headers_middleware_def bind_request_context_def
      clear_request_context_def Let_def split: prod.splits sum.splits)

lemma handle_exceptions_Inl:
  "handle_exceptions ops route c w = (Inl e, w') \<longleftrightarrow> route c w = (Raised e, w') \<and> (\<forall>h. e \<noteq> HttpExn h)"
  by (auto simp: handle_exceptions_def split: prod.splits routed.splits exn.splits)

subsection \<open>Properties\<close>

text \<open>
  C34. Every response that comes out of the application is marked.  A response the route gives, the 400 made of the reports of
  a refused request and the error body made of an \<open>HTTPException\<close> all go out with the request's id, with each security header at
  the route's own value or the default, and otherwise as they were.  Any other exception of the route comes out as itself:
  then the application gives no response, and what the server answers instead is not marked.  The logging context
  is left empty in every case.
\<close>

theorem responses_are_marked:
  assumes "headers_ok ops" and "app_call ops route header uuid c w = (res, c', w')"
  shows "c' = Map.empty \<and>
         (case res of
            Inl e \<Rightarrow> route (c(''request_id'' \<mapsto> request_id_of header uuid)) w = (Raised e, w') \<and> (\<nexists>h. e = HttpExn h)
          | Inr r \<Rightarrow>
              \<exists>r0. (case route (c(''request_id'' \<mapsto> request_id_of header uuid)) w of
                      (Answer a, w1) \<Rightarrow> w1 = w' \<and> r0 = a
                    | (Invalid errs, w1) \<Rightarrow> w1 = w' \<and> r0 = validation_exception_handler ops errs
                    | (Raised e, w1) \<Rightarrow>
                        w1 = w' \<and>
                        (\<exists>h. e = HttpExn h \<and>
                           r0 = openai_style_exception_handler ops (c(''request_id'' \<mapsto> request_id_of header uuid)) h)) \<and>
                   http_status r = http_status r0 \<and> http_body r = http_body r0 \<and>
                   header_get ops (http_headers r) APP_REQUEST_ID_HEADER = Some (request_id_of header uuid) \<and>
                   (\<forall>(k, v) \<in> set SECURITY_HEADERS.
                      header_get ops (http_headers r) k =
                        (case header_get ops (http_headers r0) k of None \<Rightarrow> Some v | Some v' \<Rightarrow> Some v')) \<and>
                   (\<forall>k. lower k \<noteq> lower APP_REQUEST_ID_HEADER \<longrightarrow> lower k \<notin> (lower \<circ> fst) ` set SECURITY_HEADERS \<longrightarrow>
                      header_get ops (http_headers r) k = header_get ops (http_headers r0) k))"
proof (cases res)
  case (Inl e)
  with assms(2) show ?thesis by (simp add: app_call_Inl handle_exceptions_Inl)
next
  case (Inr r)
  with assms(2) obtain r0 where r0:
    "handle_exceptions ops route (c(''request_id'' \<mapsto> request_id_of header uuid)) w = (Inr r0, w')" "c' = Map.empty"
    "r = marked ops (request_id_of header uuid) r0"
    by (auto simp: app_call_Inr)
  have "case route (c(''request_id'' \<mapsto> request_id_of header uuid)) w of
      (Answer a, w1) \<Rightarrow> w1 = w' \<and> r0 = a
    | (Invalid errs, w1) \<Rightarrow> w1 = w' \<and> r0 = validation_exception_handler ops errs
    | (Raised e, w1) \<Rightarrow> w1 = w' \<and>
        (\<exists>h. e = HttpExn h \<and> r0 = openai_style_exception_handler ops (c(''request_id'' \<mapsto> request_id_of header uuid)) h)"
    using r0(1) by (auto simp: handle_exceptions_def split: prod.splits routed.splits exn.splits)
  with r0(2,3) Inr show ?thesis
    by (simp only: sum.case, intro conjI exI [of _ r0])
      (auto simp: marked_request_id [OF assms(1)] marked_security [OF assms(1)] marked_other [OF assms(1)] comp_def)
qed

text \<open>A route that gives a JSON value, as the framework answers it.\<close>

definition json_route :: "'h header_ops \<Rightarrow> json routed \<Rightarrow> log_ctx \<Rightarrow> 'w \<Rightarrow> 'h http_response routed \<times> 'w" where
  "json_route ops answered c w =
     (case answered of
        Answer j \<Rightarrow> (Answer \<lparr>http_status = 200, http_headers = header_init ops [], http_body = JsonBody j\<rparr>, w)
      | Raised e \<Rightarrow> (Raised e, w)
      | Invalid errs \<Rightarrow> (Invalid errs, w))"

theorem responses_are_marked_witness:
  "\<exists>r w'. app_call list_headers (json_route list_headers (Answer (JObj health))) (Some ''abc'') ''u'' Map.empty () =
       (Inr r, Map.empty, w') \<and>
     header_get list_headers (http_headers r) ''X-Request-ID'' = Some ''abc'' \<and>
     header_get list_headers (http_headers r) ''X-Frame-Options'' = Some ''DENY''"
proof -
  let ?route = "json_route list_headers (Answer (JObj health))"
  obtain r c' w' where run: "app_call list_headers ?route (Some ''abc'') ''u'' Map.empty () = (Inr r, c', w')"
    by (simp add: app_call_def security_headers_middleware_def request_id_middleware_def handle_exceptions_def
        json_route_def Let_def)
  from responses_are_marked [OF list_headers_ok this] obtain r0 where
    "r0 = \<lparr>http_status = 200, http_headers = header_init list_headers [], http_body = JsonBody (JObj health)\<rparr>" "c' = Map.empty"
    "header_get list_headers (http_headers r) APP_REQUEST_ID_HEADER = Some ''abc''"
    "\<forall>(k, v) \<in> set SECURITY_HEADERS. header_get list_headers (http_headers r) k =
       (case header_get list_headers (http_headers r0) k of None \<Rightarrow> Some v | Some v' \<Rightarrow> Some v')"
    by (auto simp: request_id_of_def given_def json_route_def)
  moreover from this(1) have "header_get list_headers (http_headers r0) ''X-Frame-Options'' = None"
    by (simp add: list_headers_def)
  ultimately show ?thesis using run by (auto simp: SECURITY_HEADERS_def APP_REQUEST_ID_HEADER_def)
qed

text \<open>
  Every HTTP error reaches the client in the OpenAI form: whatever a route raises as \<open>HTTPException\<close> becomes
  a response of that status whose body is one error object with message, type and the request id that is
  also in the response's header, and a \<open>Retry-After\<close> the route asked for is kept.
\<close>

theorem http_error_envelope:
  assumes "headers_ok ops" and "uuid \<noteq> []"
    and "route (c(''request_id'' \<mapsto> request_id_of header uuid)) w = (Raised (HttpExn h), w')"
  shows "\<exists>r. app_call ops route header uuid c w = (Inr r, Map.empty, w') \<and> http_status r = status_code h \<and>
           http_body r = JsonBody (JObj [(''error'', JObj (error_fields (detail h)
             @ [(''request_id'', JStr (request_id_of header uuid))]))]) \<and>
           (\<exists>m t. map_of (error_fields (detail h)) ''message'' = Some (JStr m) \<and>
                  map_of (error_fields (detail h)) ''type'' = Some (JStr t)) \<and>
           header_get ops (http_headers r) ''X-Request-ID'' = Some (request_id_of header uuid) \<and>
           header_get ops (http_headers r) ''Retry-After'' =
             map_of (map (map_prod lower id) (exc_headers h)) ''retry-after''"
proof -
  let ?rid = "request_id_of header uuid"
  let ?r = "marked ops ?rid (openai_style_exception_handler ops (c(''request_id'' \<mapsto> ?rid)) h)"
  have "app_call ops route header uuid c w = (Inr ?r, Map.empty, w')"
    using assms(3) by (simp add: app_call_Inr handle_exceptions_def)
  then show ?thesis
    using error_fields_named [of "detail h"] marked_request_id [OF assms(1)] error_response_header [OF assms(1)]
    by (simp add: error_response_status error_response_body [OF request_id_nonempty [OF assms(2)]]
        APP_REQUEST_ID_HEADER_def)
qed

theorem http_error_envelope_witness:
  "\<exists>r. app_call list_headers (json_route list_headers (Raised (unauthorized ''Missing or invalid API key'')))
       None ''u'' Map.empty () = (Inr r, Map.empty, ()) \<and> http_status r = 401 \<and>
     http_body r = JsonBody (JObj [(''error'', JObj [(''message'', JStr ''Missing or invalid API key''),
       (''type'', JStr ''invalid_request_error''), (''request_id'', JStr ''u'')])])"
  using http_error_envelope [OF list_headers_ok, of "''u''"
      "json_route list_headers (Raised (unauthorized ''Missing or invalid API key''))" Map.empty None "()"
      "\<lparr>status_code = 401, detail = PlainDetail ''Missing or invalid API key'', exc_headers = []\<rparr>" "()"]
  by (auto simp: json_route_def unauthorized_def error_fields_def request_id_of_def given_def)

text \<open>An exception no handler knows leaves the application without a response, so none of the headers is set.\<close>

lemma unhandled_exception_unmarked:
  "route (c(''request_id'' \<mapsto> request_id_of header uuid)) w = (Raised TypeErr, w') \<Longrightarrow>
     app_call ops route header uuid c w = (Inl TypeErr, Map.empty, w')"
  by (simp add: app_call_Inl handle_exceptions_Inl)

text \<open>The envelope of a rejected body has no request id.\<close>

lemma validation_body_lacks_request_id:
  "\<exists>fields. http_body (validation_exception_handler ops errs) = JsonBody (JObj [(''error'', JObj fields)]) \<and>
     map_of fields ''request_id'' = None"
  by (simp add: validation_exception_handler_def Let_def)

text \<open>
  The readiness probe answers within four seconds, however long the dependencies hang, and it is 200 exactly when
  both answered in time and positively; the body says which one did not.
\<close>

theorem readiness_exact:
  assumes "\<And>e. snd ping \<noteq> ProbeRaised e"
  shows "\<exists>st b t. readiness ping query = (Inr (st, b), t) \<and> t \<le> 4 \<and> (st = 200 \<or> st = 503) \<and>
           (st = 200 \<longleftrightarrow> snd ping = Probed True \<and> (\<exists>t1. fst ping = Some t1 \<and> t1 \<le> 2) \<and>
                         snd query = Probed () \<and> (\<exists>t2. fst query = Some t2 \<and> t2 \<le> 2)) \<and>
           map_of b ''redis'' = Some (JBool (snd ping = Probed True \<and> (\<exists>t1. fst ping = Some t1 \<and> t1 \<le> 2))) \<and>
           map_of b ''database'' = Some (JBool (snd query = Probed () \<and> (\<exists>t2. fst query = Some t2 \<and> t2 \<le> 2)))"
proof -
  let ?redis = "snd ping = Probed True \<and> (\<exists>t1. fst ping = Some t1 \<and> t1 \<le> 2)"
  let ?db = "snd query = Probed () \<and> (\<exists>t2. fst query = Some t2 \<and> t2 \<le> 2)"
  obtain d x where ping: "ping = (d, x)" by fastforce
  have "\<exists>t1. redis_healthcheck ping = (Inr ?redis, t1) \<and> t1 \<le> 2"
    using assms ping by (cases d; cases x) (auto simp: redis_healthcheck_def wait_for_def HEALTHCHECK_TIMEOUT_SECONDS_def)
  then obtain t1 where redis: "redis_healthcheck ping = (Inr ?redis, t1)" "t1 \<le> 2" by blast
  obtain d' x' where query: "query = (d', x')" by fastforce
  have "\<exists>t2. database_ok query = (?db, t2) \<and> t2 \<le> 2"
    using query by (cases d'; cases x') (auto simp: database_ok_def wait_for_def DB_HEALTHCHECK_TIMEOUT_SECONDS_def)
  then obtain t2 where db: "database_ok query = (?db, t2)" "t2 \<le> 2" by blast
  from redis(2) db(2) have "t1 + t2 \<le> 4" by simp
  with redis(1) db(1) show ?thesis by (simp add: readiness_def Let_def)
qed

theorem readiness_exact_witness:
  "\<exists>b t. readiness (Some 1, Probed True) (None, Probed ()) = (Inr (503, b), t) \<and> t \<le> 4"
  using readiness_exact [of "(Some 1, Probed True)" "(None, Probed ())"] by auto

end
