(* ===== verification/Request_Body.thy ===== *)
theory Request_Body
  imports Http_App
begin

text \<open>
  The body of \<open>POST /v1/chat/completions\<close>: \<open>ChatRequest\<close> of \<open>models/api.py\<close> as the schema a decoded JSON value is
  checked against.  The fields are checked in the order the class declares them and every failing one is reported; a
  validator's \<open>ValueError\<close> is such a report, any other exception of a validator leaves the validation.  The
  coercion of a JSON value to a number or a truth value and the wording of the reports are the library's (\<open>coercion\<close>).
\<close>

subsection \<open>Reports\<close>

datatype complaint = Required | WrongType | Bounds | TooLong | TooShort | NotLiteral | ValidatorError string

record coercion =
  co_int :: "json \<Rightarrow> int option"
  co_float :: "json \<Rightarrow> pyfloat option"
  co_bool :: "json \<Rightarrow> bool option"
  co_say :: "complaint \<Rightarrow> string"

definition entry :: "coercion \<Rightarrow> loc_part list \<Rightarrow> complaint \<Rightarrow> validation_entry" where
  "entry co loc c = \<lparr>ve_loc = Some (LocName ''body'' # loc), ve_msg = Some (co_say co c)\<rparr>"

abbreviation reject :: "coercion \<Rightarrow> loc_part list \<Rightarrow> complaint \<Rightarrow> 'a routed" where
  "reject co loc c \<equiv> Invalid [entry co loc c]"

text \<open>The results of several checks: all values, all reports in order, or the exception that escaped.\<close>

fun collect :: "'a routed list \<Rightarrow> 'a list routed" where
  "collect [] = Answer []"
| "collect (Answer x # rs) =
     (case collect rs of Answer xs \<Rightarrow> Answer (x # xs) | Invalid es \<Rightarrow> Invalid es | Raised e \<Rightarrow> Raised e)"
| "collect (Invalid es # rs) =
     (case collect rs of Answer xs \<Rightarrow> Invalid es | Invalid es' \<Rightarrow> Invalid (es @ es') | Raised e \<Rightarrow> Raised e)"
| "collect (Raised e # rs) = Raised e"

text \<open>A field without default, one with a default, and one that may be \<open>None\<close>.\<close>

definition required :: "coercion \<Rightarrow> loc_part list \<Rightarrow> jobj \<Rightarrow> string \<Rightarrow> (json \<Rightarrow> 'a routed) \<Rightarrow> 'a routed" where
  "required co loc ms k check =
     (case map_of ms k of None \<Rightarrow> reject co (loc @ [LocName k]) Required | Some v \<Rightarrow> check v)"

definition with_default :: "jobj \<Rightarrow> string \<Rightarrow> 'a \<Rightarrow> (json \<Rightarrow> 'a routed) \<Rightarrow> 'a routed" where
  "with_default ms k d check = (case map_of ms k of None \<Rightarrow> Answer d | Some v \<Rightarrow> check v)"

definition or_none :: "(json \<Rightarrow> 'a routed) \<Rightarrow> json \<Rightarrow> 'a option routed" where
  "or_none check v = (if v = JNull then Answer None else map_routed Some (check v))"

subsection \<open>Field types\<close>

definition str_field :: "coercion \<Rightarrow> loc_part list \<Rightarrow> (string \<Rightarrow> bool) \<Rightarrow> json \<Rightarrow> string routed" where
  "str_field co loc fits v =
     (case as_str v of
        None \<Rightarrow> reject co loc WrongType
      | Some s \<Rightarrow> if fits s then Answer s else reject co loc TooLong)"

definition float_field :: "coercion \<Rightarrow> loc_part list \<Rightarrow> (rat \<Rightarrow> bool) \<Rightarrow> json \<Rightarrow> pyfloat routed" where
  "float_field co loc within_bounds v =
     (case co_float co v of
        None \<Rightarrow> reject co loc WrongType
      | Some f \<Rightarrow> if within_bounds (fval f) then Answer f else reject co loc Bounds)"

definition int_field :: "coercion \<Rightarrow> loc_part list \<Rightarrow> (int \<Rightarrow> bool) \<Rightarrow> json \<Rightarrow> int routed" where
  "int_field co loc within_bounds v =
     (case co_int co v of
        None \<Rightarrow> reject co loc WrongType
      | Some i \<Rightarrow> if within_bounds i then Answer i else reject co loc Bounds)"

definition bool_field :: "coercion \<Rightarrow> loc_part list \<Rightarrow> json \<Rightarrow> bool routed" where
  "bool_field co loc v = (case co_bool co v of None \<Rightarrow> reject co loc WrongType | Some b \<Rightarrow> Answer b)"

subsection \<open>Messages\<close>

definition role_field :: "coercion \<Rightarrow> loc_part list \<Rightarrow> json \<Rightarrow> role routed" where
  "role_field co loc v = (case as_role v of None \<Rightarrow> reject co loc NotLiteral | Some r \<Rightarrow> Answer r)"

definition message_field :: "coercion \<Rightarrow> loc_part list \<Rightarrow> json \<Rightarrow> chat_message routed" where
  "message_field co loc v =
     (case as_obj v of
        None \<Rightarrow> reject co loc WrongType
      | Some ms \<Rightarrow>
          map_routed (\<lambda>sets. fold id sets \<lparr>msg_role = User, msg_content = []\<rparr>) (collect
            [map_routed (\<lambda>r. msg_role_update (\<lambda>_. r))
               (required co loc ms ''role'' (role_field co (loc @ [LocName ''role'']))),
             map_routed (\<lambda>c. msg_content_update (\<lambda>_. c))
               (required co loc ms ''content''
                 (str_field co (loc @ [LocName ''content'']) (\<lambda>s. length s \<le> max_content)))]))"

text \<open>A list that is too long is reported as that alone.\<close>

definition messages_field :: "coercion \<Rightarrow> json \<Rightarrow> chat_message list routed" where
  "messages_field co v =
     (let loc = [LocName ''messages'']
      in case as_list v of
           None \<Rightarrow> reject co loc WrongType
         | Some vs \<Rightarrow>
             (if 100 < length vs then reject co loc TooLong
              else
                (case collect (map (\<lambda>(i, m). message_field co (loc @ [LocIndex (int i)]) m) (enumerate 0 vs)) of
                   Answer ms \<Rightarrow> if ms = [] then reject co loc TooShort else Answer ms
                 | Invalid es \<Rightarrow> Invalid es
                 | Raised e \<Rightarrow> Raised e)))"

subsection \<open>Stop sequences and response format\<close>

definition stop_within_bounds :: "stop_seq option \<Rightarrow> string option" where
  \<comment> \<open>the message of the \<open>ValueError\<close>, \<open>None\<close> when the value is accepted\<close>
  "stop_within_bounds value =
     (case value of
        None \<Rightarrow> None
      | Some v \<Rightarrow>
          (let sequences = (case v of StopStr s \<Rightarrow> [s] | StopList ss \<Rightarrow> ss)
           in if sequences = [] \<or> list_ex (\<lambda>s. s = []) sequences then
                Some (''stop sequences n'' @ [CHR 0xE3] @ ''o podem ser vazias'')
              else if 4 < length sequences then Some (''no m'' @ [CHR 0xE1] @ ''ximo 4 stop sequences'')
              else None))"

definition stop_field :: "coercion \<Rightarrow> json \<Rightarrow> stop_seq routed" where
  "stop_field co v =
     (let loc = LocName ''stop'';
          bounded = (\<lambda>x. case stop_within_bounds (Some x) of
                       None \<Rightarrow> Answer x
                     | Some m \<Rightarrow> reject co [loc] (ValidatorError m));
          not_str = entry co [loc, LocName ''str''] WrongType
      in case v of
           JStr s \<Rightarrow> bounded (StopStr s)
         | JArr vs \<Rightarrow>
             (case collect (map (\<lambda>(i, x). str_field co [loc, LocName ''list[str]'', LocIndex (int i)] (\<lambda>s. True) x)
                      (enumerate 0 vs)) of
                Answer ss \<Rightarrow> bounded (StopList ss)
              | Invalid es \<Rightarrow> Invalid (not_str # es)
              | Raised e \<Rightarrow> Raised e)
         | _ \<Rightarrow> Invalid [not_str, entry co [loc, LocName ''list[str]''] WrongType])"

definition RESPONSE_FORMAT_TYPES :: "json set" where
  "RESPONSE_FORMAT_TYPES = {JStr ''text'', JStr ''json_object'', JStr ''json_schema''}"

fun hashable :: "json \<Rightarrow> bool" where
  "hashable (JArr vs) = False"
| "hashable (JObj ms) = False"
| "hashable v = True"

definition quoted :: "string \<Rightarrow> string" where
  "quoted s = CHR 0x27 # s @ [CHR 0x27]"

text \<open>
  \<open>Inr None\<close> when the value is accepted, \<open>Inr (Some m)\<close> for a \<open>ValueError\<close>; testing membership in a \<open>frozenset\<close> hashes
  the value, which raises \<open>TypeError\<close> for a list or a dict.
\<close>

definition valid_response_format :: "jobj option \<Rightarrow> exn + string option" where
  "valid_response_format value =
     (case value of
        None \<Rightarrow> Inr None
      | Some ms \<Rightarrow>
          (let kind = (case map_of ms ''type'' of None \<Rightarrow> JNull | Some v \<Rightarrow> v)
           in if \<not> hashable kind then Inl TypeErr
              else if kind \<notin> RESPONSE_FORMAT_TYPES then
                Inr (Some (''response_format.type deve ser '' @ quoted ''text'' @ '', '' @ quoted ''json_object'' @ '' ou ''
                  @ quoted ''json_schema''))
              else if kind = JStr ''json_schema'' \<and>
                      \<not> (case map_of ms ''json_schema'' of None \<Rightarrow> False | Some v \<Rightarrow> is_dict v) then
                Inr (Some (''response_format do tipo '' @ quoted ''json_schema'' @ '' exige o objeto '' @ quoted ''json_schema''))
              else Inr None))"

definition format_field :: "coercion \<Rightarrow> json \<Rightarrow> jobj routed" where
  "format_field co v =
     (case as_obj v of
        None \<Rightarrow> reject co [LocName ''response_format''] WrongType
      | Some ms \<Rightarrow>
          (case valid_response_format (Some ms) of
             Inl e \<Rightarrow> Raised e
           | Inr None \<Rightarrow> Answer ms
           | Inr (Some m) \<Rightarrow> reject co [LocName ''response_format''] (ValidatorError m)))"

subsection \<open>The request\<close>

definition default_request :: chat_request where
  \<comment> \<open>the defaults; \<open>model\<close> and \<open>messages\<close> have none and are always set\<close>
  "default_request =
     \<lparr>req_model = [], messages = [], temperature = mk_float 1 ''1.0'', top_p = None, frequency_penalty = None,
      presence_penalty = None, max_tokens = None, stop = None, seed = None, user = None, response_format = None,
      stream = False\<rparr>"

definition request_fields :: "coercion \<Rightarrow> jobj \<Rightarrow> (chat_request \<Rightarrow> chat_request) routed list" where
  "request_fields co ms =
     [map_routed (\<lambda>x. req_model_update (\<lambda>_. x))
        (required co [] ms ''model'' (str_field co [LocName ''model''] (\<lambda>s. True))),
      map_routed (\<lambda>x. messages_update (\<lambda>_. x)) (required co [] ms ''messages'' (messages_field co)),
      map_routed (\<lambda>x. temperature_update (\<lambda>_. x))
        (with_default ms ''temperature'' (temperature default_request)
          (float_field co [LocName ''temperature''] (\<lambda>q. 0 \<le> q \<and> q \<le> 2))),
      map_routed (\<lambda>x. top_p_update (\<lambda>_. x))
        (with_default ms ''top_p'' None (or_none (float_field co [LocName ''top_p''] (\<lambda>q. 0 < q \<and> q \<le> 1)))),
      map_routed (\<lambda>x. frequency_penalty_update (\<lambda>_. x))
        (with_default ms ''frequency_penalty'' None
          (or_none (float_field co [LocName ''frequency_penalty''] (\<lambda>q. - 2 \<le> q \<and> q \<le> 2)))),
      map_routed (\<lambda>x. presence_penalty_update (\<lambda>_. x))
        (with_default ms ''presence_penalty'' None
          (or_none (float_field co [LocName ''presence_penalty''] (\<lambda>q. - 2 \<le> q \<and> q \<le> 2)))),
      map_routed (\<lambda>x. max_tokens_update (\<lambda>_. x))
        (with_default ms ''max_tokens'' None (or_none (int_field co [LocName ''max_tokens''] (\<lambda>n. 0 < n)))),
      map_routed (\<lambda>x. stop_update (\<lambda>_. x)) (with_default ms ''stop'' None (or_none (stop_field co))),
      map_routed (\<lambda>x. seed_update (\<lambda>_. x))
        (with_default ms ''seed'' None (or_none (int_field co [LocName ''seed''] (\<lambda>n. True)))),
      map_routed (\<lambda>x. user_update (\<lambda>_. x))
        (with_default ms ''user'' None (or_none (str_field co [LocName ''user''] (\<lambda>s. length s \<le> 255)))),
      map_routed (\<lambda>x. response_format_update (\<lambda>_. x))
        (with_default ms ''response_format'' None (or_none (format_field co))),
      map_routed (\<lambda>x. stream_update (\<lambda>_. x)) (with_default ms ''stream'' False (bool_field co [LocName ''stream'']))]"

text \<open>The \<open>mode="after"\<close> validator of the model runs only when every field passed.\<close>

definition require_user_message :: "coercion \<Rightarrow> chat_request \<Rightarrow> chat_request routed" where
  "require_user_message co r =
     (if list_ex (\<lambda>m. msg_role m = User) (messages r) then Answer r
      else reject co []
        (ValidatorError (''messages must include at least one message with role '' @ quoted ''user'')))"

definition request_of_json :: "coercion \<Rightarrow> json \<Rightarrow> chat_request routed" where
  "request_of_json co v =
     (case as_obj v of
        None \<Rightarrow> reject co [] WrongType
      | Some ms \<Rightarrow>
          (case collect (request_fields co ms) of
             Answer sets \<Rightarrow> require_user_message co (fold id sets default_request)
           | Invalid es \<Rightarrow> Invalid es
           | Raised e \<Rightarrow> Raised e))"

text \<open>The body parameter of the route: no body and \<open>null\<close> are both \<open>None\<close>, which a required body does not admit.\<close>

definition chat_body :: "coercion \<Rightarrow> json option \<Rightarrow> chat_request routed" where
  "chat_body co got =
     (case got of
        None \<Rightarrow> reject co [] Required
      | Some v \<Rightarrow> if v = JNull then reject co [] Required else request_of_json co v)"

subsection \<open>Well-formed requests\<close>

text \<open>What every accepted request satisfies.\<close>

definition message_ok :: "chat_message \<Rightarrow> bool" where
  "message_ok m \<longleftrightarrow> length (msg_content m) \<le> max_content"

definition format_ok :: "jobj \<Rightarrow> bool" where
  "format_ok ms \<longleftrightarrow>
     (case map_of ms ''type'' of
        Some (JStr t) \<Rightarrow>
          t = ''text'' \<or> t = ''json_object'' \<or>
          t = ''json_schema'' \<and> (\<exists>sch. map_of ms ''json_schema'' = Some (JObj sch))
      | _ \<Rightarrow> False)"

definition stop_ok :: "stop_seq \<Rightarrow> bool" where
  "stop_ok v \<longleftrightarrow>
     (case v of StopStr s \<Rightarrow> s \<noteq> [] | StopList ss \<Rightarrow> 1 \<le> length ss \<and> length ss \<le> 4 \<and> [] \<notin> set ss)"

definition request_ok :: "chat_request \<Rightarrow> bool" where
  "request_ok r \<longleftrightarrow>
     1 \<le> length (messages r) \<and> length (messages r) \<le> 100 \<and> list_all message_ok (messages r) \<and>
     (\<exists>m \<in> set (messages r). msg_role m = User) \<and>
     0 \<le> fval (temperature r) \<and> fval (temperature r) \<le> 2 \<and>
     pred_option (\<lambda>f. 0 < fval f \<and> fval f \<le> 1) (top_p r) \<and>
     pred_option (\<lambda>f. - 2 \<le> fval f \<and> fval f \<le> 2) (frequency_penalty r) \<and>
     pred_option (\<lambda>f. - 2 \<le> fval f \<and> fval f \<le> 2) (presence_penalty r) \<and>
     pred_option (\<lambda>n. 0 < n) (max_tokens r) \<and> pred_option stop_ok (stop r) \<and>
     pred_option (\<lambda>u. length u \<le> 255) (user r) \<and> pred_option format_ok (response_format r)"

subsection \<open>Lemmas\<close>

lemma collect_map_Answer [simp]: "collect (map Answer xs) = Answer xs"
  by (induction xs) simp_all

lemma collect_Answer: "collect rs = Answer xs \<longleftrightarrow> rs = map Answer xs"
proof
  show "collect rs = Answer xs \<Longrightarrow> rs = map Answer xs"
    by (induction rs arbitrary: xs rule: collect.induct) (auto split: routed.splits)
qed simp

lemma map_routed_Answer: "map_routed f x = Answer u \<longleftrightarrow> (\<exists>y. x = Answer y \<and> u = f y)"
  by (cases x) auto

lemma float_field_sound: "float_field co loc P v = Answer f \<Longrightarrow> P (fval f)"
  by (auto simp: float_field_def split: option.splits if_splits)

lemma int_field_sound: "int_field co loc P v = Answer i \<Longrightarrow> P i"
  by (auto simp: int_field_def split: option.splits if_splits)

lemma str_field_sound: "str_field co loc P v = Answer t \<Longrightarrow> P t"
  by (auto simp: str_field_def split: option.splits if_splits)

lemma required_sound: "required co loc ms k check = Answer x \<Longrightarrow> \<exists>v. check v = Answer x"
  by (auto simp: required_def split: option.splits)

lemma with_default_sound:
  assumes "with_default ms k d check = Answer x" and "P d" and "\<And>v y. check v = Answer y \<Longrightarrow> P y"
  shows "P x"
  using assms by (auto simp: with_default_def split: option.splits)

lemma or_none_sound:
  assumes "or_none check v = Answer x" and "\<And>w y. check w = Answer y \<Longrightarrow> P y"
  shows "pred_option P x"
  using assms by (auto simp: or_none_def map_routed_Answer split: if_splits)

text \<open>An optional field: absent, \<open>null\<close> or a checked value.\<close>

lemma optional_sound:
  assumes "with_default ms k None (or_none check) = Answer x" and "\<And>v y. check v = Answer y \<Longrightarrow> P y"
  shows "pred_option P x"
  using assms(1) by (rule with_default_sound) (auto intro: or_none_sound assms(2))

lemma message_field_sound:
  assumes "message_field co loc v = Answer m"
  shows "message_ok m"
proof -
  obtain r c where "m = \<lparr>msg_role = r, msg_content = c\<rparr>" and "\<exists>w loc. str_field co loc (\<lambda>s. length s \<le> max_content) w = Answer c"
    using assms
    by (fastforce simp: message_field_def map_routed_Answer collect_Answer Cons_eq_map_conv dest!: required_sound
        split: option.splits)
  then show ?thesis using str_field_sound by (fastforce simp: message_ok_def)
qed

lemma messages_field_sound:
  assumes "messages_field co v = Answer ms"
  shows "1 \<le> length ms \<and> length ms \<le> 100 \<and> list_all message_ok ms"
proof -
  obtain vs where vs: "length vs \<le> 100" "ms \<noteq> []"
    "map (\<lambda>(i, m). message_field co [LocName ''messages'', LocIndex (int i)] m) (enumerate 0 vs) = map Answer ms"
    using assms
    by (auto simp: messages_field_def Let_def collect_Answer not_less split: option.splits if_splits routed.splits)
  have len: "length ms = length vs" using arg_cong [OF vs(3), of length] by simp
  have "message_ok m" if m: "m \<in> set ms" for m
  proof -
    from m have "Answer m \<in> set (map Answer ms)" by simp
    with vs(3) have "Answer m \<in> (\<lambda>(i, m). message_field co [LocName ''messages'', LocIndex (int i)] m) ` set (enumerate 0 vs)"
      by (metis list.set_map)
    then show ?thesis using message_field_sound by (fastforce split: prod.splits)
  qed
  then show ?thesis using vs(1,2) len by (cases ms) (auto simp: list_all_iff)
qed

lemma stop_checked: "stop_within_bounds (Some x) = None \<longleftrightarrow> stop_ok x"
  by (auto simp: stop_within_bounds_def stop_ok_def Let_def list_ex_iff Suc_le_eq split: stop_seq.splits)

lemma stop_field_sound: "stop_field co v = Answer x \<Longrightarrow> stop_ok x"
  by (auto simp: stop_field_def Let_def stop_checked split: json.splits option.splits routed.splits)

lemma format_checked: "valid_response_format (Some ms) = Inr None \<longleftrightarrow> format_ok ms"
  by (auto simp: valid_response_format_def format_ok_def Let_def RESPONSE_FORMAT_TYPES_def
      split: option.splits json.splits if_splits elim!: is_dict.elims)

lemma format_field_sound: "format_field co v = Answer ms \<Longrightarrow> format_ok ms"
  by (auto simp: format_field_def format_checked split: option.splits sum.splits)

lemma role_of_text [simp]: "as_role (JStr (role_text r)) = Some r"
  by (cases r) (simp_all add: as_role_def)

lemma message_field_dump: "message_ok m \<Longrightarrow> message_field co loc (message_json m) = Answer m"
  by (simp add: message_field_def message_json_def required_def role_field_def str_field_def message_ok_def)

lemma format_field_dump: "format_ok ms \<Longrightarrow> format_field co (JObj ms) = Answer ms"
  using format_checked [of ms] by (simp add: format_field_def)

lemma messages_field_dump:
  assumes "ms \<noteq> []" and "length ms \<le> 100" and "list_all message_ok ms"
  shows "messages_field co (JArr (map message_json ms)) = Answer ms"
proof -
  have "map (\<lambda>(i, m). message_field co [LocName ''messages'', LocIndex (int i)] m) (enumerate 0 (map message_json ms)) =
      map Answer ms"
    using assms(3) by (intro nth_equalityI) (auto simp: nth_enumerate_eq list_all_length message_field_dump)
  then show ?thesis using assms(1,2) by (simp add: messages_field_def Let_def)
qed

lemma stop_field_dump: "stop_ok x \<Longrightarrow> stop_field co (stop_json x) = Answer x"
proof (cases x)
  case (StopList ss)
  moreover have "map (\<lambda>(i, v). str_field co [LocName ''stop'', LocName ''list[str]'', LocIndex (int i)] (\<lambda>s. True) v)
      (enumerate 0 (map JStr ss)) = map Answer ss"
    by (intro nth_equalityI) (auto simp: nth_enumerate_eq str_field_def)
  moreover assume "stop_ok x"
  ultimately show ?thesis using stop_checked [of x] by (simp add: stop_field_def Let_def)
qed (use stop_checked [of x] in \<open>simp add: stop_field_def Let_def\<close>)

text \<open>What each field of a dumped request finds.\<close>

lemma with_default_dump:
  assumes "map_of ms k = map_option f x" and "\<And>y. x = Some y \<Longrightarrow> f y \<noteq> JNull \<and> check (f y) = Answer y"
  shows "with_default ms k None (or_none check) = Answer x"
  using assms by (cases x) (auto simp: with_default_def or_none_def)

lemma stop_json_not_null [simp]: "stop_json x \<noteq> JNull"
  by (cases x) simp_all

text \<open>What the coercions do with the numbers of a request that was dumped.\<close>

definition reads_back :: "coercion \<Rightarrow> chat_request \<Rightarrow> bool" where
  "reads_back co r \<longleftrightarrow>
     (\<forall>i. co_int co (JInt i) = Some i) \<and> (\<forall>b. co_bool co (JBool b) = Some b) \<and>
     (\<forall>f \<in> {temperature r} \<union> set_option (top_p r) \<union> set_option (frequency_penalty r) \<union> set_option (presence_penalty r).
        co_float co (JFloat (frepr f)) = Some f)"

lemma request_fields_dump:
  assumes "reads_back co r" and "request_ok r"
  shows "request_fields co (model_dump r) =
     map Answer
       [req_model_update (\<lambda>_. req_model r), messages_update (\<lambda>_. messages r), temperature_update (\<lambda>_. temperature r),
        top_p_update (\<lambda>_. top_p r), frequency_penalty_update (\<lambda>_. frequency_penalty r),
        presence_penalty_update (\<lambda>_. presence_penalty r), max_tokens_update (\<lambda>_. max_tokens r),
        stop_update (\<lambda>_. stop r), seed_update (\<lambda>_. seed r), user_update (\<lambda>_. user r),
        response_format_update (\<lambda>_. response_format r), stream_update (\<lambda>_. stream r)]"
proof -
  let ?ms = "model_dump r"
  have co: "co_int co (JInt i) = Some i" "co_bool co (JBool b) = Some b"
    "co_float co (JFloat (frepr (temperature r))) = Some (temperature r)"
    "x \<in> set_option (top_p r) \<union> set_option (frequency_penalty r) \<union> set_option (presence_penalty r) \<Longrightarrow>
       co_float co (JFloat (frepr x)) = Some x" for i b x
    using assms(1) by (auto simp: reads_back_def)
  note ok = assms(2) [unfolded request_ok_def]
  have "required co [] ?ms ''model'' (str_field co [LocName ''model''] (\<lambda>s. True)) = Answer (req_model r)"
    "with_default ?ms ''temperature'' (temperature default_request)
       (float_field co [LocName ''temperature''] (\<lambda>q. 0 \<le> q \<and> q \<le> 2)) = Answer (temperature r)"
    "with_default ?ms ''stream'' False (bool_field co [LocName ''stream'']) = Answer (stream r)"
    using ok by (simp_all add: required_def with_default_def model_dump_lookup str_field_def float_field_def bool_field_def co)
  moreover have "required co [] ?ms ''messages'' (messages_field co) = Answer (messages r)"
    using ok by (simp add: required_def model_dump_lookup) (intro messages_field_dump; force)
  moreover have
    "with_default ?ms ''top_p'' None (or_none (float_field co [LocName ''top_p''] (\<lambda>q. 0 < q \<and> q \<le> 1))) = Answer (top_p r)"
    "with_default ?ms ''frequency_penalty'' None
       (or_none (float_field co [LocName ''frequency_penalty''] (\<lambda>q. - 2 \<le> q \<and> q \<le> 2))) = Answer (frequency_penalty r)"
    "with_default ?ms ''presence_penalty'' None
       (or_none (float_field co [LocName ''presence_penalty''] (\<lambda>q. - 2 \<le> q \<and> q \<le> 2))) = Answer (presence_penalty r)"
    using ok by (auto intro!: with_default_dump model_dump_lookup simp: float_field_def co)
  moreover have
    "with_default ?ms ''max_tokens'' None (or_none (int_field co [LocName ''max_tokens''] (\<lambda>n. 0 < n))) = Answer (max_tokens r)"
    "with_default ?ms ''seed'' None (or_none (int_field co [LocName ''seed''] (\<lambda>n. True))) = Answer (seed r)"
    using ok by (auto intro!: with_default_dump model_dump_lookup simp: int_field_def co)
  moreover have
    "with_default ?ms ''stop'' None (or_none (stop_field co)) = Answer (stop r)"
    "with_default ?ms ''user'' None (or_none (str_field co [LocName ''user''] (\<lambda>s. length s \<le> 255))) = Answer (user r)"
    "with_default ?ms ''response_format'' None (or_none (format_field co)) = Answer (response_format r)"
    using ok by (auto intro!: with_default_dump model_dump_lookup simp: str_field_def format_field_dump stop_field_dump)
  ultimately show ?thesis by (simp add: request_fields_def)
qed

lemma request_dump_accepted:
  assumes "reads_back co r" and "request_ok r"
  shows "request_of_json co (JObj (model_dump r)) = Answer r"
proof -
  have "list_ex (\<lambda>m. msg_role m = User) (messages r)" using assms(2) by (simp add: request_ok_def list_ex_iff)
  then show ?thesis
    by (simp only: request_of_json_def as_obj.simps option.case request_fields_dump [OF assms] collect_map_Answer)
      (simp add: require_user_message_def)
qed

lemma request_fields_sound:
  fixes sets :: "(chat_request \<Rightarrow> chat_request) list"
  assumes "request_fields co ms = map Answer sets"
  shows "let r = fold id sets default_request in
    (\<exists>v. messages_field co v = Answer (messages r)) \<and>
    with_default ms ''temperature'' (temperature default_request)
      (float_field co [LocName ''temperature''] (\<lambda>q. 0 \<le> q \<and> q \<le> 2)) = Answer (temperature r) \<and>
    with_default ms ''top_p'' None (or_none (float_field co [LocName ''top_p''] (\<lambda>q. 0 < q \<and> q \<le> 1))) = Answer (top_p r) \<and>
    with_default ms ''frequency_penalty'' None
      (or_none (float_field co [LocName ''frequency_penalty''] (\<lambda>q. - 2 \<le> q \<and> q \<le> 2))) = Answer (frequency_penalty r) \<and>
    with_default ms ''presence_penalty'' None
      (or_none (float_field co [LocName ''presence_penalty''] (\<lambda>q. - 2 \<le> q \<and> q \<le> 2))) = Answer (presence_penalty r) \<and>
    with_default ms ''max_tokens'' None (or_none (int_field co [LocName ''max_tokens''] (\<lambda>n. 0 < n))) = Answer (max_tokens r) \<and>
    with_default ms ''stop'' None (or_none (stop_field co)) = Answer (stop r) \<and>
    with_default ms ''user'' None (or_none (str_field co [LocName ''user''] (\<lambda>s. length s \<le> 255))) = Answer (user r) \<and>
    with_default ms ''response_format'' None (or_none (format_field co)) = Answer (response_format r)"
  using assms unfolding request_fields_def
  by (auto simp: Cons_eq_map_conv map_routed_Answer dest!: required_sound)

lemma request_of_json_ok:
  assumes "request_of_json co v = Answer r"
  shows "request_ok r"
proof -
  obtain ms sets where sets: "request_fields co ms = map Answer sets" and
    said: "require_user_message co (fold id sets default_request) = Answer r"
    using assms by (auto simp: request_of_json_def collect_Answer split: option.splits routed.splits)
  from said have r: "fold id sets default_request = r" and user: "\<exists>m \<in> set (messages r). msg_role m = User"
    by (auto simp: require_user_message_def list_ex_iff split: if_splits)
  note fields = request_fields_sound [OF sets, unfolded r Let_def]
  have "1 \<le> length (messages r) \<and> length (messages r) \<le> 100 \<and> list_all message_ok (messages r)"
    using fields messages_field_sound by blast
  moreover have "0 \<le> fval (temperature r) \<and> fval (temperature r) \<le> 2"
    by (rule with_default_sound [of ms "''temperature''" _ _ "temperature r"])
      (use fields float_field_sound in \<open>force simp: default_request_def\<close>)+
  moreover have "pred_option (\<lambda>f. 0 < fval f \<and> fval f \<le> 1) (top_p r)"
    "pred_option (\<lambda>f. - 2 \<le> fval f \<and> fval f \<le> 2) (frequency_penalty r)"
    "pred_option (\<lambda>f. - 2 \<le> fval f \<and> fval f \<le> 2) (presence_penalty r)"
    using fields by (auto elim!: optional_sound dest: float_field_sound)
  moreover have "pred_option (\<lambda>n. 0 < n) (max_tokens r)" "pred_option stop_ok (stop r)"
    "pred_option (\<lambda>u. length u \<le> 255) (user r)" "pred_option format_ok (response_format r)"
    using fields by (auto elim!: optional_sound dest: int_field_sound stop_field_sound str_field_sound format_field_sound)
  ultimately show ?thesis using user by (simp add: request_ok_def)
qed

lemma collect_Raised_in: "collect rs = Raised e \<Longrightarrow> Raised e \<in> set rs"
  by (induction rs rule: collect.induct) (auto split: routed.splits)

lemma collect_Raised_ex: "Raised e \<in> set rs \<Longrightarrow> \<exists>e'. collect rs = Raised e'"
  by (induction rs rule: collect.induct) (auto split: routed.splits)

text \<open>The only exception that leaves the validation.\<close>

definition unhashable_format :: "json \<Rightarrow> bool" where
  "unhashable_format v \<longleftrightarrow>
     (\<exists>ms fmt k. v = JObj ms \<and> map_of ms ''response_format'' = Some (JObj fmt) \<and> map_of fmt ''type'' = Some k \<and> \<not> hashable k)"

lemma str_field_returns [simp]: "str_field co loc P v \<noteq> Raised e"
  and float_field_returns [simp]: "float_field co loc Q v \<noteq> Raised e"
  and int_field_returns [simp]: "int_field co loc R v \<noteq> Raised e"
  and bool_field_returns [simp]: "bool_field co loc v \<noteq> Raised e"
  and role_field_returns [simp]: "role_field co loc v \<noteq> Raised e"
  by (auto simp: str_field_def float_field_def int_field_def bool_field_def role_field_def split: option.splits)

lemma map_routed_Raised [simp]: "map_routed f x = Raised e \<longleftrightarrow> x = Raised e"
  by (cases x) auto

lemma required_Raised: "required co loc ms k check = Raised e \<longleftrightarrow> (\<exists>v. map_of ms k = Some v \<and> check v = Raised e)"
  by (auto simp: required_def split: option.splits)

lemma with_default_Raised: "with_default ms k d check = Raised e \<longleftrightarrow> (\<exists>v. map_of ms k = Some v \<and> check v = Raised e)"
  by (auto simp: with_default_def split: option.splits)

lemma or_none_Raised: "or_none check v = Raised e \<longleftrightarrow> v \<noteq> JNull \<and> check v = Raised e"
  by (auto simp: or_none_def)

lemma message_field_returns [simp]: "message_field co loc v \<noteq> Raised e"
  by (auto simp: message_field_def required_Raised eq_commute [of "Raised e"] split: option.splits dest!: collect_Raised_in)

lemma messages_field_returns [simp]: "messages_field co v \<noteq> Raised e"
  by (auto simp: messages_field_def Let_def eq_commute [of "Raised e"] split: option.splits routed.splits
      dest!: collect_Raised_in)

lemma stop_field_returns [simp]: "stop_field co v \<noteq> Raised e"
  by (auto simp: stop_field_def Let_def eq_commute [of "Raised e"] split: json.splits option.splits routed.splits
      dest!: collect_Raised_in)

lemma format_field_Raised:
  "format_field co v = Raised e \<longleftrightarrow>
     e = TypeErr \<and> (\<exists>ms k. v = JObj ms \<and> map_of ms ''type'' = Some k \<and> \<not> hashable k)"
  by (cases v) (auto simp: format_field_def valid_response_format_def Let_def split: option.splits sum.splits if_splits)

lemma request_fields_Raised:
  "Raised e \<in> set (request_fields co ms) \<longleftrightarrow> e = TypeErr \<and> unhashable_format (JObj ms)"
  by (auto simp: request_fields_def eq_commute [of "Raised e"] required_Raised with_default_Raised or_none_Raised
      format_field_Raised unhashable_format_def)

lemma request_of_json_Raised: "request_of_json co v = Raised e \<longleftrightarrow> e = TypeErr \<and> unhashable_format v"
proof (cases v)
  case (JObj ms)
  have no: "require_user_message co r \<noteq> Raised e" for r by (simp add: require_user_message_def)
  have "request_of_json co v = Raised e \<longleftrightarrow> collect (request_fields co ms) = Raised e"
    using JObj no by (simp add: request_of_json_def split: routed.splits)
  also have "\<dots> \<longleftrightarrow> e = TypeErr \<and> unhashable_format v"
    using collect_Raised_in collect_Raised_ex JObj request_fields_Raised by metis
  finally show ?thesis .
qed (simp_all add: request_of_json_def unhashable_format_def)

text \<open>A rejected value is reported: at least once, and below the body only.\<close>

definition below_body :: "coercion \<Rightarrow> validation_entry list \<Rightarrow> bool" where
  "below_body co es \<longleftrightarrow> es \<noteq> [] \<and> list_all (\<lambda>x. \<exists>loc c. x = entry co loc c \<and> LocName ''body'' \<notin> set loc) es"

definition reported :: "coercion \<Rightarrow> 'a routed \<Rightarrow> bool" where
  "reported co r \<longleftrightarrow> (case r of Invalid es \<Rightarrow> below_body co es | _ \<Rightarrow> True)"

lemma reported_simps [simp]:
  "reported co (Answer x)" "reported co (Raised e)" "reported co (Invalid es) \<longleftrightarrow> below_body co es"
  by (simp_all add: reported_def)

lemma below_body_append: "below_body co es \<Longrightarrow> below_body co es' \<Longrightarrow> below_body co (es @ es')"
  by (simp add: below_body_def)

lemma below_body_entry [simp]: "LocName ''body'' \<notin> set loc \<Longrightarrow> below_body co (entry co loc c # es) \<longleftrightarrow> es = [] \<or> below_body co es"
  by (auto simp: below_body_def)

named_theorems reports \<open>checks that report what they reject\<close>

lemma reported_map [reports]: "reported co r \<Longrightarrow> reported co (map_routed f r)"
  by (cases r) simp_all

lemma reported_all: "list_all (reported co) rs \<Longrightarrow> reported co (collect rs)"
  by (induction rs rule: collect.induct) (auto intro: below_body_append split: routed.splits)

lemma reported_collect [reports]: "(\<And>r. r \<in> set rs \<Longrightarrow> reported co r) \<Longrightarrow> reported co (collect rs)"
  by (rule reported_all) (simp add: list_all_iff)

lemma reported_required [reports]:
  "LocName ''body'' \<notin> set loc \<Longrightarrow> k \<noteq> ''body'' \<Longrightarrow> (\<And>v. reported co (check v)) \<Longrightarrow> reported co (required co loc ms k check)"
  by (auto simp: required_def intro: reports split: option.splits)

lemma reported_with_default [reports]: "(\<And>v. reported co (check v)) \<Longrightarrow> reported co (with_default ms k d check)"
  by (auto simp: with_default_def intro: reports split: option.splits)

lemma reported_or_none [reports]: "(\<And>v. reported co (check v)) \<Longrightarrow> reported co (or_none check v)"
  by (auto simp: or_none_def intro: reports)

lemma reported_field [reports]:
  assumes "LocName ''body'' \<notin> set loc"
  shows "reported co (str_field co loc P v)" "reported co (float_field co loc Q v)" "reported co (int_field co loc R v)"
    "reported co (bool_field co loc v)" "reported co (role_field co loc v)"
  using assms
  by (auto simp: str_field_def float_field_def int_field_def bool_field_def role_field_def intro: reports split: option.splits)

lemma reported_message [reports]: "LocName ''body'' \<notin> set loc \<Longrightarrow> reported co (message_field co loc v)"
  by (auto simp: message_field_def intro!: reports split: option.splits)

lemma reported_continue:
  assumes "reported co r" and "\<And>x. reported co (f x)"
  shows "reported co (case r of Answer x \<Rightarrow> f x | Invalid es \<Rightarrow> Invalid es | Raised e \<Rightarrow> Raised e)"
  using assms by (cases r) simp_all

lemma reported_messages [reports]: "reported co (messages_field co v)"
  by (auto simp: messages_field_def Let_def intro!: reports reported_continue split: option.splits)

lemma reported_stop [reports]: "reported co (stop_field co v)"
proof (cases v)
  case (JArr vs)
  let ?rs = "map (\<lambda>(i, x). str_field co [LocName ''stop'', LocName ''list[str]'', LocIndex (int i)] (\<lambda>s. True) x) (enumerate 0 vs)"
  have "reported co (collect ?rs)" by (auto intro!: reports)
  then show ?thesis
    using JArr by (cases "collect ?rs") (auto simp: stop_field_def Let_def split: option.splits)
qed (auto simp: stop_field_def Let_def split: option.splits)

lemma reported_format [reports]: "reported co (format_field co v)"
  by (auto simp: format_field_def intro!: reports split: option.splits sum.splits)

lemma reported_request: "reported co (request_of_json co v)"
  by (auto simp: request_of_json_def request_fields_def require_user_message_def intro!: reports reported_continue
      split: option.splits)

lemma reported_body: "reported co (chat_body co got)"
  by (auto simp: chat_body_def intro!: reports reported_request split: option.splits)

subsection \<open>Properties\<close>

text \<open>
  C18. The schema accepts exactly the well-formed requests: a request is the value of some body if and only if it is
  within every bound, and then its own dump is such a body, read back as the same request.
\<close>

theorem schema_accepts_exactly:
  assumes "reads_back co r"
  shows "((\<exists>v. request_of_json co v = Answer r) \<longleftrightarrow> request_ok r) \<and>
         (request_ok r \<longrightarrow> request_of_json co (JObj (model_dump r)) = Answer r)"
  using request_dump_accepted [OF assms] request_of_json_ok by blast

definition plain_coercion :: coercion where
  \<comment> \<open>a strict reader that knows one float literal\<close>
  "plain_coercion =
     \<lparr>co_int = (\<lambda>v. case v of JInt i \<Rightarrow> Some i | _ \<Rightarrow> None),
      co_float = (\<lambda>v. if v = JFloat ''1.0'' then Some (mk_float 1 ''1.0'') else None),
      co_bool = (\<lambda>v. case v of JBool b \<Rightarrow> Some b | _ \<Rightarrow> None),
      co_say = (\<lambda>c. case c of ValidatorError m \<Rightarrow> ''Value error, '' @ m | _ \<Rightarrow> ''invalid'')\<rparr>"

lemma sample_reads_back: "reads_back plain_coercion sample_request"
  by (simp add: reads_back_def plain_coercion_def sample_request_def mk_float_def)

lemma sample_request_ok: "request_ok sample_request"
  by (simp add: request_ok_def sample_request_def message_ok_def max_content_def mk_float_def)

theorem schema_accepts_exactly_witness:
  "request_ok sample_request \<and> request_of_json plain_coercion (JObj (model_dump sample_request)) = Answer sample_request"
  using schema_accepts_exactly [OF sample_reads_back] sample_request_ok by blast

text \<open>
  A \<open>type\<close> that is a list or an object is not reported but raised: the membership test hashes it before the
  validator can refuse it, and a \<open>TypeError\<close> is no validation error.
\<close>

theorem unhashable_format_raises:
  "request_of_json co (JObj [(''model'', JStr ''m''), (''messages'', JArr [message_json \<lparr>msg_role = User, msg_content = ''hi''\<rparr>]),
     (''response_format'', JObj [(''type'', JArr [])])]) = Raised TypeErr"
  by (simp add: request_of_json_Raised unhashable_format_def)

end
