(* ===== verification/Chat_Http.thy ===== *)
theory Chat_Http
  imports Request_Body
begin

text \<open>
  \<open>POST /v1/chat/completions\<close> from the bytes of the body to the response: the framework reads the body, solves the
  dependencies, checks the body against \<open>ChatRequest\<close>, runs the route and turns what it gave or raised into a response
  that passes the middlewares.
\<close>

subsection \<open>The chat endpoint as a client sees it\<close>

text \<open>
  The reply of the route as the framework turns it into a response; the headers the dependencies injected are merged into a
  JSON answer by the framework and into a streamed one by the route.
\<close>

definition chat_route_reply :: "'h header_ops \<Rightarrow> exn + chat_reply \<Rightarrow> 'h http_response routed" where
  "chat_route_reply ops res =
     (case res of
        Inl e \<Rightarrow> Raised e
      | Inr (JsonReply r hs) \<Rightarrow>
          Answer \<lparr>http_status = 200, http_headers = header_init ops hs, http_body = JsonBody (response_json r)\<rparr>
      | Inr (StreamReply lines x hs) \<Rightarrow>
          Answer \<lparr>http_status = 200, http_headers = header_init ops hs, http_body = EventBody lines x\<rparr>)"

text \<open>
  The route on what reading the body gave: the decoded value, \<open>None\<close> for no body, the report of malformed JSON or an
  error of the reader.  A body that cannot be read is refused before the dependencies run, a body that does not fit the
  schema only after them.  \<open>None\<close>: the request waits for another one for ever.
\<close>

definition chat_route ::
    "'h header_ops \<Rightarrow> coercion \<Rightarrow> 'w chat_env \<Rightarrow> sql_ops \<Rightarrow> db \<Rightarrow> arrival \<Rightarrow> json option routed \<Rightarrow> 'w gw \<Rightarrow>
     ('h http_response routed \<times> 'w gw) option" where
  "chat_route ops co ce sql d ar got g =
     (case got of
        Raised e \<Rightarrow> Some (Raised e, g)
      | Invalid errs \<Rightarrow> Some (Invalid errs, g)
      | Answer v \<Rightarrow>
          (case chat_dependencies ce sql d ar g of
             (Inl e, g1) \<Rightarrow> Some (Raised e, g1)
           | (Inr (vk, injected), g1) \<Rightarrow>
               (case chat_body co v of
                  Raised e \<Rightarrow> Some (Raised e, g1)
                | Invalid errs \<Rightarrow> Some (Invalid errs, g1)
                | Answer body \<Rightarrow>
                    map_option (map_prod (chat_route_reply ops) id)
                      (chat_completions ce body vk injected (ar_lock_token ar) (ar_latency ar) g1))))"

text \<open>A request through the middlewares.\<close>

definition chat_http ::
    "'h header_ops \<Rightarrow> coercion \<Rightarrow> 'w chat_env \<Rightarrow> sql_ops \<Rightarrow> db \<Rightarrow> arrival \<Rightarrow> json option routed \<Rightarrow> string option \<Rightarrow> string \<Rightarrow>
     'w gw \<Rightarrow> ((exn + 'h http_response) \<times> log_ctx \<times> 'w gw) option" where
  "chat_http ops co ce sql d ar got header uuid g =
     map_option (\<lambda>answered. app_call ops (\<lambda>c w. answered) header uuid Map.empty g)
       (chat_route ops co (ce\<lparr>chat_request_id := Some (request_id_of header uuid)\<rparr>) sql d ar got g)"

text \<open>A refusal in the form OpenAI clients read, naming the request in header and body.\<close>

definition refusal :: "'h header_ops \<Rightarrow> string \<Rightarrow> nat \<Rightarrow> string \<Rightarrow> 'h http_response \<Rightarrow> bool" where
  "refusal ops rid st t r \<longleftrightarrow>
     http_status r = st \<and> header_get ops (http_headers r) ''X-Request-ID'' = Some rid \<and>
     (\<exists>fields. http_body r = JsonBody (JObj [(''error'', JObj fields)]) \<and>
        map_of fields ''type'' = Some (JStr t) \<and> map_of fields ''request_id'' = Some (JStr rid))"

lemma error_fields_no_id: "map_of (error_fields dt) ''request_id'' = None"
  by (cases dt) (simp_all add: error_fields_def opt_field_def split: option.splits)

lemma chat_http_error:
  assumes "headers_ok ops" and "uuid \<noteq> []"
    and "chat_route ops co (ce\<lparr>chat_request_id := Some (request_id_of header uuid)\<rparr>) sql d ar got g = Some (Raised (HttpExn h), g')"
    and "map_of (error_fields (detail h)) ''type'' = Some (JStr t)"
  shows "\<exists>r. chat_http ops co ce sql d ar got header uuid g = Some (Inr r, Map.empty, g') \<and>
           refusal ops (request_id_of header uuid) (status_code h) t r \<and>
           header_get ops (http_headers r) ''Retry-After'' =
             map_of (map (map_prod lower id) (exc_headers h)) ''retry-after''"
proof -
  let ?rid = "request_id_of header uuid"
  let ?r = "marked ops ?rid (openai_style_exception_handler ops (Map.empty(''request_id'' \<mapsto> ?rid)) h)"
  have "app_call ops (\<lambda>c w. (Raised (HttpExn h), g')) header uuid Map.empty g = (Inr ?r, Map.empty, g')"
    by (simp add: app_call_Inr handle_exceptions_def)
  then show ?thesis
    using assms(3,4) marked_request_id [OF assms(1)] error_response_header [OF assms(1)]
    by (simp add: chat_http_def refusal_def error_response_status error_response_body [OF request_id_nonempty [OF assms(2)]]
        error_fields_no_id map_add_def APP_REQUEST_ID_HEADER_def)
qed

text \<open>The route on a readable body, by the outcome of the dependencies.\<close>

lemma route_refuses:
  assumes "authenticate_request (env_sha (chat_base ce)) (ar_wall ar) d (ar_auth ar) = Inr vk"
    and "check_rate_limit_status (exec_of ce) (env_settings (chat_base ce)) (ar_now ar) (ar_now_repr ar) (ar_rl_token ar) vk
           (gw_world g) = (Inr st, w)"
  shows "\<not> rl_allowed st \<Longrightarrow> chat_route ops co ce sql d ar (Answer v) g =
           Some (Raised (HttpExn \<lparr>status_code = 429, detail = ErrorDetail ''Rate limit exceeded'' ''rate_limit_error'' None,
               exc_headers = (''Retry-After'', str_int (RATE_LIMIT_WINDOW_SECONDS (env_settings (chat_base ce)))) # rate_headers st\<rparr>),
             failed vk [] 0 ''rate_limited'' (g\<lparr>gw_world := w\<rparr>))"
    and "rl_allowed st \<Longrightarrow> enforce_spend_cap sql (env_settings (chat_base ce)) d vk = Inl e \<Longrightarrow>
           chat_route ops co ce sql d ar (Answer v) g = Some (Raised e, g\<lparr>gw_world := w\<rparr>)"
    and "rl_allowed st \<Longrightarrow> enforce_spend_cap sql (env_settings (chat_base ce)) d vk = Inr vk' \<Longrightarrow>
           chat_route ops co ce sql d ar (Answer v) g =
             (case chat_body co v of
                Raised e \<Rightarrow> Some (Raised e, g\<lparr>gw_world := w\<rparr>)
              | Invalid errs \<Rightarrow> Some (Invalid errs, g\<lparr>gw_world := w\<rparr>)
              | Answer body \<Rightarrow>
                  map_option (map_prod (chat_route_reply ops) id)
                    (chat_completions ce body vk (rate_headers st) (ar_lock_token ar) (ar_latency ar) (g\<lparr>gw_world := w\<rparr>)))"
  using assms by (simp_all add: chat_route_def chat_dependencies_def rate_limited_def limit_key_def Let_def enforce_rate_limit_def)

lemma route_capped:
  assumes auth: "authenticate_request (env_sha (chat_base ce)) (ar_wall ar) d (ar_auth ar) = Inr vk"
    and rl: "check_rate_limit_status (exec_of ce) (env_settings (chat_base ce)) (ar_now ar) (ar_now_repr ar) (ar_rl_token ar) vk
           (gw_world g) = (Inr st, w)"
    and allowed: "rl_allowed st" and cap: "enforce_spend_cap sql (env_settings (chat_base ce)) d vk \<noteq> Inr vk"
  shows "\<exists>m. chat_route ops co ce sql d ar (Answer v) g = Some (Raised (insufficient_quota m), g\<lparr>gw_world := w\<rparr>)"
proof -
  obtain e where e: "enforce_spend_cap sql (env_settings (chat_base ce)) d vk = Inl e"
    using cap by (cases "enforce_spend_cap sql (env_settings (chat_base ce)) d vk") (auto simp: enforce_Inr_iff)
  then obtain m where "e = insufficient_quota m" using enforce_Inl_quota by blast
  with e show ?thesis using route_refuses(2) [OF auth rl allowed, where sql = sql and ops = ops and co = co and v = v] by auto
qed

lemma rate_header_names [simp]:
  "lower ''X-RateLimit-Limit'' = ''x-ratelimit-limit''" "lower ''X-RateLimit-Remaining'' = ''x-ratelimit-remaining''"
  "lower ''X-RateLimit-Reset'' = ''x-ratelimit-reset''"
  by code_simp+

lemma sample_body: "chat_body plain_coercion (Some (JObj (model_dump sample_request))) = Answer sample_request"
  by (simp add: chat_body_def request_dump_accepted sample_reads_back sample_request_ok)

text \<open>
  C9. Every refusal reaches the client as what it is and costs nothing: a request without a valid key gets a 401 and touches
  nothing; one over the rate limit gets a 429 that says when to retry, and is recorded as a failure only; one whose key
  or gateway has spent its cap gets a 429 and is not recorded.  Each names the request in its header and body.
\<close>

theorem chat_refusals:
  assumes "headers_ok ops" and "uuid \<noteq> []" and "db_ok d"
  shows "(\<forall>e. authenticate_request (env_sha (chat_base ce)) (ar_wall ar) d (ar_auth ar) = Inl e \<longrightarrow>
            (\<exists>r. chat_http ops co ce sql d ar (Answer v) header uuid g = Some (Inr r, Map.empty, g) \<and>
                 refusal ops (request_id_of header uuid) 401 ''invalid_request_error'' r)) \<and>
         (\<forall>vk st w. authenticate_request (env_sha (chat_base ce)) (ar_wall ar) d (ar_auth ar) = Inr vk \<longrightarrow>
            check_rate_limit_status (exec_of ce) (env_settings (chat_base ce)) (ar_now ar) (ar_now_repr ar) (ar_rl_token ar) vk
              (gw_world g) = (Inr st, w) \<longrightarrow>
            (\<not> rl_allowed st \<longrightarrow>
               (\<exists>r g'. chat_http ops co ce sql d ar (Answer v) header uuid g = Some (Inr r, Map.empty, g') \<and>
                  refusal ops (request_id_of header uuid) 429 ''rate_limit_error'' r \<and>
                  header_get ops (http_headers r) ''Retry-After'' =
                    Some (str_int (RATE_LIMIT_WINDOW_SECONDS (env_settings (chat_base ce)))) \<and>
                  gw_world g' = w \<and> gw_tasks g' = gw_tasks g @ [PersistFailure vk [] [] 0 ''rate_limited''])) \<and>
            (rl_allowed st \<longrightarrow> enforce_spend_cap sql (env_settings (chat_base ce)) d vk \<noteq> Inr vk \<longrightarrow>
               (\<exists>r. chat_http ops co ce sql d ar (Answer v) header uuid g = Some (Inr r, Map.empty, g\<lparr>gw_world := w\<rparr>) \<and>
                  refusal ops (request_id_of header uuid) 429 ''insufficient_quota'' r)))"
proof (intro conjI allI impI)
  let ?ce = "ce\<lparr>chat_request_id := Some (request_id_of header uuid)\<rparr>"
  note refuse = chat_http_error [OF assms(1,2)]
  fix e assume auth: "authenticate_request (env_sha (chat_base ce)) (ar_wall ar) d (ar_auth ar) = Inl e"
  then obtain m where m: "e = unauthorized m" using authenticate_Inl [OF assms(3)] by blast
  with auth have "chat_route ops co ?ce sql d ar (Answer v) g = Some (Raised (unauthorized m), g)"
    by (simp add: chat_route_def chat_dependencies_def rate_limited_def limit_key_def)
  from refuse [OF this [unfolded unauthorized_def]]
  show "\<exists>r. chat_http ops co ce sql d ar (Answer v) header uuid g = Some (Inr r, Map.empty, g) \<and>
      refusal ops (request_id_of header uuid) 401 ''invalid_request_error'' r"
    by (auto simp: error_fields_def)
next
  let ?ce = "ce\<lparr>chat_request_id := Some (request_id_of header uuid)\<rparr>"
  note refuse = chat_http_error [OF assms(1,2)]
  fix vk st w
  assume auth: "authenticate_request (env_sha (chat_base ce)) (ar_wall ar) d (ar_auth ar) = Inr vk"
    and rl: "check_rate_limit_status (exec_of ce) (env_settings (chat_base ce)) (ar_now ar) (ar_now_repr ar) (ar_rl_token ar) vk
              (gw_world g) = (Inr st, w)"
  have deps: "authenticate_request (env_sha (chat_base ?ce)) (ar_wall ar) d (ar_auth ar) = Inr vk"
    "check_rate_limit_status (exec_of ?ce) (env_settings (chat_base ?ce)) (ar_now ar) (ar_now_repr ar) (ar_rl_token ar) vk
       (gw_world g) = (Inr st, w)"
    using auth rl by simp_all
  note ends = route_refuses [OF deps]
  show "\<exists>r g'. chat_http ops co ce sql d ar (Answer v) header uuid g = Some (Inr r, Map.empty, g') \<and>
      refusal ops (request_id_of header uuid) 429 ''rate_limit_error'' r \<and>
      header_get ops (http_headers r) ''Retry-After'' =
        Some (str_int (RATE_LIMIT_WINDOW_SECONDS (env_settings (chat_base ce)))) \<and>
      gw_world g' = w \<and> gw_tasks g' = gw_tasks g @ [PersistFailure vk [] [] 0 ''rate_limited'']"
    if "\<not> rl_allowed st"
    using refuse [OF ends(1) [OF that, where sql = sql and ops = ops and co = co and v = v], where t = "''rate_limit_error''"]
    by (auto simp: error_fields_def)
  show "\<exists>r. chat_http ops co ce sql d ar (Answer v) header uuid g = Some (Inr r, Map.empty, g\<lparr>gw_world := w\<rparr>) \<and>
      refusal ops (request_id_of header uuid) 429 ''insufficient_quota'' r"
    if allowed: "rl_allowed st" and cap: "enforce_spend_cap sql (env_settings (chat_base ce)) d vk \<noteq> Inr vk"
  proof -
    obtain m where "chat_route ops co ?ce sql d ar (Answer v) g = Some (Raised (insufficient_quota m), g\<lparr>gw_world := w\<rparr>)"
      using route_capped [OF deps allowed, of sql ops co v] cap by auto
    from refuse [OF this [unfolded insufficient_quota_def]] show ?thesis by (auto simp: error_fields_def opt_field_def)
  qed
qed

theorem chat_refusals_witness:
  "\<exists>r. chat_http list_headers plain_coercion (demo_chat [sse_done]) exact_sql (capped_db dec_zero) (demo_arrival\<lparr>ar_auth := None\<rparr>)
       (Answer None) None ''u'' (demo_gw ()) = Some (Inr r, Map.empty, demo_gw ()) \<and>
     refusal list_headers ''u'' 401 ''invalid_request_error'' r"
proof -
  let ?ar = "demo_arrival\<lparr>ar_auth := None\<rparr>" and ?ce = "demo_chat [sse_done]"
  have db: "db_ok (capped_db dec_zero)" by (simp add: db_ok_def capped_db_def)
  have "authenticate_request (env_sha (chat_base ?ce)) (ar_wall ?ar) (capped_db dec_zero) (ar_auth ?ar) =
      Inl (unauthorized ''Missing or invalid API key'')"
    by (simp add: authenticate_request_def bearer_key_def)
  with chat_refusals [OF list_headers_ok _ db, of "''u''" ?ce ?ar plain_coercion exact_sql None None "demo_gw ()"]
  show ?thesis by (simp add: request_id_of_def given_def)
qed

text \<open>
  C10. An admitted request is answered with its response: the client gets 200, the JSON of exactly the response the
  gateway produced, the quota headers of the limiter's verdict and the request id, and the state is the one
  the gateway left.
\<close>

theorem chat_answers:
  assumes "headers_ok ops"
    and "authenticate_request (env_sha (chat_base ce)) (ar_wall ar) d (ar_auth ar) = Inr vk"
    and "check_rate_limit_status (exec_of ce) (env_settings (chat_base ce)) (ar_now ar) (ar_now_repr ar) (ar_rl_token ar) vk
           (gw_world g) = (Inr st, w)"
    and "rl_allowed st" and "enforce_spend_cap sql (env_settings (chat_base ce)) d vk = Inr vk"
    and "chat_body co v = Answer body" and "enforce_max_tokens (env_settings (chat_base ce)) body = Inr body1" and "\<not> stream body1"
    and "handle_chat_completion (chat_base ce) body1 vk (ar_lock_token ar) (ar_latency ar) (g\<lparr>gw_world := w\<rparr>) = Some (Inr x, g1)"
  shows "\<exists>r. chat_http ops co ce sql d ar (Answer v) header uuid g = Some (Inr r, Map.empty, g1) \<and>
           http_status r = 200 \<and> http_body r = JsonBody (response_json x) \<and>
           header_get ops (http_headers r) ''X-Request-ID'' = Some (request_id_of header uuid) \<and>
           (\<forall>(k, v) \<in> set (rate_headers st). header_get ops (http_headers r) k = Some v)"
proof -
  let ?ce = "ce\<lparr>chat_request_id := Some (request_id_of header uuid)\<rparr>" and ?rid = "request_id_of header uuid"
  let ?r0 = "\<lparr>http_status = 200, http_headers = header_init ops (rate_headers st), http_body = JsonBody (response_json x)\<rparr>"
  have "chat_route ops co ?ce sql d ar (Answer v) g = Some (Answer ?r0, g1)"
    using route_refuses(3) [of ?ce ar d vk g st w sql vk ops co v] assms(2-9)
    by (simp add: chat_completions_def chat_route_reply_def)
  then have "chat_http ops co ce sql d ar (Answer v) header uuid g = Some (Inr (marked ops ?rid ?r0), Map.empty, g1)"
    by (simp add: chat_http_def app_call_Inr handle_exceptions_def)
  moreover have "\<forall>(k, v) \<in> set (rate_headers st). header_get ops (http_headers (marked ops ?rid ?r0)) k = Some v"
    by (auto simp: rate_headers_def marked_other [OF assms(1)] SECURITY_HEADERS_def APP_REQUEST_ID_HEADER_def
        headers_ok_init [OF assms(1)])
  ultimately show ?thesis
    using marked_request_id [OF assms(1), of ?rid ?r0] by (simp add: APP_REQUEST_ID_HEADER_def)
qed

text \<open>The demo process, whose Redis is down, answers a plain request with the response of its provider.\<close>

lemma demo_base [simp]:
  "env_monotonic (chat_base (demo_chat ls)) = (\<lambda>w. 0)" "request_key (chat_base (demo_chat ls)) req vk = ''h''"
  "env_call (chat_base (demo_chat ls)) = (\<lambda>p req w. (Inr sample_response, w))" "env_enc (chat_base (demo_chat ls)) = json_enc"
  by (simp_all add: demo_chat_def down_env_def request_key_def build_cache_key_def)

lemma demo_answer:
  "\<exists>g1. handle_chat_completion (chat_base (demo_chat ls)) req vk t l (demo_gw ()) = Some (Inr sample_response, g1)"
proof -
  let ?b = "chat_base (demo_chat ls)" and ?q = "sample_provider ''a'' 0 []"
  let ?d = "\<lambda>p g. drive ?b req vk t l p g"
  let ?g0 = "demo_gw () \<lparr>gw_prom := record_cache_event ''error'' empty_prom\<rparr>"
  let ?u = "build_usage_record vk ''a'' (pricing_for (config ?q) (req_model req)) (resp_model sample_response)
      (resp_usage sample_response) l"
  note env = demo_gw_def sample_registry_serves
  have "?d Arrived (demo_gw ()) = ?d (Looked None) ?g0" by (rule drive_step) (simp_all add: env cache_get_def)
  also have "\<dots> = ?d Locking ?g0" by (rule drive_step) (simp_all add: env)
  also have "\<dots> = ?d (Locked None) ?g0" by (rule drive_step) (simp_all add: env acquire_lock_def)
  also have "\<dots> = ?d Waiting ?g0" by (rule drive_step) simp_all
  also have "\<dots> = ?d (Waited None) ?g0"
    by (rule drive_step) (simp_all add: env wait_for_result_def poll_result.simps WAIT_TIMEOUT_SECONDS_def)
  also have "\<dots> = ?d (Calling None 0) (?g0\<lparr>inflight := [''h'' \<mapsto> 0], futures := [Pending]\<rparr>)"
    by (rule drive_step) (simp_all add: env lead_def)
  also have "\<dots> = ?d (Called None 0 (Inr (?q, sample_response))) (?g0\<lparr>inflight := [''h'' \<mapsto> 0], futures := [Pending]\<rparr>)"
    by (rule drive_step) (simp_all add: env execute_with_fallback_def)
  also have "\<dots> = ?d (Released 0 (Inr (?q, sample_response))) (?g0\<lparr>futures := [Pending]\<rparr>)"
    by (rule drive_step) (simp_all add: env unregister_def)
  also have "\<dots> = ?d (Saving ?q sample_response) (?g0\<lparr>futures := [Completed sample_response]\<rparr>)"
    by (rule drive_step) (simp_all add: complete_def)
  also have "\<dots> = ?d (Saved ?q sample_response) (?g0\<lparr>futures := [Completed sample_response]\<rparr>)"
    by (rule drive_step) (simp_all add: env cache_set_def)
  also have "\<dots> = (Finished (Inr sample_response), accounted ?u (?g0\<lparr>futures := [Completed sample_response]\<rparr>))"
    using sample_priced [of "''a''" 0 "[]" "req_model req"] sample_usage_nonneg
    by (simp add: drive_step finish_with_ok priced_nonneg_def)
  finally show ?thesis by (simp add: handle_chat_completion_def)
qed

theorem chat_answers_witness:
  "\<exists>r g1. chat_http list_headers plain_coercion (demo_chat []) exact_sql (capped_db dec_zero) demo_arrival
       (Answer (Some (JObj (model_dump sample_request)))) (Some ''abc'') ''u'' (demo_gw ()) = Some (Inr r, Map.empty, g1) \<and>
     http_status r = 200 \<and> http_body r = JsonBody (response_json sample_response) \<and>
     header_get list_headers (http_headers r) ''X-Request-ID'' = Some ''abc''"
proof -
  let ?s = "default_settings\<lparr>RATE_LIMIT_FAIL_OPEN := True\<rparr>"
  let ?req = "sample_request\<lparr>max_tokens := Some (MAX_TOKENS_PER_REQUEST ?s)\<rparr>"
  obtain g1 where g1: "handle_chat_completion (chat_base (demo_chat [])) ?req 7 (ar_lock_token demo_arrival)
      (ar_latency demo_arrival) (demo_gw () \<lparr>gw_world := ()\<rparr>) = Some (Inr sample_response, g1)"
    using demo_answer by fastforce
  have deps: "authenticate_request (env_sha (chat_base (demo_chat []))) (ar_wall demo_arrival) (capped_db dec_zero)
      (ar_auth demo_arrival) = Inr 7"
    "check_rate_limit_status (exec_of (demo_chat [])) (env_settings (chat_base (demo_chat []))) (ar_now demo_arrival)
      (ar_now_repr demo_arrival) (ar_rl_token demo_arrival) 7 (gw_world (demo_gw ())) = (Inr (rl_fallback ?s), ())"
    "rl_allowed (rl_fallback ?s)" "enforce_spend_cap exact_sql (env_settings (chat_base (demo_chat []))) (capped_db dec_zero) 7 = Inr 7"
    "enforce_max_tokens (env_settings (chat_base (demo_chat []))) sample_request = Inr ?req" "\<not> stream ?req"
    by (simp_all add: demo_arrival_def demo_admitted rl_fallback_def enforce_max_tokens_def sample_request_def)
  from chat_answers [OF list_headers_ok deps(1-4) sample_body deps(5,6) g1, of "Some ''abc''" "''u''"] show ?thesis
    by (auto simp: request_id_of_def given_def)
qed

text \<open>The body of a request that does not fit the schema, answered: what is wrong and where.\<close>

lemma validation_response:
  assumes "LocName ''body'' \<notin> set loc"
  shows "http_body (validation_exception_handler ops (entry co loc c # es)) =
           JsonBody (JObj [(''error'', JObj ([(''type'', JStr ''invalid_request_error''), (''message'', JStr (co_say co c))]
             @ (if dotted (map loc_text loc) \<noteq> [] then [(''param'', JStr (dotted (map loc_text loc)))] else [])))])"
    and "http_status (validation_exception_handler ops es') = 400"
    and "http_headers (validation_exception_handler ops es') = header_init ops []"
proof -
  have "filter (\<lambda>p. p \<noteq> LocName ''body'') loc = loc" using assms by (intro filter_True) auto
  then show "http_body (validation_exception_handler ops (entry co loc c # es)) =
           JsonBody (JObj [(''error'', JObj ([(''type'', JStr ''invalid_request_error''), (''message'', JStr (co_say co c))]
             @ (if dotted (map loc_text loc) \<noteq> [] then [(''param'', JStr (dotted (map loc_text loc)))] else [])))])"
    by (simp add: validation_exception_handler_def entry_def Let_def)
qed (simp_all add: validation_exception_handler_def Let_def)

text \<open>
  C19. A body the schema refuses gets a 400 that says what is wrong and in which field, and no provider is called for it;
  the credentials are checked first and the request counts against the key's rate limit all the same.
\<close>

theorem invalid_body_refused:
  assumes "headers_ok ops"
    and "authenticate_request (env_sha (chat_base ce)) (ar_wall ar) d (ar_auth ar) = Inr vk"
    and "check_rate_limit_status (exec_of ce) (env_settings (chat_base ce)) (ar_now ar) (ar_now_repr ar) (ar_rl_token ar) vk
           (gw_world g) = (Inr st, w)"
    and "rl_allowed st" and "enforce_spend_cap sql (env_settings (chat_base ce)) d vk = Inr vk"
    and "\<And>body. chat_body co v \<noteq> Answer body" and "\<And>ms. v = Some (JObj ms) \<Longrightarrow> \<not> unhashable_format (JObj ms)"
  shows "\<exists>r loc c es. chat_body co v = Invalid (entry co loc c # es) \<and>
           chat_http ops co ce sql d ar (Answer v) header uuid g = Some (Inr r, Map.empty, g\<lparr>gw_world := w\<rparr>) \<and>
           http_status r = 400 \<and> header_get ops (http_headers r) ''X-Request-ID'' = Some (request_id_of header uuid) \<and>
           http_body r = JsonBody (JObj [(''error'', JObj ([(''type'', JStr ''invalid_request_error''), (''message'', JStr (co_say co c))]
             @ (if dotted (map loc_text loc) \<noteq> [] then [(''param'', JStr (dotted (map loc_text loc)))] else [])))])"
proof -
  let ?ce = "ce\<lparr>chat_request_id := Some (request_id_of header uuid)\<rparr>" and ?rid = "request_id_of header uuid"
  have "chat_body co v \<noteq> Raised e" for e
    using assms(7) by (auto simp: chat_body_def request_of_json_Raised unhashable_format_def split: option.splits if_splits)
  then obtain es' where es': "chat_body co v = Invalid es'" using assms(6) by (cases "chat_body co v") auto
  with reported_body [of co v] obtain loc c es where es: "es' = entry co loc c # es" "LocName ''body'' \<notin> set loc"
    by (cases es') (auto simp: below_body_def)
  let ?r = "marked ops ?rid (validation_exception_handler ops es')"
  have "chat_route ops co ?ce sql d ar (Answer v) g = Some (Invalid es', g\<lparr>gw_world := w\<rparr>)"
    using route_refuses(3) [of ?ce ar d vk g st w sql vk ops co v] assms(2-5) es' by simp
  then have "chat_http ops co ce sql d ar (Answer v) header uuid g = Some (Inr ?r, Map.empty, g\<lparr>gw_world := w\<rparr>)"
    by (simp add: chat_http_def app_call_Inr handle_exceptions_def)
  then show ?thesis
    using es es' marked_request_id [OF assms(1), of ?rid]
    by (intro exI [of _ ?r] exI [of _ loc] exI [of _ c] exI [of _ es])
      (simp add: APP_REQUEST_ID_HEADER_def validation_response)
qed

theorem invalid_body_refused_witness:
  "\<exists>r. chat_http list_headers plain_coercion (demo_chat []) exact_sql (capped_db dec_zero) demo_arrival (Answer None) None ''u''
       (demo_gw ()) = Some (Inr r, Map.empty, demo_gw ()) \<and> http_status r = 400"
proof -
  let ?s = "default_settings\<lparr>RATE_LIMIT_FAIL_OPEN := True\<rparr>"
  have deps: "authenticate_request (env_sha (chat_base (demo_chat []))) (ar_wall demo_arrival) (capped_db dec_zero)
      (ar_auth demo_arrival) = Inr 7"
    "check_rate_limit_status (exec_of (demo_chat [])) (env_settings (chat_base (demo_chat []))) (ar_now demo_arrival)
      (ar_now_repr demo_arrival) (ar_rl_token demo_arrival) 7 (gw_world (demo_gw ())) = (Inr (rl_fallback ?s), ())"
    "rl_allowed (rl_fallback ?s)" "enforce_spend_cap exact_sql (env_settings (chat_base (demo_chat []))) (capped_db dec_zero) 7 = Inr 7"
    "chat_body plain_coercion None \<noteq> Answer body" for body
    by (simp_all add: demo_arrival_def demo_admitted rl_fallback_def chat_body_def)
  from invalid_body_refused [OF list_headers_ok deps, of None "''u''"] show ?thesis by auto
qed

text \<open>A \<open>response_format\<close> whose \<open>type\<close> is a list or an object gets the server's bare 500 instead: no handler knows the exception.\<close>

theorem unhashable_format_crashes:
  assumes "authenticate_request (env_sha (chat_base ce)) (ar_wall ar) d (ar_auth ar) = Inr vk"
    and "check_rate_limit_status (exec_of ce) (env_settings (chat_base ce)) (ar_now ar) (ar_now_repr ar) (ar_rl_token ar) vk
           (gw_world g) = (Inr st, w)"
    and "rl_allowed st" and "enforce_spend_cap sql (env_settings (chat_base ce)) d vk = Inr vk"
    and "unhashable_format v"
  shows "chat_http ops co ce sql d ar (Answer (Some v)) header uuid g = Some (Inl TypeErr, Map.empty, g\<lparr>gw_world := w\<rparr>)"
proof -
  let ?ce = "ce\<lparr>chat_request_id := Some (request_id_of header uuid)\<rparr>"
  have "chat_body co (Some v) = Raised TypeErr"
    using assms(5) by (auto simp: chat_body_def request_of_json_Raised unhashable_format_def)
  then have "chat_route ops co ?ce sql d ar (Answer (Some v)) g = Some (Raised TypeErr, g\<lparr>gw_world := w\<rparr>)"
    using route_refuses(3) [of ?ce ar d vk g st w sql vk ops co "Some v"] assms(1-4) by simp
  then show ?thesis by (simp add: chat_http_def app_call_Inl handle_exceptions_Inl)
qed

end
