(* ===== verification/Service.thy ===== *)
theory Service
  imports Single_Flight Stream_Tasks Chat_Http
begin

text \<open>
  The service as a whole: one process with its requests, its queue of background writes and the database.  A request passes
  the dependencies one by one, each on the database and the process it finds; then it runs in the segments of
  \<open>Single_Flight\<close>, or those of \<open>Stream_Tasks\<close> when it is streamed, and is answered or fails; its record is
  queued and written some time later, in any order, or lost; keys are created and revoked meanwhile, other replicas change
  the outside world, clients hang up, and the process may be restarted.  The wait for another replica's result is one segment, or its single rounds
  (\<open>Poll\<close>) until it ends (\<open>Give_Up\<close>).
\<close>

subsection \<open>State\<close>

text \<open>
  What a client received and where it came from: the response of a request, with the provider that gave it or none (the
  cache, another request's future or another replica), or the lines of a stream with the exception that broke it off,
  and the point its last segment started from (the response it replays, or the lines of its upstream).
  \<open>delivered\<close>, \<open>lost\<close> and \<open>made\<close> are history; \<open>closed\<close> are the requests whose failure the route has reported.
\<close>

datatype delivery =
    Delivered int chat_request chat_response "provider option"
  | Relayed int chat_request "string list" "exn option" stream_pc

text \<open>
  How far the dependencies of a request have come: the key is known (\<open>authenticate_request\<close>), within its rate limit
  (\<open>enforce_rate_limit\<close>), below its own cap (the first half of \<open>enforce_spend_cap\<close>); \<open>Away\<close>: refused
  or let in.
\<close>

datatype visit =
    Known int
  | Limited int
  | Below int
  | Away

record 'w service =
  svc_conf :: "'w conf"
  svc_db :: db
  visitors :: "(arrival \<times> json option \<times> visit) list"
  relays :: "(string option \<times> chat_request \<times> int \<times> stream_pc) list"
  closed :: "nat set"
  delivered :: "delivery list"
  lost :: "usage_record list"
  made :: "(int \<times> chat_request \<times> chat_response) list"

definition new_process :: "'w \<Rightarrow> 'w conf" where
  "new_process w =
     start_conf \<lparr>gw_world = w, gw_prom = empty_prom, gw_tasks = [], inflight = Map.empty, futures = []\<rparr>"

definition start_service :: "'w \<Rightarrow> db \<Rightarrow> 'w service" where
  "start_service w d =
     \<lparr>svc_conf = new_process w, svc_db = d, visitors = [], relays = [], closed = {}, delivered = [], lost = [], made = []\<rparr>"

abbreviation svc_gw :: "'w service \<Rightarrow> 'w gw" where
  "svc_gw s \<equiv> shared (svc_conf s)"

definition set_gw :: "'w gw \<Rightarrow> 'w service \<Rightarrow> 'w service" where
  "set_gw g s = s\<lparr>svc_conf := (svc_conf s)\<lparr>shared := g\<rparr>\<rparr>"

text \<open>The usage records among the queued tasks, and those a task loses when the server refuses its statement.\<close>

fun usage_records :: "task list \<Rightarrow> usage_record list" where
  "usage_records [] = []"
| "usage_records (PersistUsage r # ts) = r # usage_records ts"
| "usage_records (PersistFailure k p m l e # ts) = usage_records ts"

fun lost_by :: "sql_ops \<Rightarrow> server \<Rightarrow> task \<Rightarrow> db \<Rightarrow> usage_record list" where
  "lost_by sql srv (PersistUsage r) d = (if fst (create_usage_log sql srv (usage_data r) d) = None then [] else [r])"
| "lost_by sql srv (PersistFailure k p m l e) d = []"

fun admin_op :: "db_op \<Rightarrow> bool" where
  "admin_op (AddKey srv h c l x) = True"
| "admin_op (Deactivate i) = True"
| "admin_op (Audit srv a i c t) = True"
| "admin_op x = False"

fun answer_of :: "pc \<Rightarrow> chat_response option" where
  "answer_of (Finished (Inr r)) = Some r"
| "answer_of p = None"

fun in_flight :: "pc \<Rightarrow> bool" where
  "in_flight (Finished v) = False"
| "in_flight Gone = False"
| "in_flight p = True"

text \<open>The provider whose response a leader carries.\<close>

fun carries :: "pc \<Rightarrow> provider option" where
  "carries (Called t f (Inr pr)) = Some (fst pr)"
| "carries (Releasing t f (Inr pr)) = Some (fst pr)"
| "carries (Released f (Inr pr)) = Some (fst pr)"
| "carries (Saving q r) = Some q"
| "carries (Saved q r) = Some q"
| "carries p = None"

definition new_delivery :: "int \<Rightarrow> chat_request \<Rightarrow> pc \<Rightarrow> pc \<Rightarrow> delivery list" where
  "new_delivery vk req p p' =
     (case answer_of p' of
        Some r \<Rightarrow> if in_flight p then [Delivered vk req r (carries p)] else []
      | None \<Rightarrow> [])"

fun new_relayed :: "int \<Rightarrow> chat_request \<Rightarrow> stream_pc \<Rightarrow> stream_pc \<Rightarrow> delivery list" where
  "new_relayed vk req p (Ended lines x) = (if streaming p then [Relayed vk req lines x p] else [])"
| "new_relayed vk req p p' = []"

text \<open>
  The responses a step obtains from a provider, with the key and the request they were obtained for: of a call, or of a
  stream that was relayed to its end, as it is accumulated for the cache.
\<close>

fun new_made :: "int \<Rightarrow> chat_request \<Rightarrow> pc \<Rightarrow> pc \<Rightarrow> (int \<times> chat_request \<times> chat_response) list" where
  "new_made vk req (Calling t f) (Called t' f' (Inr pr)) = [(vk, req, snd pr)]"
| "new_made vk req p p' = []"

definition accumulated :: "int \<Rightarrow> (provider \<times> string) list \<Rightarrow> chat_response list" where
  "accumulated now items =
     (case relay_lines items new_relay of
        (lines, Inl e) \<Rightarrow> []
      | (lines, Inr r) \<Rightarrow>
          (case to_response now (rs_acc r) of
             Inl e \<Rightarrow> []
           | Inr response \<Rightarrow> if saw_any_chunk (rs_acc r) then [response] else []))"

fun new_streamed :: "'w chat_env \<Rightarrow> int \<Rightarrow> chat_request \<Rightarrow> stream_pc \<Rightarrow> 'w gw \<Rightarrow> (int \<times> chat_request \<times> chat_response) list" where
  "new_streamed ce vk req (Upstream items None) g = map (\<lambda>r. (vk, req, r)) (accumulated (chat_time ce (gw_world g)) items)"
| "new_streamed ce vk req p g = []"

subsection \<open>Steps\<close>

text \<open>
  What the gateway's own cap, the schema and the bound on \<open>max_tokens\<close> make of a request: nothing, or the request that
  enters the handler.
\<close>

definition admission :: "coercion \<Rightarrow> 'w chat_env \<Rightarrow> sql_ops \<Rightarrow> db \<Rightarrow> json option \<Rightarrow> chat_request option" where
  "admission co ce sql d v =
     (case global_cap_error sql (env_settings (chat_base ce)) d of
        Some e \<Rightarrow> None
      | None \<Rightarrow>
          (case chat_body co v of
             Answer body \<Rightarrow>
               (case enforce_max_tokens (env_settings (chat_base ce)) body of
                  Inl e \<Rightarrow> None
                | Inr body1 \<Rightarrow> Some body1)
           | _ \<Rightarrow> None))"

inductive service_step :: "coercion \<Rightarrow> 'w chat_env \<Rightarrow> sql_ops \<Rightarrow> 'w service \<Rightarrow> 'w service \<Rightarrow> bool"
  for co :: coercion and ce :: "'w chat_env" and sql :: sql_ops where
  Knock: "service_step co ce sql s (s\<lparr>visitors := visitors s @ [(ar, v, Known vk)]\<rparr>)"
    if "authenticate_request (env_sha (chat_base ce)) (ar_wall ar) (svc_db s) (ar_auth ar) = Inr vk"
| Limit: "service_step co ce sql s
      ((set_gw g1 s)\<lparr>visitors := (visitors s)[i := (ar, v, case r of Inl e \<Rightarrow> Away | Inr x \<Rightarrow> Limited vk)]\<rparr>)"
    if "i < length (visitors s)" and "visitors s ! i = (ar, v, Known vk)"
      and "limit_key ce ar vk (svc_gw s) = (r, g1)"
| Key_Cap: "service_step co ce sql s
      (s\<lparr>visitors := (visitors s)[i := (ar, v, case key_cap_error sql (svc_db s) vk of Some e \<Rightarrow> Away | None \<Rightarrow> Below vk)]\<rparr>)"
    if "i < length (visitors s)" and "visitors s ! i = (ar, v, Limited vk)"
| Refuse: "service_step co ce sql s (s\<lparr>visitors := (visitors s)[i := (ar, v, Away)]\<rparr>)"
    if "i < length (visitors s)" and "visitors s ! i = (ar, v, Below vk)" and "admission co ce sql (svc_db s) v = None"
| Admit: "service_step co ce sql s
      (s\<lparr>visitors := (visitors s)[i := (ar, v, Away)],
         svc_conf := (svc_conf s)\<lparr>threads := threads (svc_conf s) @ [(body, vk, Arrived)]\<rparr>\<rparr>)"
    if "i < length (visitors s)" and "visitors s ! i = (ar, v, Below vk)" and "admission co ce sql (svc_db s) v = Some body"
      and "\<not> stream body"
| Unknown_Model: "service_step co ce sql s ((set_gw g1 s)\<lparr>visitors := (visitors s)[i := (ar, v, Away)]\<rparr>)"
    if "i < length (visitors s)" and "visitors s ! i = (ar, v, Below vk)" and "admission co ce sql (svc_db s) v = Some body"
      and "stream body" and "reject_unknown_streaming_model body (env_registry (chat_base ce)) vk l (svc_gw s) = (Some e, g1)"
| Open: "service_step co ce sql s
      ((set_gw g1 s)\<lparr>visitors := (visitors s)[i := (ar, v, Away)], relays := relays s @ [(rid, body, vk, Opened)]\<rparr>)"
    if "i < length (visitors s)" and "visitors s ! i = (ar, v, Below vk)" and "admission co ce sql (svc_db s) v = Some body"
      and "stream body" and "reject_unknown_streaming_model body (env_registry (chat_base ce)) vk l (svc_gw s) = (None, g1)"
| Relay: "service_step co ce sql s
      ((set_gw g1 s)\<lparr>relays := (relays s)[i := (rid, req, vk, p')], delivered := delivered s @ new_relayed vk req p p',
         made := made s @ new_streamed ce vk req p (svc_gw s)\<rparr>)"
    if "i < length (relays s)" and "relays s ! i = (rid, req, vk, p)"
      and "stream_advance (ce\<lparr>chat_request_id := rid\<rparr>) req vk l p (svc_gw s) = (p', g1)"
| Hang_Up: "service_step co ce sql s (s\<lparr>relays := (relays s)[i := (rid, req, vk, HungUp)]\<rparr>)"
    if "i < length (relays s)" and "relays s ! i = (rid, req, vk, p)" and "streaming p"
| Segment: "service_step co ce sql s
      (s\<lparr>svc_conf := (svc_conf s)
           \<lparr>shared := g', threads := (threads (svc_conf s))[i := (req, vk, p')],
            future_keys := future_keys (svc_conf s) @ new_keys (request_key (chat_base ce) req vk) (svc_gw s) g',
            provider_calls := provider_calls (svc_conf s) @ new_calls (request_key (chat_base ce) req vk) p p'\<rparr>,
         delivered := delivered s @ new_delivery vk req p p', made := made s @ new_made vk req p p'\<rparr>)"
    if "i < length (threads (svc_conf s))" and "threads (svc_conf s) ! i = (req, vk, p)"
      and "advance (chat_base ce) req vk token l p (svc_gw s) = (p', g')"
| Poll: "service_step co ce sql s
      (s\<lparr>svc_conf := (svc_conf s)
           \<lparr>shared := (svc_gw s)\<lparr>gw_prom := p, gw_world := w\<rparr>,
            threads := (threads (svc_conf s))[i := (req, vk, case r of Some x \<Rightarrow> Waited x | None \<Rightarrow> Waiting)]\<rparr>\<rparr>)"
    if "i < length (threads (svc_conf s))" and "threads (svc_conf s) ! i = (req, vk, Waiting)"
      and "poll_once (exec_of ce) (env_dec (chat_base ce)) (request_key (chat_base ce) req vk)
             (gw_prom (svc_gw s), gw_world (svc_gw s)) = (r, p, w)"
| Give_Up: "service_step co ce sql s
      (s\<lparr>svc_conf := (svc_conf s)\<lparr>threads := (threads (svc_conf s))[i := (req, vk, Waited None)]\<rparr>\<rparr>)"
    if "i < length (threads (svc_conf s))" and "threads (svc_conf s) ! i = (req, vk, Waiting)"
| Cancel: "service_step co ce sql s (s\<lparr>svc_conf := c\<rparr>)"
    if "gw_cancel (chat_base ce) (svc_conf s) c"
| Report: "service_step co ce sql s ((set_gw g1 s)\<lparr>closed := insert i (closed s)\<rparr>)"
    if "i < length (threads (svc_conf s))" and "threads (svc_conf s) ! i = (req, vk, Finished (Inl e))" and "i \<notin> closed s"
      and "chat_failed req vk l e (svc_gw s) = (e', g1)"
| Write: "service_step co ce sql s
      ((set_gw ((svc_gw s)\<lparr>gw_tasks := take j (gw_tasks (svc_gw s)) @ drop (Suc j) (gw_tasks (svc_gw s))\<rparr>) s)
         \<lparr>svc_db := run_task sql srv t (svc_db s), lost := lost s @ lost_by sql srv t (svc_db s)\<rparr>)"
    if "j < length (gw_tasks (svc_gw s))" and "gw_tasks (svc_gw s) ! j = t"
| Admin: "service_step co ce sql s (s\<lparr>svc_db := db_step sql x (svc_db s)\<rparr>)"
    if "admin_op x"
| Elsewhere: "service_step co ce sql s (set_gw ((svc_gw s)\<lparr>gw_world := w\<rparr>) s)"
    if "chat_outside ce (gw_world (svc_gw s)) w"
| Restart: "service_step co ce sql s
      (s\<lparr>svc_conf := new_process (gw_world (svc_gw s)), visitors := [], relays := [], closed := {}, lost := lost s @ usage_records (gw_tasks (svc_gw s))\<rparr>)"

subsection \<open>What a step records\<close>

lemma usage_records_append [simp]: "usage_records (ts @ us) = usage_records ts @ usage_records us"
  by (induction ts rule: usage_records.induct) simp_all

lemma set_gw_simps [simp]:
  "svc_db (set_gw g s) = svc_db s" "delivered (set_gw g s) = delivered s" "lost (set_gw g s) = lost s" "made (set_gw g s) = made s"
  "closed (set_gw g s) = closed s" "visitors (set_gw g s) = visitors s" "relays (set_gw g s) = relays s" "svc_gw (set_gw g s) = g" "threads (svc_conf (set_gw g s)) = threads (svc_conf s)"
  by (simp_all add: set_gw_def)

text \<open>
  What a delivery costs, by where it came from; the latency is the only thing left open.  An answer no provider
  was called for has one record at no cost; an answer of a provider has one record at that provider's price.  A replay has
  one record at no cost when there is something to replay and its usage can be counted.  An upstream stream has one record at
  the price of the provider of its lines, with the usage they reported, when it ended without an error, all its lines could
  be read and the usage can be counted; any other has none.
\<close>

fun bill :: "int \<Rightarrow> delivery \<Rightarrow> usage_record list" where
  "bill l (Delivered vk req r None) = [cached_bill l vk r]"
| "bill l (Delivered vk req r (Some q)) = [provider_bill l vk req q (resp_model r) (resp_usage r)]"
| "bill l (Relayed vk req lines x (Replaying r)) =
     (if choices r \<noteq> [] \<and> countable (cached_bill l vk r) then [cached_bill l vk r] else [])"
| "bill l (Relayed vk req lines x (Upstream items fin)) =
     (case (fin, read_whole items) of
        (None, Some u) \<Rightarrow>
          (let b = provider_bill l vk req (fst (hd items)) (req_model req) u in if countable b then [b] else [])
      | _ \<Rightarrow> [])"
| "bill l (Relayed vk req lines x p) = []"

text \<open>The provider that a delivery was obtained from for it.\<close>

fun served_by :: "delivery \<Rightarrow> provider option" where
  "served_by (Delivered vk req r src) = src"
| "served_by (Relayed vk req lines x (Upstream items fin)) = (if items = [] then None else Some (fst (hd items)))"
| "served_by (Relayed vk req lines x p) = None"

fun delivery_request :: "delivery \<Rightarrow> chat_request" where
  "delivery_request (Delivered vk req r src) = req"
| "delivery_request (Relayed vk req lines x src) = req"

text \<open>
  A stream that the client saw end without an error is billed, and what it was shown is what it is billed for; one that
  is not billed broke off or told the client that it failed.
\<close>

fun shown_in_full :: "delivery \<Rightarrow> bool" where
  "shown_in_full (Delivered vk req r src) = True"
| "shown_in_full (Relayed vk req lines x (Replaying r)) = (\<exists>now. synthesize_cached_stream now r = Inr lines)"
| "shown_in_full (Relayed vk req lines x (Upstream items fin)) = (lines = map snd items)"
| "shown_in_full (Relayed vk req lines x p) = False"

fun failed_openly :: "delivery \<Rightarrow> bool" where
  "failed_openly (Delivered vk req r src) = False"
| "failed_openly (Relayed vk req lines (Some e) p) = True"
| "failed_openly (Relayed vk req lines None p) = (lines \<noteq> [] \<and> error_event (last lines))"

definition settles :: "'w chat_env \<Rightarrow> delivery \<Rightarrow> usage_record list \<Rightarrow> bool" where
  "settles ce d rs \<longleftrightarrow>
     (\<exists>l. rs = bill l d) \<and> list_all countable rs \<and>
     (case served_by d of
        None \<Rightarrow> True
      | Some q \<Rightarrow> q \<in> set (select_providers (env_registry (chat_base ce)) (req_model (delivery_request d)))) \<and>
     (if rs = [] then failed_openly d else shown_in_full d)"

lemma settles_bill:
  assumes "list_all countable (bill l d)" and "if bill l d = [] then failed_openly d else shown_in_full d"
    and "\<And>q. served_by d = Some q \<Longrightarrow> q \<in> set (select_providers (env_registry (chat_base ce)) (req_model (delivery_request d)))"
  shows "settles ce d (bill l d)"
  unfolding settles_def using assms by (intro conjI exI [of _ l]) (simp_all split: option.split)

fun delivery_key :: "delivery \<Rightarrow> int" where
  "delivery_key (Delivered vk req r src) = vk"
| "delivery_key (Relayed vk req lines x src) = vk"

lemma build_usage_key [simp]: "ur_virtual_key_id (build_usage_record vk pn q m u l) = vk"
  by (simp add: build_usage_record_def)

lemma countable_nonneg: "countable r \<Longrightarrow> 0 \<le> dec_val (ur_estimated_cost r)"
  by (simp add: countable_def)

lemma finish_with_records:
  "finish_with r y g = (p', g') \<Longrightarrow>
     (p' = Finished (Inr y) \<and> usage_records (gw_tasks g') = usage_records (gw_tasks g) @ [r] \<and> countable r) \<or>
     ((\<exists>e. p' = Finished (Inl e)) \<and> usage_records (gw_tasks g') = usage_records (gw_tasks g))"
  using account_countable [of r g "fst (account r g)" "snd (account r g)"]
  by (auto simp: finish_with_def split: prod.splits option.splits if_splits)

text \<open>It is a candidate of the request.\<close>

definition carries_candidate :: "'w env \<Rightarrow> chat_request \<Rightarrow> pc \<Rightarrow> bool" where
  "carries_candidate env req p \<longleftrightarrow>
     (\<forall>q. carries p = Some q \<longrightarrow> q \<in> set (select_providers (env_registry env) (req_model req)))"

lemma complete_records [simp]: "gw_tasks (snd (complete f v g)) = gw_tasks g"
  by (simp add: complete_def)

lemma unregister_records [simp]: "gw_tasks (unregister k f g) = gw_tasks g"
  by (simp add: unregister_def)

definition recorded :: "'w chat_env \<Rightarrow> int \<Rightarrow> chat_request \<Rightarrow> pc \<Rightarrow> pc \<Rightarrow> 'w gw \<Rightarrow> 'w gw \<Rightarrow> bool" where
  "recorded ce vk req p p' g g' \<longleftrightarrow>
     carries_candidate (chat_base ce) req p' \<and>
     ((new_delivery vk req p p' = [] \<and> usage_records (gw_tasks g') = usage_records (gw_tasks g)) \<or>
      (\<exists>d rs. new_delivery vk req p p' = [d] \<and> settles ce d rs \<and>
         usage_records (gw_tasks g') = usage_records (gw_tasks g) @ rs))"

lemma recorded_quiet:
  "carries p' = None \<Longrightarrow> answer_of p' = None \<or> \<not> in_flight p \<Longrightarrow> usage_records (gw_tasks g') = usage_records (gw_tasks g) \<Longrightarrow>
     recorded ce vk req p p' g g'"
  by (auto simp: recorded_def carries_candidate_def new_delivery_def split: option.splits)

lemma recorded_carried:
  "carries p' = Some q \<Longrightarrow> carries p = Some q \<Longrightarrow> carries_candidate (chat_base ce) req p \<Longrightarrow> answer_of p' = None \<Longrightarrow>
     usage_records (gw_tasks g') = usage_records (gw_tasks g) \<Longrightarrow> recorded ce vk req p p' g g'"
  by (auto simp: recorded_def carries_candidate_def new_delivery_def)

lemma recorded_finish:
  assumes "finish_with rec r g = (p', g')" and "in_flight p" and "carries_candidate (chat_base ce) req p"
    and "[rec] = bill l (Delivered vk req r (carries p))"
  shows "recorded ce vk req p p' g g'"
  using finish_with_records [OF assms(1)]
proof (elim disjE conjE exE)
  assume fin: "p' = Finished (Inr r)" "usage_records (gw_tasks g') = usage_records (gw_tasks g) @ [rec]" "countable rec"
  have "settles ce (Delivered vk req r (carries p)) [rec]"
    using assms(3,4) fin(3) by (auto simp: settles_def carries_candidate_def split: option.splits)
  with fin assms(2) show ?thesis by (simp add: recorded_def carries_candidate_def new_delivery_def)
next
  fix e assume "p' = Finished (Inl e)" "usage_records (gw_tasks g') = usage_records (gw_tasks g)"
  then show ?thesis by (intro recorded_quiet) simp_all
qed

lemma recorded_cached:
  "serve_cached vk l r g = (p', g') \<Longrightarrow> in_flight p \<Longrightarrow> carries p = None \<Longrightarrow> recorded ce vk req p p' g g'"
  unfolding serve_cached_def
  by (erule recorded_finish [where l = l]) (simp_all add: cached_bill_def carries_candidate_def)

lemma advance_records:
  assumes adv: "advance (chat_base ce) req vk token l p g = (p', g')" and c: "carries_candidate (chat_base ce) req p"
  shows "recorded ce vk req p p' g g'"
proof (cases p)
  case (Looked r)
  then show ?thesis
    using adv recorded_cached [of vk l _ g p' g' p ce req]
    by (cases r) (auto intro!: recorded_quiet split: option.splits if_splits)
next
  case (Following f)
  then show ?thesis
    using adv recorded_cached [of vk l _ g p' g' p ce req]
    by (cases "futures g ! f") (auto intro!: recorded_quiet)
next
  case (Locked t)
  then show ?thesis using adv by (cases t) (auto simp: lead_def intro!: recorded_quiet)
next
  case (Waited r)
  then show ?thesis
    using adv recorded_cached [of vk l _ g p' g' p ce req]
    by (cases r) (auto simp: lead_def intro!: recorded_quiet)
next
  case (Calling t f)
  then obtain r w where run: "execute_with_fallback (env_call (chat_base ce))
      (select_providers (env_registry (chat_base ce)) (req_model req)) req (gw_world g) = (r, w)"
    and eq: "p' = Called t f r" "g' = g\<lparr>gw_world := w\<rparr>"
    using adv by (auto split: prod.splits)
  show ?thesis
  proof (cases r)
    case (Inr qr)
    then have "fst qr \<in> set (select_providers (env_registry (chat_base ce)) (req_model req))"
      using run try_providers_Inr [of "env_call (chat_base ce)" _ req "[]" None "gw_world g" "fst qr" "snd qr" w]
      by (fastforce simp: execute_with_fallback_def)
    then show ?thesis using eq Inr by (simp add: recorded_def carries_candidate_def new_delivery_def)
  qed (simp add: eq recorded_quiet)
next
  case (Called t f r)
  then show ?thesis
    using adv c
    by (cases r; cases t) (auto simp: complete_def intro: recorded_quiet recorded_carried split: if_splits)
next
  case (Releasing t f r)
  then show ?thesis using adv c by (cases r) (auto intro: recorded_quiet recorded_carried)
next
  case (Released f r)
  then show ?thesis
    using adv c recorded_carried [of p' _ p ce req g' g vk] recorded_quiet [of p' p g' g ce vk req]
    by (cases r) (auto simp: complete_def split: if_splits)
next
  case (Saving q r)
  then show ?thesis using adv c by (auto intro: recorded_carried)
next
  case (Saved q r)
  then have "finish_with (provider_bill l vk req q (resp_model r) (resp_usage r)) r g = (p', g')"
    using adv by (simp add: provider_bill_def)
  then show ?thesis using Saved c by (intro recorded_finish [where l = l]) simp_all
qed (use adv in \<open>auto intro!: recorded_quiet split: prod.splits option.splits\<close>)

text \<open>The other steps of a request.\<close>

lemma failed_records [simp]: "usage_records (gw_tasks (failed vk m l t g)) = usage_records (gw_tasks g)"
  by simp

lemma chat_failed_records: "chat_failed body vk l e g = (e', g') \<Longrightarrow> usage_records (gw_tasks g') = usage_records (gw_tasks g)"
  by (auto simp: chat_failed_def split: exn.splits if_splits prod.splits)

lemma limit_records: "limit_key ce ar vk g = (r, g') \<Longrightarrow> usage_records (gw_tasks g') = usage_records (gw_tasks g)"
  by (auto simp: limit_key_def enforce_rate_limit_def Let_def split: sum.splits prod.splits if_splits)

lemma unknown_model_records:
  "reject_unknown_streaming_model body r vk l g = (x, g') \<Longrightarrow> usage_records (gw_tasks g') = usage_records (gw_tasks g)"
  by (auto simp: reject_unknown_streaming_model_def split: if_splits)

lemma usage_records_billed [simp]:
  "usage_records (if b then [PersistUsage r] else []) = (if b then [r] else [])"
  by simp

lemma stream_relayed_records:
  assumes up: "stream_relayed ce req vk l items fin g = (lines, x, g')" and src: "sourced ce req (Upstream items fin)"
  shows "\<exists>rs. settles ce (Relayed vk req lines x (Upstream items fin)) rs \<and>
    usage_records (gw_tasks g') = usage_records (gw_tasks g) @ rs"
proof -
  let ?d = "Relayed vk req lines x (Upstream items fin)"
  have "usage_records (gw_tasks g') = usage_records (gw_tasks g) @ bill l ?d \<and>
      (if bill l ?d = [] then failed_openly ?d else lines = map snd items)"
  proof (cases "fin = None \<and> read_whole items \<noteq> None")
    case True
    then obtain u where u: "fin = None" "read_whole items = Some u" by blast
    moreover from u(1) src have "items \<noteq> []" by simp
    ultimately show ?thesis
      using stream_relayed_whole [OF up [unfolded u(1)] u(2)] by (cases x) (auto simp: Let_def)
  next
    case False
    then have "bill l ?d = []" by (auto split: option.splits)
    with stream_relayed_cut [OF up] False show ?thesis by (cases x) auto
  qed
  moreover have "list_all countable (bill l ?d)" by (auto simp: Let_def split: option.splits)
  moreover have "items \<noteq> [] \<longrightarrow> fst (hd items) \<in> set (select_providers (env_registry (chat_base ce)) (req_model req))"
    using src by (cases items) auto
  ultimately show ?thesis
    by (intro exI [of _ "bill l ?d"] conjI settles_bill) (auto simp del: bill.simps split: if_splits)
qed

lemma stream_replay_records:
  assumes "stream_replay ce vk l r g = (lines, x, g')"
  shows "\<exists>rs. settles ce (Relayed vk req lines x (Replaying r)) rs \<and>
    usage_records (gw_tasks g') = usage_records (gw_tasks g) @ rs"
proof -
  let ?d = "Relayed vk req lines x (Replaying r)"
  have "usage_records (gw_tasks g') = usage_records (gw_tasks g) @ bill l ?d \<and>
      (if bill l ?d = [] then failed_openly ?d else shown_in_full ?d)"
    using stream_replay_bills [OF assms]
    by (cases x; cases "choices r") (auto simp: synthesize_cached_stream_def)
  moreover have "list_all countable (bill l ?d)" by simp
  ultimately show ?thesis
    by (intro exI [of _ "bill l ?d"] conjI settles_bill) (simp_all del: bill.simps split: if_splits)
qed

text \<open>A segment of a stream queues the record of what it delivers, and no other.\<close>

definition stream_recorded ::
    "'w chat_env \<Rightarrow> int \<Rightarrow> chat_request \<Rightarrow> stream_pc \<Rightarrow> stream_pc \<Rightarrow> 'w gw \<Rightarrow> 'w gw \<Rightarrow> bool" where
  "stream_recorded ce vk req p p' g g' \<longleftrightarrow>
     (new_relayed vk req p p' = [] \<and> usage_records (gw_tasks g') = usage_records (gw_tasks g)) \<or>
     (\<exists>d rs. new_relayed vk req p p' = [d] \<and> settles ce d rs \<and> usage_records (gw_tasks g') = usage_records (gw_tasks g) @ rs)"

lemma stream_advance_records:
  assumes adv: "stream_advance ce req vk l p g = (p', g')" and src: "sourced ce req p"
  shows "stream_recorded ce vk req p p' g g'"
proof (cases p)
  case (Replaying r)
  obtain lines x g1 where rep: "stream_replay ce vk l r g = (lines, x, g1)" by (metis prod.exhaust)
  then have "p' = Ended lines x" "g' = g1" using adv Replaying by simp_all
  with stream_replay_records [OF rep] Replaying show ?thesis
    unfolding stream_recorded_def by simp
next
  case (Upstream items fin)
  obtain lines x g1 where rel: "stream_relayed ce req vk l items fin g = (lines, x, g1)" by (metis prod.exhaust)
  then have "p' = Ended lines x" "g' = g1" using adv Upstream by simp_all
  with stream_relayed_records [OF rel src [unfolded Upstream]] Upstream show ?thesis
    unfolding stream_recorded_def by simp
qed (use adv in \<open>auto simp: stream_recorded_def split: prod.splits option.splits\<close>)

lemma sourced_request_id [simp]: "sourced (ce\<lparr>chat_request_id := rid\<rparr>) req p = sourced ce req p"
  by (cases p) simp_all

lemma settles_request_id [simp]: "settles (ce\<lparr>chat_request_id := rid\<rparr>) d rs = settles ce d rs"
  by (simp add: settles_def cong: option.case_cong if_cong)

end
