(* ===== verification/Service_Runs.thy ===== *)
theory Service_Runs
  imports Service
begin

text \<open>
  Requests that run undisturbed, as steps of the service: the dependencies one after the other come to what
  \<open>chat_dependencies\<close> says, and the segments of a stream to what \<open>stream_response\<close> says.
\<close>

abbreviation service_steps :: "coercion \<Rightarrow> 'w chat_env \<Rightarrow> sql_ops \<Rightarrow> 'w service \<Rightarrow> 'w service \<Rightarrow> bool" where
  "service_steps co ce sql \<equiv> (service_step co ce sql)\<^sup>*\<^sup>*"

lemma set_gw_same [simp]: "set_gw (svc_gw s) s = s"
  by (simp add: set_gw_def)

lemma set_gw_again [simp]:
  "set_gw g (set_gw h s) = set_gw g s" "set_gw g (s\<lparr>visitors := vs\<rparr>) = (set_gw g s)\<lparr>visitors := vs\<rparr>"
  "set_gw g (s\<lparr>relays := rs\<rparr>) = (set_gw g s)\<lparr>relays := rs\<rparr>" "set_gw g (s\<lparr>delivered := ds\<rparr>) = (set_gw g s)\<lparr>delivered := ds\<rparr>"
  by (simp_all add: set_gw_def)

text \<open>What a step obtains it obtains for the request at hand.\<close>

lemma made_for: "m \<in> set (new_made vk req p p') \<Longrightarrow> m = (vk, req, snd (snd m))"
  by (cases "(vk, req, p, p')" rule: new_made.cases) auto

lemma streamed_for: "m \<in> set (new_streamed ce vk req p g) \<Longrightarrow> m = (vk, req, snd (snd m))"
  by (cases "(ce, vk, req, p, g)" rule: new_streamed.cases) auto

subsection \<open>The dependencies\<close>

definition visited :: "'w gw \<Rightarrow> (arrival \<times> json option \<times> visit) list \<Rightarrow> 'w service \<Rightarrow> 'w service" where
  "visited g vs s = (set_gw g s)\<lparr>visitors := visitors s @ vs\<rparr>"

lemma visited_simps [simp]:
  "svc_db (visited g vs s) = svc_db s" "svc_gw (visited g vs s) = g" "visitors (visited g vs s) = visitors s @ vs"
  "relays (visited g vs s) = relays s" "closed (visited g vs s) = closed s" "delivered (visited g vs s) = delivered s"
  "lost (visited g vs s) = lost s" "threads (svc_conf (visited g vs s)) = threads (svc_conf s)"
  "set_gw g' (visited g vs s) = visited g' vs s" "visited g [] s = set_gw g s"
  by (simp_all add: visited_def)

lemma visited_update [simp]:
  "(visited g vs s)\<lparr>visitors := visitors s @ ws\<rparr> = visited g ws s" "s\<lparr>visitors := visitors s @ vs\<rparr> = visited (svc_gw s) vs s"
  by (simp_all add: visited_def)

lemma limit_steps:
  assumes "rate_limited ce (svc_db s) ar (svc_gw s) = (r, g1)"
  shows "\<exists>vs. service_steps co ce sql s (visited g1 vs s) \<and> (\<forall>vk hs. r = Inr (vk, hs) \<longrightarrow> vs = [(ar, v, Limited vk)])"
proof (cases "authenticate_request (env_sha (chat_base ce)) (ar_wall ar) (svc_db s) (ar_auth ar)")
  case (Inl e)
  then show ?thesis using assms by (intro exI [of _ "[]"]) (auto simp: rate_limited_def)
next
  case (Inr vk)
  then have lim: "limit_key ce ar vk (svc_gw s) = (r, g1)" using assms by (simp add: rate_limited_def)
  then have vk: "fst x = vk" if "r = Inr x" for x
    using that by (auto simp: limit_key_def Let_def split: prod.splits sum.splits)
  let ?p = "case r of Inl e \<Rightarrow> Away | Inr x \<Rightarrow> Limited vk"
  let ?s1 = "visited (svc_gw s) [(ar, v, Known vk)] s"
  have "service_step co ce sql s ?s1" using service_step.Knock [OF Inr, of co sql v] by simp
  moreover have "service_step co ce sql ?s1 (visited g1 [(ar, v, ?p)] s)"
    using service_step.Limit [of "length (visitors s)" ?s1 ar v vk ce r g1 co sql] lim by simp
  ultimately have "service_steps co ce sql s (visited g1 [(ar, v, ?p)] s)" by simp
  then show ?thesis using vk by (intro exI [of _ "[(ar, v, ?p)]"]) auto
qed

lemma dependencies_steps:
  assumes "chat_dependencies ce sql (svc_db s) ar (svc_gw s) = (r, g1)"
  shows "\<exists>vs. service_steps co ce sql s (visited g1 vs s) \<and>
           (\<forall>vk hs. r = Inr (vk, hs) \<longrightarrow>
              vs = [(ar, v, Below vk)] \<and> global_cap_error sql (env_settings (chat_base ce)) (svc_db s) = None)"
proof -
  obtain r1 g2 where lim: "rate_limited ce (svc_db s) ar (svc_gw s) = (r1, g2)" by fastforce
  obtain vs where vs: "service_steps co ce sql s (visited g2 vs s)" "\<And>vk hs. r1 = Inr (vk, hs) \<Longrightarrow> vs = [(ar, v, Limited vk)]"
    using limit_steps [OF lim] by blast
  show ?thesis
  proof (cases r1)
    case (Inl e)
    then show ?thesis using assms lim vs(1) by (auto simp: chat_dependencies_def)
  next
    case (Inr x)
    obtain vk hs where x: "r1 = Inr (vk, hs)" using Inr by (cases x) auto
    let ?s = "visited g2 [(ar, v, Limited vk)] s" and ?n = "length (visitors s)"
    let ?key = "key_cap_error sql (svc_db s) vk" and ?global = "global_cap_error sql (env_settings (chat_base ce)) (svc_db s)"
    have g1: "g1 = g2" "r = (case enforce_spend_cap sql (env_settings (chat_base ce)) (svc_db s) vk of
        Inl e \<Rightarrow> Inl e | Inr vk' \<Rightarrow> Inr (vk, hs))"
      using assms lim x by (auto simp: chat_dependencies_def split: sum.splits)
    let ?s2 = "visited g2 [(ar, v, case ?key of Some e \<Rightarrow> Away | None \<Rightarrow> Below vk)] s"
    have "service_step co ce sql ?s ?s2"
      using service_step.Key_Cap [of ?n ?s ar v vk co ce sql] by simp
    with vs x have upto: "service_steps co ce sql s ?s2" by (auto intro: rtranclp.rtrancl_into_rtrancl)
    consider (key) e where "?key = Some e" | (global) e where "?key = None" "?global = Some e" | (ok) "?key = None" "?global = None"
      by (cases ?key; cases ?global) auto
    then show ?thesis
    proof cases
      case key
      then show ?thesis using upto g1 by (intro exI [of _ "[(ar, v, Away)]"]) (simp add: enforce_spend_cap_def)
    next
      case global
      have "service_step co ce sql ?s2 (visited g2 [(ar, v, Away)] s)"
        using service_step.Refuse [of ?n ?s2 ar v vk co ce sql] global by (simp add: admission_def)
      with upto global g1 show ?thesis
        by (intro exI [of _ "[(ar, v, Away)]"]) (auto simp: enforce_spend_cap_def intro: rtranclp.rtrancl_into_rtrancl)
    next
      case ok
      then show ?thesis using upto g1 by (intro exI [of _ "[(ar, v, Below vk)]"]) (simp add: enforce_spend_cap_def)
    qed
  qed
qed

subsection \<open>Streams\<close>

definition relay_at ::
    "nat \<Rightarrow> string option \<times> chat_request \<times> int \<times> stream_pc \<Rightarrow> 'w gw \<Rightarrow> delivery list \<Rightarrow>
     (int \<times> chat_request \<times> chat_response) list \<Rightarrow> 'w service \<Rightarrow> 'w service" where
  "relay_at i r g ds ms s =
     (set_gw g s)\<lparr>relays := (relays s)[i := r], delivered := delivered s @ ds, made := made s @ ms\<rparr>"

lemma relay_at_simps [simp]:
  "svc_db (relay_at i r g ds ms s) = svc_db s" "svc_gw (relay_at i r g ds ms s) = g" "visitors (relay_at i r g ds ms s) = visitors s"
  "relays (relay_at i r g ds ms s) = (relays s)[i := r]" "closed (relay_at i r g ds ms s) = closed s"
  "delivered (relay_at i r g ds ms s) = delivered s @ ds" "lost (relay_at i r g ds ms s) = lost s"
  "threads (svc_conf (relay_at i r g ds ms s)) = threads (svc_conf s)"
  by (simp_all add: relay_at_def)

lemma relay_one:
  assumes "i < length (relays s)" and "relays s ! i = (rid, req, vk, p)"
    and "stream_advance (ce\<lparr>chat_request_id := rid\<rparr>) req vk l p (svc_gw s) = (p', g1)"
  shows "service_step co ce sql s (relay_at i (rid, req, vk, p') g1 (new_relayed vk req p p') (new_streamed ce vk req p (svc_gw s)) s)"
  using service_step.Relay [OF assms, of co sql] by (simp add: relay_at_def)

lemma new_relayed_streaming [simp]: "streaming p' \<Longrightarrow> new_relayed vk req p p' = []"
  by (cases p') auto

lemma relay_at_again:
  "relay_at i r g ds ms (relay_at i r' g' ds' ms' s) = relay_at i r g (ds' @ ds) (ms' @ ms) s"
  by (simp add: relay_at_def set_gw_def)

lemma relay_steps:
  assumes i: "i < length (relays s)" "relays s ! i = (rid, req, vk, Opened)"
    and run: "stream_response (ce\<lparr>chat_request_id := rid\<rparr>) req vk l (svc_gw s) = (lines, x, g')"
  shows "\<exists>src ms. service_steps co ce sql s (relay_at i (rid, req, vk, Ended lines x) g' [Relayed vk req lines x src] ms s)"
proof -
  obtain p1 g1 p2 g2 where p: "stream_advance (ce\<lparr>chat_request_id := rid\<rparr>) req vk l Opened (svc_gw s) = (p1, g1)"
    "stream_advance (ce\<lparr>chat_request_id := rid\<rparr>) req vk l p1 g1 = (p2, g2)"
    "stream_advance (ce\<lparr>chat_request_id := rid\<rparr>) req vk l p2 g2 = (Ended lines x, g')" "streaming p1"
    using stream_segments [OF run] by blast
  let ?m1 = "new_streamed ce vk req p1 g1" and ?m2 = "new_streamed ce vk req p2 g2"
  let ?s1 = "relay_at i (rid, req, vk, p1) g1 [] [] s"
  let ?s2 = "relay_at i (rid, req, vk, p2) g2 (new_relayed vk req p1 p2) ?m1 s"
  have "service_step co ce sql s ?s1" using relay_one [OF i p(1), of co sql] p(4) by simp
  moreover have "service_step co ce sql ?s1 ?s2"
    using relay_one [of i ?s1 rid req vk p1 ce l p2 g2 co sql] i p(2) by (simp add: relay_at_again)
  moreover have "service_step co ce sql ?s2
      (relay_at i (rid, req, vk, Ended lines x) g' (new_relayed vk req p1 p2 @ new_relayed vk req p2 (Ended lines x)) (?m1 @ ?m2) s)"
    using relay_one [of i ?s2 rid req vk p2 ce l "Ended lines x" g' co sql] i p(3) by (simp add: relay_at_again)
  moreover obtain src where "new_relayed vk req p1 p2 @ new_relayed vk req p2 (Ended lines x) = [Relayed vk req lines x src]"
    using p(3,4) by (cases p2) auto
  ultimately have "service_steps co ce sql s (relay_at i (rid, req, vk, Ended lines x) g' [Relayed vk req lines x src] (?m1 @ ?m2) s)"
    by simp
  then show ?thesis by blast
qed

end
