(* ===== verification/Service_Ledger.thy ===== *)
theory Service_Ledger
  imports Service_Runs
begin

text \<open>
  What holds of every run of the service (\<open>Service\<close>): its books balance, and a key that is locked out by a spend cap or a
  revocation gets nothing but the answers that are running already (locale \<open>lockout\<close>).
\<close>

subsection \<open>The books\<close>

definition key_total :: "sql_ops \<Rightarrow> int \<Rightarrow> usage_record list \<Rightarrow> rat" where
  "key_total sql i rs =
     sum_list (map (\<lambda>r. if ur_virtual_key_id r = i then dec_val (store_cost sql (ur_estimated_cost r)) else 0) rs)"

lemma key_total_simps [simp]:
  "key_total sql i [] = 0" "key_total sql i (rs @ ss) = key_total sql i rs + key_total sql i ss"
  by (simp_all add: key_total_def)

text \<open>What the database, the queue and the losses of a key add up to.\<close>

definition balance :: "sql_ops \<Rightarrow> int \<Rightarrow> 'w service \<Rightarrow> rat" where
  "balance sql i s =
     dec_val (get_key_spend_usd sql i (svc_db s)) + key_total sql i (usage_records (gw_tasks (svc_gw s)))
     + key_total sql i (lost s)"

lemma write_balance:
  assumes "sql_ok sql"
  shows "dec_val (get_key_spend_usd sql i (run_task sql srv t d)) + key_total sql i (lost_by sql srv t d) =
           dec_val (get_key_spend_usd sql i d) + key_total sql i (usage_records [t])"
proof (cases t)
  case (PersistUsage r)
  obtain x d' where c: "create_usage_log sql srv (usage_data r) d = (x, d')" by fastforce
  show ?thesis
  proof (cases x)
    case None
    then obtain n tm where srv: "srv = Assigned n tm"
      using c by (cases srv) (auto simp: create_usage_log_def insert_usage_def)
    show ?thesis
      using spend_where_logged [OF c [unfolded None srv], of "\<lambda>r. log_key_id r = i \<and> log_status r = ''ok''"] c None PersistUsage
      by (simp add: key_spend_val [OF assms] persist_usage_def usage_data_def key_total_def)
  next
    case (Some e)
    then have "d' = d" using c by (auto simp: create_usage_log_def insert_usage_def split: server.splits if_splits)
    then show ?thesis using c Some PersistUsage by (simp add: persist_usage_def key_total_def)
  qed
next
  case (PersistFailure k p m l e)
  then show ?thesis
    using spend_where_failure [of "\<lambda>r. log_key_id r = i" sql srv k p m l e d]
    by (simp add: key_spend_val [OF assms])
qed

lemma admin_spend: "admin_op x \<Longrightarrow> get_key_spend_usd sql i (db_step sql x d) = get_key_spend_usd sql i d"
  by (cases x)
    (auto simp: get_key_spend_usd_def insert_key_def deactivate_key_def create_audit_log_def Let_def
      split: server.splits option.splits)

text \<open>The books close for a step when it delivers something together with the records that settle it.\<close>

definition closes :: "'w chat_env \<Rightarrow> sql_ops \<Rightarrow> 'w service \<Rightarrow> 'w service \<Rightarrow> bool" where
  "closes ce sql s s' \<longleftrightarrow>
     (\<exists>ds rss. delivered s' = delivered s @ ds \<and> list_all2 (settles ce) ds rss \<and>
        (\<forall>i. balance sql i s' = balance sql i s + key_total sql i (concat rss)))"

lemma closes_quiet:
  assumes "delivered s' = delivered s" and "\<And>i. balance sql i s' = balance sql i s"
  shows "closes ce sql s s'"
  unfolding closes_def using assms by (intro exI [of _ "[]"]) simp

text \<open>A step of the process: what it delivers it queues the records of.\<close>

definition delivers :: "'w chat_env \<Rightarrow> 'w service \<Rightarrow> 'w service \<Rightarrow> bool" where
  "delivers ce s s' \<longleftrightarrow>
     svc_db s' = svc_db s \<and> lost s' = lost s \<and>
     (\<exists>ds rss. delivered s' = delivered s @ ds \<and> list_all2 (settles ce) ds rss \<and>
        usage_records (gw_tasks (svc_gw s')) = usage_records (gw_tasks (svc_gw s)) @ concat rss)"

lemma delivers_one:
  assumes "delivered s' = delivered s @ [x]" and "settles ce x rs" and "svc_db s' = svc_db s" and "lost s' = lost s"
    and "usage_records (gw_tasks (svc_gw s')) = usage_records (gw_tasks (svc_gw s)) @ rs"
  shows "delivers ce s s'"
  unfolding delivers_def using assms by (intro conjI exI [of _ "[x]"] exI [of _ "[rs]"]) simp_all

lemma delivers_nothing:
  assumes "delivered s' = delivered s" and "svc_db s' = svc_db s" and "lost s' = lost s"
    and "usage_records (gw_tasks (svc_gw s')) = usage_records (gw_tasks (svc_gw s))"
  shows "delivers ce s s'"
  unfolding delivers_def using assms by (intro conjI exI [of _ "[]"]) simp_all

lemma delivers_closes: "delivers ce s s' \<Longrightarrow> closes ce sql s s'"
  unfolding delivers_def closes_def balance_def by fastforce

lemma new_process_simps [simp]:
  "gw_tasks (shared (new_process w)) = []" "threads (new_process w) = []" "gw_world (shared (new_process w)) = w"
  by (simp_all add: new_process_def start_conf_def)

definition candidates_carried :: "'w chat_env \<Rightarrow> 'w service \<Rightarrow> bool" where
  "candidates_carried ce s \<longleftrightarrow>
     (\<forall>(req, vk, p) \<in> set (threads (svc_conf s)). carries_candidate (chat_base ce) req p) \<and>
     (\<forall>(rid, req, vk, p) \<in> set (relays s). sourced ce req p)"

lemma taken_out:
  assumes "j < length ts"
  shows "usage_records ts = usage_records (take j ts) @ usage_records [ts ! j] @ usage_records (drop (Suc j) ts)"
  by (metis append_assoc append_Cons append_Nil assms id_take_nth_drop usage_records_append)

lemma candidates_carried_at:
  assumes "candidates_carried ce s"
  shows "i < length (threads (svc_conf s)) \<Longrightarrow> threads (svc_conf s) ! i = (req, vk, p) \<Longrightarrow> carries_candidate (chat_base ce) req p"
    and "i < length (relays s) \<Longrightarrow> relays s ! i = (rid, req, vk, q) \<Longrightarrow> sourced ce req q"
  using assms unfolding candidates_carried_def by (metis (mono_tags, lifting) case_prodD nth_mem)+

lemma cancel_records: "gw_cancel env c c' \<Longrightarrow> gw_tasks (shared c') = gw_tasks (shared c)"
  by (auto elim: gw_cancel.cases)

lemma step_kinds:
  assumes step: "service_step co ce sql s s'" and cc: "candidates_carried ce s"
  shows "delivers ce s s' \<or>
    (delivered s' = delivered s \<and>
      ((\<exists>us t ts srv. usage_records (gw_tasks (svc_gw s)) = us @ usage_records [t] @ ts \<and>
          usage_records (gw_tasks (svc_gw s')) = us @ ts \<and> svc_db s' = run_task sql srv t (svc_db s) \<and>
          lost s' = lost s @ lost_by sql srv t (svc_db s)) \<or>
       (\<exists>x. admin_op x \<and> svc_db s' = db_step sql x (svc_db s) \<and> lost s' = lost s \<and> svc_conf s' = svc_conf s) \<or>
       (svc_db s' = svc_db s \<and> lost s' = lost s @ usage_records (gw_tasks (svc_gw s)) \<and> gw_tasks (svc_gw s') = [])))"
  using step
proof cases
  case (Limit i ar v vk r g1)
  then show ?thesis using limit_records [OF Limit(4)] by (intro disjI1 delivers_nothing) simp_all
next
  case (Unknown_Model i ar v vk body l e g1)
  then show ?thesis using unknown_model_records [OF Unknown_Model(6)] by (intro disjI1 delivers_nothing) simp_all
next
  case (Open i ar v vk body l g1 rid)
  then show ?thesis using unknown_model_records [OF Open(6)] by (intro disjI1 delivers_nothing) simp_all
next
  case (Relay i rid req vk p l p' g1)
  have "sourced (ce\<lparr>chat_request_id := rid\<rparr>) req p" using candidates_carried_at(2) [OF cc Relay(2,3)] by simp
  from stream_advance_records [OF Relay(4) this]
  have "(new_relayed vk req p p' = [] \<and> usage_records (gw_tasks g1) = usage_records (gw_tasks (svc_gw s))) \<or>
      (\<exists>x rs. new_relayed vk req p p' = [x] \<and> settles ce x rs \<and>
         usage_records (gw_tasks g1) = usage_records (gw_tasks (svc_gw s)) @ rs)"
    unfolding stream_recorded_def settles_request_id .
  then show ?thesis
  proof (elim disjE exE conjE)
    fix x rs assume "new_relayed vk req p p' = [x]" "settles ce x rs"
      "usage_records (gw_tasks g1) = usage_records (gw_tasks (svc_gw s)) @ rs"
    then show ?thesis using Relay(1) by (intro disjI1 delivers_one [of _ _ x _ rs]) simp_all
  qed (auto simp: Relay(1) intro!: disjI1 delivers_nothing)
next
  case (Segment i req vk p token l p' g')
  from advance_records [OF Segment(4) candidates_carried_at(1) [OF cc Segment(2,3)]]
  have "(new_delivery vk req p p' = [] \<and> usage_records (gw_tasks g') = usage_records (gw_tasks (svc_gw s))) \<or>
      (\<exists>x rs. new_delivery vk req p p' = [x] \<and> settles ce x rs \<and>
         usage_records (gw_tasks g') = usage_records (gw_tasks (svc_gw s)) @ rs)"
    by (auto simp: recorded_def)
  then show ?thesis
  proof (elim disjE exE conjE)
    fix x rs assume "new_delivery vk req p p' = [x]" "settles ce x rs"
      "usage_records (gw_tasks g') = usage_records (gw_tasks (svc_gw s)) @ rs"
    then show ?thesis using Segment(1) by (intro disjI1 delivers_one [of _ _ x _ rs]) simp_all
  qed (auto simp: Segment(1) intro!: disjI1 delivers_nothing)
next
  case (Cancel c)
  then show ?thesis using cancel_records [OF Cancel(2)] by (intro disjI1 delivers_nothing) simp_all
next
  case (Report i req vk e l e' g1)
  then show ?thesis using chat_failed_records [OF Report(5)] by (intro disjI1 delivers_nothing) simp_all
next
  case (Write j t srv)
  then show ?thesis
    using taken_out [OF Write(2)] by (intro disjI2 conjI disjI1 exI [of _ t] exI [of _ srv] exI) auto
next
  case (Admin x)
  then show ?thesis by (intro disjI2 conjI disjI1 exI [of _ x]) auto
next
  case (Elsewhere w)
  then show ?thesis by (intro disjI1 delivers_nothing) simp_all
next
  case Restart
  then show ?thesis by (intro disjI2 conjI) simp_all
qed (auto intro!: disjI1 delivers_nothing)

lemma step_closes:
  assumes ok: "sql_ok sql" and step: "service_step co ce sql s s'" and cc: "candidates_carried ce s"
  shows "closes ce sql s s'"
  using step_kinds [OF step cc]
proof (elim disjE conjE exE)
  fix us t ts srv
  assume "usage_records (gw_tasks (svc_gw s)) = us @ usage_records [t] @ ts" "usage_records (gw_tasks (svc_gw s')) = us @ ts"
    "svc_db s' = run_task sql srv t (svc_db s)" "lost s' = lost s @ lost_by sql srv t (svc_db s)" "delivered s' = delivered s"
  then show ?thesis
    using write_balance [OF ok, of _ srv t "svc_db s"] by (intro closes_quiet) (simp_all add: balance_def algebra_simps)
qed (auto intro: delivers_closes closes_quiet simp: balance_def admin_spend)

lemma carries_Arrived [simp]: "carries_candidate env req Arrived"
  by (simp add: carries_candidate_def)

lemma all_update: "\<forall>x \<in> set xs. P x \<Longrightarrow> P y \<Longrightarrow> \<forall>x \<in> set (xs[i := y]). P x"
  using set_update_subset_insert [of xs i y] by auto

lemma carried_step:
  assumes step: "service_step co ce sql s s'" and cc: "candidates_carried ce s"
  shows "candidates_carried ce s'"
  using step
proof cases
  case (Segment i req vk p token l p' g')
  have "carries_candidate (chat_base ce) req p'"
    using advance_records [OF Segment(4) candidates_carried_at(1) [OF cc Segment(2,3)]] by (simp add: recorded_def)
  then show ?thesis
    using cc Segment(1)
      all_update [of "threads (svc_conf s)" "\<lambda>(req, vk, p). carries_candidate (chat_base ce) req p" "(req, vk, p')" i]
    by (simp add: candidates_carried_def)
next
  case (Relay i rid req vk p l p' g1)
  have "sourced (ce\<lparr>chat_request_id := rid\<rparr>) req p" using candidates_carried_at(2) [OF cc Relay(2,3)] by simp
  from sourced_step [OF Relay(4) this] have "sourced ce req p'" by simp
  then show ?thesis
    using cc Relay(1) all_update [of "relays s" "\<lambda>(rid, req, vk, p). sourced ce req p" "(rid, req, vk, p')" i]
    by (simp add: candidates_carried_def)
next
  case (Hang_Up i rid req vk p)
  then show ?thesis
    using cc all_update [of "relays s" "\<lambda>(rid, req, vk, p). sourced ce req p" "(rid, req, vk, HungUp)" i]
    by (simp add: candidates_carried_def)
next
  case (Poll i req vk r p w)
  then show ?thesis
    using cc all_update [of "threads (svc_conf s)" "\<lambda>(req, vk, p). carries_candidate (chat_base ce) req p"
        "(req, vk, case r of Some x \<Rightarrow> Waited x | None \<Rightarrow> Waiting)" i]
    by (auto simp: candidates_carried_def carries_candidate_def split: option.splits)
next
  case (Give_Up i req vk)
  then show ?thesis
    using cc all_update [of "threads (svc_conf s)" "\<lambda>(req, vk, p). carries_candidate (chat_base ce) req p" "(req, vk, Waited None)" i]
    by (simp add: candidates_carried_def carries_candidate_def)
next
  case (Cancel c)
  from Cancel(2) have "\<forall>(req, vk, p) \<in> set (threads c). carries_candidate (chat_base ce) req p"
    using cc by cases
      (auto simp: candidates_carried_def carries_candidate_def split: option.splits
        dest!: set_update_subset_insert [THEN subsetD])
  then show ?thesis using Cancel(1) cc by (simp add: candidates_carried_def)
qed (use cc in \<open>auto simp: candidates_carried_def set_gw_def\<close>)

lemma service_closes:
  assumes ok: "sql_ok sql" and run: "(service_step co ce sql)\<^sup>*\<^sup>* s s'" and cc: "candidates_carried ce s"
  shows "closes ce sql s s' \<and> candidates_carried ce s'"
  using run
proof induction
  case base
  then show ?case using cc by (simp add: closes_quiet)
next
  case (step t u)
  from step.IH obtain ds rss where t: "delivered t = delivered s @ ds" "list_all2 (settles ce) ds rss"
    "\<And>i. balance sql i t = balance sql i s + key_total sql i (concat rss)" unfolding closes_def by blast
  from step_closes [OF ok step.hyps(2)] step.IH obtain ds' rss' where u: "delivered u = delivered t @ ds'"
    "list_all2 (settles ce) ds' rss'" "\<And>i. balance sql i u = balance sql i t + key_total sql i (concat rss')"
    unfolding closes_def by blast
  have "closes ce sql s u"
    unfolding closes_def
    using t u by (intro exI [of _ "ds @ ds'"] exI [of _ "rss @ rss'"]) (simp add: list_all2_appendI)
  then show ?case using carried_step [OF step.hyps(2)] step.IH by blast
qed

subsection \<open>Keys that are locked out\<close>

definition queue_ok :: "'w service \<Rightarrow> bool" where
  "queue_ok s \<longleftrightarrow> list_all (\<lambda>r. 0 \<le> dec_val (ur_estimated_cost r)) (usage_records (gw_tasks (svc_gw s)))"

lemma settles_nonneg: "settles ce d rs \<Longrightarrow> list_all (\<lambda>r. 0 \<le> dec_val (ur_estimated_cost r)) rs"
  by (auto simp: settles_def list_all_iff dest: countable_nonneg)

lemma settled_nonneg:
  "list_all2 (settles ce) ds rss \<Longrightarrow> list_all (\<lambda>r. 0 \<le> dec_val (ur_estimated_cost r)) (concat rss)"
  by (induction rule: list_all2_induct) (auto dest: settles_nonneg)

lemma queue_step: "service_step co ce sql s s' \<Longrightarrow> candidates_carried ce s \<Longrightarrow> queue_ok s \<Longrightarrow> queue_ok s'"
  by (drule (1) step_kinds) (auto simp: queue_ok_def delivers_def dest: settled_nonneg)

lemma task_op:
  assumes "list_all (\<lambda>r. 0 \<le> dec_val (ur_estimated_cost r)) (usage_records [t])"
  shows "\<exists>x. op_ok x \<and> run_task sql srv t d = db_step sql x d"
proof (cases t)
  case (PersistUsage r)
  then show ?thesis
    using assms persist_usage_step by (intro exI [of _ "LogUsage srv (usage_data r)"]) (simp add: usage_data_def)
next
  case (PersistFailure k p m l e)
  then show ?thesis by (intro exI [of _ "LogFailure srv k p m l e"]) simp
qed

lemma admin_op_ok: "admin_op x \<Longrightarrow> op_ok x"
  by (cases x) simp_all

lemma start_ok [simp]: "candidates_carried ce (start_service w d)" "queue_ok (start_service w d)"
  by (simp_all add: candidates_carried_def queue_ok_def start_service_def)

lemma reachable_ok:
  assumes "(service_step co ce sql)\<^sup>*\<^sup>* (start_service w d) s"
  shows "candidates_carried ce s" and "queue_ok s"
proof -
  from assms have "candidates_carried ce s \<and> queue_ok s"
  proof induction
    case (step t u)
    then show ?case using queue_step [OF step.hyps(2)] carried_step [OF step.hyps(2)] by blast
  qed simp
  then show "candidates_carried ce s" and "queue_ok s" by simp_all
qed

text \<open>
  The requests of a key that run (threads and streams), those that wait at some stage of the dependencies, and the answers
  and streams it got.
\<close>

definition key_running :: "int \<Rightarrow> 'w service \<Rightarrow> nat" where
  "key_running vk s =
     length (filter (\<lambda>(req, v, p). v = vk \<and> in_flight p) (threads (svc_conf s)))
     + length (filter (\<lambda>(rid, req, v, p). v = vk \<and> streaming p) (relays s))"

definition waiting :: "visit set \<Rightarrow> 'w service \<Rightarrow> nat" where
  "waiting V s = length (filter (\<lambda>(ar, v, p). p \<in> V) (visitors s))"

definition key_deliveries :: "int \<Rightarrow> 'w service \<Rightarrow> nat" where
  "key_deliveries vk s = length (filter (\<lambda>d. delivery_key d = vk) (delivered s))"

lemmas key_counts = key_deliveries_def key_running_def waiting_def

lemma admission_global: "admission co ce sql d v = Some body \<Longrightarrow> global_cap_error sql (env_settings (chat_base ce)) d = None"
  by (auto simp: admission_def split: option.splits)

lemma filter_update:
  assumes "i < length xs" and "P y \<longrightarrow> P (xs ! i)"
  shows "length (filter P (xs[i := y])) + (if P (xs ! i) \<and> \<not> P y then 1 else 0) \<le> length (filter P xs)"
proof -
  have "length (filter P xs) = length (filter P (take i xs @ xs ! i # drop (Suc i) xs))"
    using assms(1) by (metis id_take_nth_drop)
  then show ?thesis using assms by (simp add: upd_conv_take_nth_drop)
qed

lemma advance_stopped: "advance env req vk token l p g = (p', g') \<Longrightarrow> \<not> in_flight p \<Longrightarrow> \<not> in_flight p'"
  by (cases p) auto

lemma answer_stops: "answer_of p = Some r \<Longrightarrow> \<not> in_flight p"
  by (cases p rule: answer_of.cases) auto

lemma running_update:
  assumes "i < length ps" and "ps ! i = (req, v, p)" and "in_flight p' \<longrightarrow> in_flight p"
  shows "length (filter (\<lambda>(req, v, p). v = vk \<and> in_flight p) (ps[i := (req, v, p')])) +
           (if v = vk \<and> in_flight p \<and> \<not> in_flight p' then 1 else 0) \<le>
         length (filter (\<lambda>(req, v, p). v = vk \<and> in_flight p) ps)"
  using filter_update [OF assms(1), of "\<lambda>(req, v, p). v = vk \<and> in_flight p" "(req, v, p')"] assms(2,3)
  by (auto split: if_splits)

lemma relay_update:
  assumes "i < length ps" and "ps ! i = (rid, req, v, p)" and "streaming p' \<longrightarrow> streaming p"
  shows "length (filter (\<lambda>(rid, req, v, p). v = vk \<and> streaming p) (ps[i := (rid, req, v, p')])) +
           (if v = vk \<and> streaming p \<and> \<not> streaming p' then 1 else 0) \<le>
         length (filter (\<lambda>(rid, req, v, p). v = vk \<and> streaming p) ps)"
  using filter_update [OF assms(1), of "\<lambda>(rid, req, v, p). v = vk \<and> streaming p" "(rid, req, v, p')"] assms(2,3)
  by (auto split: if_splits)

lemma visit_update:
  assumes "i < length ps" and "ps ! i = (ar, v, p)" and "p' \<in> V \<longrightarrow> p \<in> V"
  shows "length (filter (\<lambda>(ar, v, p). p \<in> V) (ps[i := (ar, v, p')])) + (if p \<in> V \<and> p' \<notin> V then 1 else 0) \<le>
         length (filter (\<lambda>(ar, v, p). p \<in> V) ps)"
  using filter_update [OF assms(1), of "\<lambda>(ar, v, p). p \<in> V" "(ar, v, p')"] assms(2,3)
  by (auto split: if_splits)

lemma new_delivery_count:
  "length (filter (\<lambda>d. delivery_key d = vk) (new_delivery v req p p')) \<le>
     (if v = vk \<and> in_flight p \<and> \<not> in_flight p' then 1 else 0)"
  using answer_stops [of p'] by (auto simp: new_delivery_def split: option.splits)

lemma new_relayed_count:
  "length (filter (\<lambda>d. delivery_key d = vk) (new_relayed v req p p')) \<le>
     (if v = vk \<and> streaming p \<and> \<not> streaming p' then 1 else 0)"
  by (cases p') auto

text \<open>
  A condition of the database that bars a key: every write of the program keeps it, and under it no request of the key
  comes to the stages \<open>V\<close> or gets past them.  A key that is locked out gets no answers but those that are running or
  waiting at these stages already.
\<close>

locale lockout =
  fixes co :: coercion and ce :: "'w chat_env" and sql :: sql_ops and vk :: int and locked :: "db \<Rightarrow> bool" and V :: "visit set"
  assumes locked_write: "op_ok x \<Longrightarrow> locked d \<Longrightarrow> locked (db_step sql x d)"
    and stages: "V \<subseteq> {Known vk, Limited vk, Below vk}"
    and known: "locked d \<Longrightarrow> authenticate_request (env_sha (chat_base ce)) wall d auth = Inr vk \<Longrightarrow> Known vk \<notin> V"
    and limited: "Limited vk \<in> V \<Longrightarrow> Known vk \<in> V"
    and below: "locked d \<Longrightarrow> key_cap_error sql d vk = None \<Longrightarrow> Below vk \<in> V \<Longrightarrow> Limited vk \<in> V"
    and let_in: "locked d \<Longrightarrow> admission co ce sql d v = Some body \<Longrightarrow> Below vk \<in> V"
begin

lemma locked_step:
  assumes step: "service_step co ce sql s s'" and cc: "candidates_carried ce s" and q: "queue_ok s"
    and l: "locked (svc_db s)"
  shows "locked (svc_db s')"
  using step_kinds [OF step cc]
proof (elim disjE conjE exE)
  assume "delivers ce s s'"
  then show ?thesis using l by (simp add: delivers_def)
next
  fix us t ts srv
  assume "usage_records (gw_tasks (svc_gw s)) = us @ usage_records [t] @ ts" "svc_db s' = run_task sql srv t (svc_db s)"
  moreover from this obtain x where "op_ok x" "run_task sql srv t (svc_db s) = db_step sql x (svc_db s)"
    using q task_op [of t sql srv "svc_db s"] by (auto simp: queue_ok_def)
  ultimately show ?thesis using locked_write [OF _ l] by simp
next
  fix x assume "admin_op x" "svc_db s' = db_step sql x (svc_db s)"
  then show ?thesis using locked_write [OF admin_op_ok l] by simp
qed (use l in simp)

lemma not_away [simp]: "Away \<notin> V"
  using stages by auto

lemma let_in_below: "locked d \<Longrightarrow> admission co ce sql d v = Some body \<Longrightarrow> v' = vk \<Longrightarrow> Below v' \<in> V"
  using let_in by simp

lemma potential:
  assumes step: "service_step co ce sql s s'" and l: "locked (svc_db s)"
  shows "key_deliveries vk s' + key_running vk s' + waiting V s' \<le> key_deliveries vk s + key_running vk s + waiting V s"
  using step
proof cases
  case (Knock ar vk' v)
  then have "Known vk' \<notin> V" using known [OF l] stages by (cases "vk' = vk") auto
  then show ?thesis using Knock(1) by (simp add: key_counts)
next
  case (Limit i ar v vk' r g1)
  have "(case r of Inl e \<Rightarrow> Away | Inr x \<Rightarrow> Limited vk') \<in> V \<longrightarrow> Known vk' \<in> V"
    using limited stages by (auto split: sum.splits)
  from visit_update [OF Limit(2,3) this] show ?thesis using Limit(1) by (simp add: key_counts)
next
  case (Key_Cap i ar v vk')
  have "(case key_cap_error sql (svc_db s) vk' of Some e \<Rightarrow> Away | None \<Rightarrow> Below vk') \<in> V \<longrightarrow> Limited vk' \<in> V"
    using below [OF l] stages by (auto split: option.splits)
  from visit_update [OF Key_Cap(2,3) this] show ?thesis using Key_Cap(1) by (simp add: key_counts)
next
  case (Refuse i ar v vk')
  from visit_update [OF Refuse(2,3), of Away V] show ?thesis using Refuse(1) by (simp add: key_counts)
next
  case (Admit i ar v vk' body)
  from visit_update [OF Admit(2,3), of Away V] let_in_below [OF l Admit(4), of vk'] show ?thesis
    using Admit(1) by (auto simp: key_counts)
next
  case (Unknown_Model i ar v vk' body tm e g1)
  from visit_update [OF Unknown_Model(2,3), of Away V] show ?thesis using Unknown_Model(1) by (simp add: key_counts)
next
  case (Open i ar v vk' body tm g1 rid)
  from visit_update [OF Open(2,3), of Away V] let_in_below [OF l Open(4), of vk'] show ?thesis
    using Open(1) by (auto simp: key_counts)
next
  case (Relay i rid req v p tm p' g1)
  have keep: "streaming p' \<longrightarrow> streaming p" using stream_advance_stopped [of p "ce\<lparr>chat_request_id := rid\<rparr>" req v tm "svc_gw s"] Relay(4)
    by (cases "streaming p") auto
  show ?thesis
    using relay_update [OF Relay(2,3) keep, of vk] new_relayed_count [of vk v req p p'] Relay(1)
    by (simp add: key_counts)
next
  case (Hang_Up i rid req v p)
  then show ?thesis using relay_update [OF Hang_Up(2,3), of HungUp vk] by (simp add: key_counts)
next
  case (Segment i req v p token tm p' g')
  have keep: "in_flight p' \<longrightarrow> in_flight p" using advance_stopped [OF Segment(4)] by blast
  show ?thesis
    using running_update [OF Segment(2,3) keep, of vk] new_delivery_count [of vk v req p p'] Segment(1)
    by (simp add: key_counts)
next
  case (Poll i req v r p w)
  then show ?thesis
    using running_update [OF Poll(2,3), of "case r of Some x \<Rightarrow> Waited x | None \<Rightarrow> Waiting" vk]
    by (auto simp: key_counts split: option.splits)
next
  case (Give_Up i req v)
  then show ?thesis using running_update [OF Give_Up(2,3), of "Waited None" vk] by (simp add: key_counts)
next
  case (Cancel c)
  from Cancel(2) show ?thesis
  proof cases
    case (CancelLeader i req v t f)
    then show ?thesis
      using running_update [of i "threads (svc_conf s)" req v "Calling t f" "case t of Some tok \<Rightarrow> Unwinding tok | None \<Rightarrow> Gone" vk]
        Cancel(1)
      by (simp add: key_counts)
  next
    case (CancelFollower i req v f)
    then show ?thesis
      using running_update [of i "threads (svc_conf s)" req v "Following f" Gone vk] Cancel(1)
      by (simp add: key_counts)
  qed
qed (simp_all add: key_counts set_gw_def)

lemma run_bounded:
  assumes run: "(service_step co ce sql)\<^sup>*\<^sup>* s s'" and cc: "candidates_carried ce s" and q: "queue_ok s"
    and l: "locked (svc_db s)"
  shows "key_deliveries vk s' + key_running vk s' + waiting V s' \<le> key_deliveries vk s + key_running vk s + waiting V s \<and>
         locked (svc_db s') \<and> candidates_carried ce s' \<and> queue_ok s'"
  using run
proof induction
  case base
  then show ?case using cc q l by simp
next
  case (step t u)
  then show ?case
    using potential [OF step.hyps(2)] locked_step [OF step.hyps(2)] carried_step [OF step.hyps(2)]
      queue_step [OF step.hyps(2)] by (meson order.trans)
qed

lemma locked_out:
  assumes reach: "(service_step co ce sql)\<^sup>*\<^sup>* (start_service w d) s" and l: "locked (svc_db s)"
    and run: "(service_step co ce sql)\<^sup>*\<^sup>* s s'"
  shows "key_deliveries vk s' \<le> key_deliveries vk s + key_running vk s + waiting V s"
  using run_bounded [OF run reachable_ok [OF reach] l] by linarith

end

text \<open>Three such conditions: a spend cap of the key or of the gateway that was reached, and a revocation.\<close>

lemma key_cap_lockout:
  assumes "sql_ok sql"
  shows "lockout co ce sql vk (\<lambda>d. \<exists>e. key_cap_error sql d vk = Some e) {Below vk}"
  using key_cap_stays [OF assms, of "[x]" for x] by unfold_locales (auto simp: db_run_def)

lemma global_cap_lockout:
  assumes "sql_ok sql"
  shows "lockout co ce sql vk (\<lambda>d. \<exists>e. global_cap_error sql (env_settings (chat_base ce)) d = Some e) {}"
  using global_cap_stays [OF assms, of "[x]" for x] by unfold_locales (auto simp: db_run_def dest: admission_global)

interpretation exact_key_cap: lockout co ce exact_sql vk "\<lambda>d. \<exists>e. key_cap_error exact_sql d vk = Some e" "{Below vk}"
  for co :: coercion and ce :: "'w chat_env" and vk :: int
  by (rule key_cap_lockout) simp

interpretation exact_global_cap: lockout co ce exact_sql vk
    "\<lambda>d. \<exists>e. global_cap_error exact_sql (env_settings (chat_base ce)) d = Some e" "{}"
  for co :: coercion and ce :: "'w chat_env" and vk :: int
  by (rule global_cap_lockout) simp

interpretation revocation: lockout co ce sql vk "revoked vk" "{Known vk, Limited vk, Below vk}"
  for co :: coercion and ce :: "'w chat_env" and sql :: sql_ops and vk :: int
  by unfold_locales (auto dest: revoked_no_auth intro: revoked_step)

subsection \<open>Properties\<close>

text \<open>
  The books of the service always balance: whatever requests, streams, failures, cancellations, restarts and
  administration interleave, every answer and stream delivered is settled by its bill (at no cost when no provider was
  called for it, else at the price of the provider that gave it), and for each key the spend in the database, the queued
  records and those the server refused or a restart lost add up to the initial spend and the stored costs of exactly these bills.
\<close>

theorem books_balance:
  assumes "sql_ok sql" and "(service_step co ce sql)\<^sup>*\<^sup>* (start_service w d) s"
  shows "\<exists>rss. list_all2 (settles ce) (delivered s) rss \<and>
           (\<forall>i. dec_val (get_key_spend_usd sql i (svc_db s)) + key_total sql i (usage_records (gw_tasks (svc_gw s)))
                  + key_total sql i (lost s) =
                dec_val (get_key_spend_usd sql i d) + key_total sql i (concat rss))"
  using service_closes [OF assms(1,2) start_ok(1)]
  by (auto simp: closes_def balance_def start_service_def)

text \<open>
  The overspend of a key is bounded by what is running: once its spend or the gateway's has reached a cap, the
  service delivers to the key at most one more answer for each of its requests that is in flight at that moment or
  between the reads of the two caps, for ever, whatever else happens.
\<close>

theorem overspend_bounded:
  assumes "sql_ok sql" and "(service_step co ce sql)\<^sup>*\<^sup>* (start_service w d) s"
    and "enforce_spend_cap sql (env_settings (chat_base ce)) (svc_db s) vk = Inl e"
    and "(service_step co ce sql)\<^sup>*\<^sup>* s s'"
  shows "key_deliveries vk s' \<le> key_deliveries vk s + key_running vk s + waiting {Below vk} s"
proof -
  from assms(3) enforce_Inl_iff consider "\<exists>e. key_cap_error sql (svc_db s) vk = Some e"
    | "\<exists>e. global_cap_error sql (env_settings (chat_base ce)) (svc_db s) = Some e" by blast
  then show ?thesis
  proof cases
    case 1
    from lockout.locked_out [OF key_cap_lockout [OF assms(1)] assms(2) this assms(4)] show ?thesis .
  next
    case 2
    from lockout.locked_out [OF global_cap_lockout [OF assms(1)] assms(2) this assms(4), of vk] show ?thesis
      by (simp add: waiting_def)
  qed
qed

text \<open>
  A revocation takes effect at once: after the revocation of a key has been written, the service delivers to
  the key at most the answers to its requests that are in flight at that moment or were authenticated before, whatever
  is created or written later.
\<close>

theorem revocation_effective:
  assumes "(service_step co ce sql)\<^sup>*\<^sup>* (start_service w d) s" and "vk \<in> key_id ` set (api_keys (svc_db s))"
    and "(service_step co ce sql)\<^sup>*\<^sup>* (s\<lparr>svc_db := db_step sql (Deactivate vk) (svc_db s)\<rparr>) s'"
  shows "key_deliveries vk s' \<le> key_deliveries vk s + key_running vk s + waiting {Known vk, Limited vk, Below vk} s"
proof -
  let ?t = "s\<lparr>svc_db := db_step sql (Deactivate vk) (svc_db s)\<rparr>"
  have "service_step co ce sql s ?t" by (rule service_step.Admin) simp
  with assms(1) have "(service_step co ce sql)\<^sup>*\<^sup>* (start_service w d) ?t" by simp
  moreover have "revoked vk (svc_db ?t)"
    using deactivate_existing [OF assms(2)] by (auto dest: revoked_deactivate)
  ultimately have "key_deliveries vk s' \<le>
      key_deliveries vk ?t + key_running vk ?t + waiting {Known vk, Limited vk, Below vk} ?t"
    using assms(3) by (rule revocation.locked_out)
  then show ?thesis by (simp add: key_counts)
qed

subsection \<open>Concrete runs\<close>

lemma stream_body: "chat_body plain_coercion (Some (JObj (model_dump (sample_request\<lparr>stream := True\<rparr>)))) =
    Answer (sample_request\<lparr>stream := True\<rparr>)"
proof -
  have "reads_back plain_coercion (sample_request\<lparr>stream := True\<rparr>)" "request_ok (sample_request\<lparr>stream := True\<rparr>)"
    using sample_reads_back sample_request_ok by (simp_all add: reads_back_def request_ok_def)
  then show ?thesis by (simp add: chat_body_def request_dump_accepted)
qed

definition streamed_request :: chat_request where
  "streamed_request = sample_request\<lparr>stream := True, max_tokens := Some (MAX_TOKENS_PER_REQUEST default_settings)\<rparr>"

lemma demo_process: "svc_gw (start_service () d) = demo_gw ()" "svc_db (start_service w d) = d"
  by (simp_all add: start_service_def new_process_def start_conf_def demo_gw_def)

lemma demo_dependencies:
  "\<exists>hs. chat_dependencies (demo_chat ls) exact_sql (capped_db dec_zero) demo_arrival (demo_gw ()) = (Inr (7, hs), demo_gw ())"
  by (simp add: chat_dependencies_def rate_limited_def limit_key_def demo_arrival_def demo_admitted rl_fallback_def enforce_rate_limit_def Let_def)

text \<open>A request comes to the last read of the dependencies.\<close>

definition demo_below :: "unit service" where
  "demo_below = visited (demo_gw ())
     [(demo_arrival, Some (JObj (model_dump (sample_request\<lparr>stream := True\<rparr>))), Below 7)] (start_service () (capped_db dec_zero))"

lemma demo_visited: "service_steps plain_coercion (demo_chat [sse_done]) exact_sql (start_service () (capped_db dec_zero)) demo_below"
proof -
  obtain hs where deps: "chat_dependencies (demo_chat [sse_done]) exact_sql (svc_db (start_service () (capped_db dec_zero))) demo_arrival
      (svc_gw (start_service () (capped_db dec_zero))) = (Inr (7, hs), demo_gw ())"
    using demo_dependencies by (auto simp: demo_process)
  from dependencies_steps [OF deps, of plain_coercion "Some (JObj (model_dump (sample_request\<lparr>stream := True\<rparr>)))"]
  show ?thesis by (auto simp: demo_below_def)
qed

lemma demo_admission:
  "admission plain_coercion (demo_chat [sse_done]) exact_sql (capped_db dec_zero)
     (Some (JObj (model_dump (sample_request\<lparr>stream := True\<rparr>)))) = Some streamed_request"
proof -
  have "global_cap_error exact_sql (default_settings\<lparr>RATE_LIMIT_FAIL_OPEN := True\<rparr>) (capped_db dec_zero) = None"
    using demo_admitted(2) by (simp add: enforce_Inr_iff)
  then show ?thesis
    by (simp add: admission_def stream_body enforce_max_tokens_def streamed_request_def) (simp add: sample_request_def)
qed

text \<open>It is let in and streamed.\<close>

lemma demo_streamed:
  "\<exists>s r. service_steps plain_coercion (demo_chat [sse_done]) exact_sql demo_below s \<and>
     (\<exists>src. delivered s = [Relayed 7 streamed_request [sse_done] None src]) \<and> gw_tasks (svc_gw s) = [PersistUsage r] \<and>
     svc_db s = capped_db dec_zero \<and> lost s = [] \<and> key_running 7 s = 0 \<and> waiting {Known 7, Limited 7, Below 7} s = 0"
proof -
  let ?v = "Some (JObj (model_dump (sample_request\<lparr>stream := True\<rparr>)))"
  let ?opened = "(set_gw (demo_gw ()) demo_below)\<lparr>visitors := [(demo_arrival, ?v, Away)],
      relays := [(None, streamed_request, 7, Opened)]\<rparr>"
  have start: "visitors demo_below = [(demo_arrival, ?v, Below 7)]" "relays demo_below = []" "svc_db demo_below = capped_db dec_zero"
    "svc_gw demo_below = demo_gw ()" "delivered demo_below = []" "lost demo_below = []" "threads (svc_conf demo_below) = []"
    by (simp_all add: demo_below_def demo_process) (simp_all add: start_service_def new_process_def start_conf_def)
  have known: "reject_unknown_streaming_model streamed_request (env_registry (chat_base (demo_chat [sse_done]))) 7 3 (demo_gw ()) =
      (None, demo_gw ())"
    by (simp add: reject_unknown_streaming_model_def streaming_model_known_def registry_all_def sample_provider_def mk_config_def)
  have rid: "demo_chat [sse_done] \<lparr>chat_request_id := None\<rparr> = demo_chat [sse_done]" by (simp add: demo_chat_def)
  have "stream streamed_request" by (simp add: streamed_request_def)
  then have "service_step plain_coercion (demo_chat [sse_done]) exact_sql demo_below ?opened"
    using service_step.Open [of 0 demo_below demo_arrival ?v 7 plain_coercion "demo_chat [sse_done]" exact_sql streamed_request 3 "demo_gw ()" None] known
    by (simp add: start demo_admission)
  moreover
  let ?r = "build_usage_record 7 ''a'' (pricing_for (config (sample_provider ''a'' 0 [])) (req_model streamed_request))
      (req_model streamed_request) zero_usage 3"
  let ?g = "accounted ?r (demo_gw () \<lparr>gw_prom := record_cache_event ''error'' empty_prom\<rparr>)"
  have "stream_response (demo_chat [sse_done] \<lparr>chat_request_id := None\<rparr>) streamed_request 7 3 (svc_gw ?opened) = ([sse_done], None, ?g)"
    by (simp add: rid) (rule demo_stream_response)
  from relay_steps [OF _ _ this, of 0 plain_coercion exact_sql] obtain src ms where
    "service_steps plain_coercion (demo_chat [sse_done]) exact_sql ?opened
       (relay_at 0 (None, streamed_request, 7, Ended [sse_done] None) ?g [Relayed 7 streamed_request [sse_done] None src] ms ?opened)"
    (is "service_steps _ _ _ _ ?s")
    by auto
  ultimately have "service_steps plain_coercion (demo_chat [sse_done]) exact_sql demo_below ?s"
    by (rule converse_rtranclp_into_rtranclp)
  then show ?thesis
    by (intro exI [of _ ?s] exI [of _ ?r]) (simp add: start key_counts, simp add: accounted_def demo_gw_def)
qed

lemma demo_run:
  "service_steps plain_coercion (demo_chat [sse_done]) exact_sql demo_below s \<Longrightarrow>
     service_steps plain_coercion (demo_chat [sse_done]) exact_sql (start_service () (capped_db dec_zero)) s"
  by (rule rtranclp_trans [OF demo_visited])

theorem books_balance_witness:
  "\<exists>s src rs. (service_step plain_coercion (demo_chat [sse_done]) exact_sql)\<^sup>*\<^sup>* (start_service () (capped_db dec_zero)) s \<and>
     delivered s = [Relayed 7 streamed_request [sse_done] None src] \<and> gw_tasks (svc_gw s) = [] \<and> lost s = [] \<and>
     settles (demo_chat [sse_done]) (Relayed 7 streamed_request [sse_done] None src) rs \<and>
     dec_val (get_key_spend_usd exact_sql 7 (svc_db s)) =
       dec_val (get_key_spend_usd exact_sql 7 (capped_db dec_zero)) + key_total exact_sql 7 rs"
proof -
  obtain s r src where steps: "service_steps plain_coercion (demo_chat [sse_done]) exact_sql demo_below s"
    and s: "delivered s = [Relayed 7 streamed_request [sse_done] None src]" "gw_tasks (svc_gw s) = [PersistUsage r]"
      "svc_db s = capped_db dec_zero" "lost s = []"
    using demo_streamed by blast
  let ?srv = "Assigned 2 (Naive 9)"
  let ?u = "(set_gw ((svc_gw s)\<lparr>gw_tasks := take 0 (gw_tasks (svc_gw s)) @ drop (Suc 0) (gw_tasks (svc_gw s))\<rparr>) s)
      \<lparr>svc_db := run_task exact_sql ?srv (PersistUsage r) (svc_db s), lost := lost s @ lost_by exact_sql ?srv (PersistUsage r) (svc_db s)\<rparr>"
  have "service_step plain_coercion (demo_chat [sse_done]) exact_sql s ?u"
    by (rule service_step.Write) (simp_all add: s)
  with demo_run [OF steps] have run: "(service_step plain_coercion (demo_chat [sse_done]) exact_sql)\<^sup>*\<^sup>* (start_service () (capped_db dec_zero)) ?u"
    by simp
  have u: "delivered ?u = [Relayed 7 streamed_request [sse_done] None src]" "gw_tasks (svc_gw ?u) = []"
    "lost ?u = []"
    by (simp_all add: s) (simp add: create_usage_log_def insert_usage_def capped_db_def sample_log_def)
  from books_balance [OF sql_ok_exact run, unfolded u] obtain rs where
    "settles (demo_chat [sse_done]) (Relayed 7 streamed_request [sse_done] None src) rs"
    "\<forall>i. dec_val (get_key_spend_usd exact_sql i (svc_db ?u)) =
       dec_val (get_key_spend_usd exact_sql i (capped_db dec_zero)) + key_total exact_sql i rs"
    by (auto simp: list_all2_Cons1)
  with run u show ?thesis by blast
qed

theorem overspend_bounded_witness:
  "\<exists>s'. service_step plain_coercion (demo_chat []) exact_sql (start_service () (capped_db (mk_dec 100 (- 2)))) s' \<and>
     svc_db s' = db_step exact_sql (Deactivate 7) (capped_db (mk_dec 100 (- 2))) \<and> key_deliveries 7 s' \<le> 0"
proof -
  let ?d = "capped_db (mk_dec 100 (- 2))" and ?s = "start_service () (capped_db (mk_dec 100 (- 2)))"
  let ?s' = "?s\<lparr>svc_db := db_step exact_sql (Deactivate 7) (svc_db ?s)\<rparr>"
  have "dec_val (mk_dec 100 (- 2)) \<le> dec_val (get_key_spend_usd exact_sql 7 ?d)"
    by (simp add: key_spend_val spend_where_def capped_db_def sample_log_def)
  then obtain e where cap: "enforce_spend_cap exact_sql (env_settings (chat_base (demo_chat []))) (svc_db ?s) 7 = Inl e"
    using key_cap_error_Some_iff [of exact_sql ?d 7]
      enforce_Inl_iff [of exact_sql "env_settings (chat_base (demo_chat []))" ?d 7]
    by (auto simp: demo_process capped_db_def capped_key_def get_key_by_id_def)
  have step: "service_step plain_coercion (demo_chat []) exact_sql ?s ?s'" by (rule service_step.Admin) simp
  have "key_deliveries 7 ?s' \<le> key_deliveries 7 ?s + key_running 7 ?s + waiting {Below 7} ?s"
    by (rule overspend_bounded [OF sql_ok_exact rtranclp.rtrancl_refl cap
          r_into_rtranclp [of "service_step plain_coercion (demo_chat []) exact_sql", OF step]])
  with step show ?thesis
    by (intro exI [of _ ?s']) (simp add: key_counts start_service_def)
qed

theorem revocation_effective_witness:
  "\<exists>s. service_steps plain_coercion (demo_chat [sse_done]) exact_sql
         (demo_below\<lparr>svc_db := db_step exact_sql (Deactivate 7) (svc_db demo_below)\<rparr>) s \<and>
     is_active (hd (api_keys (svc_db s))) = False \<and> key_deliveries 7 s \<le> 1"
proof -
  let ?s = "demo_below\<lparr>svc_db := db_step exact_sql (Deactivate 7) (svc_db demo_below)\<rparr>"
  have "7 \<in> key_id ` set (api_keys (svc_db demo_below))" by (simp add: demo_below_def demo_process capped_db_def capped_key_def)
  from revocation_effective [OF demo_visited this rtranclp.rtrancl_refl]
  have "key_deliveries 7 ?s \<le> key_deliveries 7 demo_below + key_running 7 demo_below + waiting {Known 7, Limited 7, Below 7} demo_below" .
  also have "\<dots> = 1"
    by (simp add: key_counts demo_below_def) (simp add: start_service_def new_process_def start_conf_def)
  finally show ?thesis
    by (intro exI [of _ ?s])
      (simp add: demo_below_def demo_process capped_db_def capped_key_def deactivate_key_def deactivated_def get_key_by_id_def)
qed

end
