(* ===== verification/Answer_Origin.thy ===== *)
theory Answer_Origin
  imports Service_Ledger
begin

text \<open>
  Where the answers of a process come from.  What it needs of the store of answers is an interface (locale
  \<open>answer_store\<close>): an answer that is read was stored under that key, and only \<open>cache_set\<close> stores one.  Under it every
  segment of a request and of a stream keeps the origin of what it carries: a provider's answer to a request with the same
  cache key.  The provider of the interface is Redis as it documents itself.
\<close>

subsection \<open>The interface\<close>

text \<open>\<open>keeps\<close>: nothing is stored in the second world that is not in the first.\<close>

definition keeps :: "('w \<Rightarrow> string \<Rightarrow> chat_response \<Rightarrow> bool) \<Rightarrow> (string \<Rightarrow> bool) \<Rightarrow> 'w \<Rightarrow> 'w \<Rightarrow> bool" where
  "keeps stored slot w w' \<longleftrightarrow> (\<forall>k x. slot k \<longrightarrow> stored w' k x \<longrightarrow> stored w k x)"

lemma keeps_refl [simp]: "keeps stored slot w w"
  by (simp add: keeps_def)

lemma keeps_trans: "keeps stored slot w w1 \<Longrightarrow> keeps stored slot w1 w2 \<Longrightarrow> keeps stored slot w w2"
  by (simp add: keeps_def)

subsection \<open>What a request carries\<close>

text \<open>The responses a request has in its hands, and the future it owns or follows.\<close>

fun carried :: "pc \<Rightarrow> chat_response option" where
  "carried (Looked r) = r"
| "carried (Waited r) = r"
| "carried (Called t f (Inr pr)) = Some (snd pr)"
| "carried (Releasing t f (Inr pr)) = Some (snd pr)"
| "carried (Released f (Inr pr)) = Some (snd pr)"
| "carried (Saving q r) = Some r"
| "carried (Saved q r) = Some r"
| "carried (Finished (Inr r)) = Some r"
| "carried p = None"

fun refers :: "pc \<Rightarrow> nat option" where
  "refers (Following f) = Some f"
| "refers (Calling t f) = Some f"
| "refers (Called t f r) = Some f"
| "refers (Releasing t f r) = Some f"
| "refers (Released f r) = Some f"
| "refers p = None"

lemma carried_Called: "carried (Called t f x) = Some r \<longleftrightarrow> (\<exists>q. x = Inr (q, r))"
  by (cases x) auto

text \<open>
  \<open>G\<close> are the origins known so far: responses with the cache key they were obtained for.  Points, futures (with the keys
  \<open>fk\<close> they were created for), the in-flight table and the store carry only what is in \<open>G\<close> under their own key.
\<close>

definition point_own :: "(string \<times> chat_response) set \<Rightarrow> string list \<Rightarrow> string \<Rightarrow> pc \<Rightarrow> bool" where
  "point_own G fk key p \<longleftrightarrow>
     (\<forall>r. carried p = Some r \<longrightarrow> (key, r) \<in> G) \<and> (\<forall>f. refers p = Some f \<longrightarrow> f < length fk \<and> fk ! f = key)"

definition futures_own :: "(string \<times> chat_response) set \<Rightarrow> string list \<Rightarrow> fut list \<Rightarrow> bool" where
  "futures_own G fk fs \<longleftrightarrow>
     length fk = length fs \<and> (\<forall>f < length fs. \<forall>r. fs ! f = Completed r \<longrightarrow> (fk ! f, r) \<in> G)"

definition table_own :: "string list \<Rightarrow> (string \<rightharpoonup> nat) \<Rightarrow> bool" where
  "table_own fk tbl \<longleftrightarrow> (\<forall>k f. tbl k = Some f \<longrightarrow> f < length fk \<and> fk ! f = k)"

definition shared_own :: "(string \<times> chat_response) set \<Rightarrow> string list \<Rightarrow> 'w gw \<Rightarrow> bool" where
  "shared_own G fk g \<longleftrightarrow> futures_own G fk (futures g) \<and> table_own fk (inflight g)"

lemmas own_defs = point_own_def shared_own_def futures_own_def table_own_def

lemma shared_own_cong: "futures g' = futures g \<Longrightarrow> inflight g' = inflight g \<Longrightarrow> shared_own G fk g' = shared_own G fk g"
  by (simp add: shared_own_def)

lemma shared_own_complete:
  assumes "shared_own G fk g" and "complete f v g = (x, g')" and "\<And>r. v = Completed r \<Longrightarrow> (fk ! f, r) \<in> G"
  shows "shared_own G fk g'"
proof -
  have "(futures g)[f := v] ! i = (if f = i then v else futures g ! i)" if "i < length (futures g)" for i
    using that by simp
  then show ?thesis using assms by (auto simp: complete_def own_defs split: if_splits)
qed

lemma complete_shared: "complete f v g = (x, g') \<Longrightarrow> gw_world g' = gw_world g \<and> length (futures g') = length (futures g)"
  by (auto simp: complete_def split: if_splits)

lemma shared_own_unregister: "shared_own G fk g \<Longrightarrow> shared_own G fk (unregister key f g)"
  by (auto simp: unregister_def own_defs)

lemma unregister_world [simp]: "gw_world (unregister key f g) = gw_world g"
  by (simp add: unregister_def)

lemma own_mono:
  assumes "G \<subseteq> G'"
  shows "point_own G fk key p \<Longrightarrow> point_own G' (fk @ ks) key p" and "shared_own G fk g \<Longrightarrow> shared_own G' fk g"
  using assms by (auto simp: own_defs nth_append)

lemma account_world [simp]: "gw_world (snd (account r g)) = gw_world g"
  by (simp add: account_def split: prod.split option.split)

lemma finish_with_world [simp]: "gw_world (snd (finish_with r x g)) = gw_world g"
  using account_world [of r g] by (cases "account r g") (simp add: finish_with_def split: option.split)

lemma finish_with_carries: "finish_with r x g = (p, g') \<Longrightarrow> refers p = None \<and> (carried p = None \<or> carried p = Some x)"
  by (auto simp: finish_with_def split: prod.splits option.splits)

text \<open>A segment that returns a response it has: from the cache, of a future, or of its own call.\<close>

lemma finish_own:
  assumes "finish_with r x g = (p, g')" and "(key, x) \<in> G" and "shared_own G fk g"
  shows "point_own G fk key p \<and> shared_own G fk g' \<and> gw_world g' = gw_world g \<and> futures g' = futures g"
proof -
  have "futures g' = futures g" "inflight g' = inflight g" "gw_world g' = gw_world g"
    using finish_with_eq [OF assms(1)] finish_with_world [of r x g] assms(1) by simp_all
  then show ?thesis
    using assms(2,3) finish_with_carries [OF assms(1)] shared_own_cong [of g' g] by (auto simp: point_own_def)
qed

lemma lead_own:
  assumes "lead key t g = (p, g')" and "shared_own G fk g"
  shows "point_own G (fk @ [key]) key p \<and> shared_own G (fk @ [key]) g' \<and> gw_world g' = gw_world g \<and>
         length (futures g) < length (futures g')"
proof -
  have own: "futures_own G fk (futures g)" "\<And>k f. inflight g k = Some f \<Longrightarrow> f < length fk \<and> fk ! f = k"
    using assms(2) by (auto simp: shared_own_def table_own_def)
  then have "table_own (fk @ [key]) ((inflight g)(key \<mapsto> length fk))"
    unfolding table_own_def by (auto simp: nth_append dest!: own(2) split: if_splits)
  moreover have "futures_own G (fk @ [key]) (futures g @ [Pending])"
    using own(1) by (auto simp: futures_own_def nth_append)
  ultimately show ?thesis
    using assms(1) own(1) by (auto simp: lead_def shared_own_def point_own_def futures_own_def)
qed

subsection \<open>What a stream carries\<close>

text \<open>The lines of a stream that relays its providers: those they gave to this very request, and an error at its end.\<close>

definition own_lines :: "'w chat_env \<Rightarrow> chat_request \<Rightarrow> string list \<Rightarrow> bool" where
  "own_lines ce req lines \<longleftrightarrow>
     (\<exists>w items fin w'.
        stream_chat_completion (chat_stream ce) (env_registry (chat_base ce)) req w = ((items, fin), w') \<and>
        (lines = fst (relay_lines items new_relay) \<or>
         (\<exists>event. error_event event \<and> lines = fst (relay_lines items new_relay) @ [event])))"

fun relay_own :: "'w chat_env \<Rightarrow> (string \<times> chat_response) set \<Rightarrow> chat_request \<Rightarrow> int \<Rightarrow> stream_pc \<Rightarrow> bool" where
  "relay_own ce G req vk (Replaying r) \<longleftrightarrow> (request_key (chat_base ce) req vk, r) \<in> G"
| "relay_own ce G req vk (Upstream items fin) \<longleftrightarrow>
     (\<exists>w w'. stream_chat_completion (chat_stream ce) (env_registry (chat_base ce)) req w = ((items, fin), w'))"
| "relay_own ce G req vk p \<longleftrightarrow> True"

fun delivery_own :: "'w chat_env \<Rightarrow> (string \<times> chat_response) set \<Rightarrow> delivery \<Rightarrow> bool" where
  "delivery_own ce G (Delivered vk req r src) \<longleftrightarrow> (request_key (chat_base ce) req vk, r) \<in> G"
| "delivery_own ce G (Relayed vk req lines x src) \<longleftrightarrow>
     lines = [] \<or> own_lines ce req lines \<or>
     (\<exists>r now. (request_key (chat_base ce) req vk, r) \<in> G \<and> synthesize_cached_stream now r = Inr lines)"

lemma relay_own_mono: "G \<subseteq> G' \<Longrightarrow> relay_own ce G req vk p \<Longrightarrow> relay_own ce G' req vk p"
  by (cases p) auto

lemma delivery_own_mono: "G \<subseteq> G' \<Longrightarrow> delivery_own ce G d \<Longrightarrow> delivery_own ce G' d"
  by (cases d) auto

lemma failed_stream_own:
  assumes "stream_failed rid req vk l e g = (extra, x, g')"
  shows "gw_world g' = gw_world g \<and> futures g' = futures g \<and> inflight g' = inflight g \<and>
         (extra = [] \<or> (\<exists>event. extra = [event] \<and> error_event event))"
  using assms by (auto simp: stream_failed_def split: exn.splits provider_error.splits if_splits prod.splits)

lemma relayed_lines_own:
  assumes rel: "stream_relayed (ce\<lparr>chat_request_id := rid\<rparr>) req vk l items fin g = (lines, x, g')"
    and up: "stream_chat_completion (chat_stream ce) (env_registry (chat_base ce)) req w = ((items, fin), w')"
  shows "own_lines ce req lines"
proof -
  have "lines = fst (relay_lines items new_relay) \<or>
      (\<exists>event. error_event event \<and> lines = fst (relay_lines items new_relay) @ [event])"
    using rel by (auto simp: stream_relayed_def split: prod.splits sum.splits option.splits dest!: failed_stream_own)
  then show ?thesis using up unfolding own_lines_def by blast
qed

subsection \<open>What a process carries\<close>

definition origins :: "'w chat_env \<Rightarrow> 'w service \<Rightarrow> (string \<times> chat_response) set" where
  "origins ce s = (\<lambda>(vk, req, r). (request_key (chat_base ce) req vk, r)) ` set (made s)"

definition service_own :: "'w chat_env \<Rightarrow> (string \<times> chat_response) set \<Rightarrow> 'w service \<Rightarrow> bool" where
  "service_own ce G s \<longleftrightarrow>
     (\<forall>(req, vk, p) \<in> set (threads (svc_conf s)). point_own G (future_keys (svc_conf s)) (request_key (chat_base ce) req vk) p) \<and>
     shared_own G (future_keys (svc_conf s)) (svc_gw s) \<and>
     (\<forall>(rid, req, vk, p) \<in> set (relays s). relay_own ce G req vk p) \<and>
     (\<forall>d \<in> set (delivered s). delivery_own ce G d)"

lemma service_own_mono: "G \<subseteq> G' \<Longrightarrow> service_own ce G s \<Longrightarrow> service_own ce G' s"
  using own_mono(1) [of G G' _ _ _ "[]"] own_mono(2) [of G G'] relay_own_mono [of G G'] delivery_own_mono [of G G']
  unfolding service_own_def by fastforce

lemma service_own_at:
  assumes "service_own ce G s"
  shows "i < length (threads (svc_conf s)) \<Longrightarrow> threads (svc_conf s) ! i = (req, vk, p) \<Longrightarrow>
           point_own G (future_keys (svc_conf s)) (request_key (chat_base ce) req vk) p"
    and "i < length (relays s) \<Longrightarrow> relays s ! i = (rid, req, vk, q) \<Longrightarrow> relay_own ce G req vk q"
  using assms unfolding service_own_def by (metis (mono_tags, lifting) case_prodD nth_mem)+

text \<open>A request moves to another point; the keys of new futures are added.\<close>

lemma moved_own:
  assumes "\<forall>(req, vk, p) \<in> set ts. point_own G fk (request_key env req vk) p" and "point_own G (fk @ ks) (request_key env req vk) p'"
  shows "\<forall>(req, vk, p) \<in> set (ts[i := (req, vk, p')]). point_own G (fk @ ks) (request_key env req vk) p"
proof (rule all_update)
  show "\<forall>(req, vk, p) \<in> set ts. point_own G (fk @ ks) (request_key env req vk) p"
    using assms(1) own_mono(1) [of G G] by blast
qed (use assms(2) in simp)

lemma delivered_own:
  assumes "point_own G fk (request_key (chat_base ce) req vk) p'" and "d \<in> set (new_delivery vk req p p')"
  shows "delivery_own ce G d"
proof -
  obtain r where r: "answer_of p' = Some r" "d = Delivered vk req r (carries p)"
    using assms(2) by (cases "answer_of p'") (simp_all add: new_delivery_def split: if_splits)
  then have "carried p' = Some r" by (cases p' rule: answer_of.cases) auto
  then show ?thesis using assms(1) r by (simp add: point_own_def)
qed

lemma obtained_own:
  assumes "origins ce s \<subseteq> G" and "made s = ms @ ns" and "m \<in> set ns" and "m = (vk, req, snd (snd m))"
  shows "(request_key (chat_base ce) req vk, snd (snd m)) \<in> G"
proof -
  have "(case m of (vk, req, r) \<Rightarrow> (request_key (chat_base ce) req vk, r)) \<in> origins ce s"
    using assms(2,3) unfolding origins_def by (intro imageI) simp
  then show ?thesis using assms(1,4) by (metis (no_types, lifting) case_prod_conv subsetD)
qed

lemma cancel_own:
  assumes "gw_cancel env c c'"
    and "\<forall>(req, vk, p) \<in> set (threads c). point_own G (future_keys c) (request_key env req vk) p" and "shared_own G (future_keys c) (shared c)"
  shows "(\<forall>(req, vk, p) \<in> set (threads c'). point_own G (future_keys c') (request_key env req vk) p) \<and>
         shared_own G (future_keys c') (shared c') \<and> gw_world (shared c') = gw_world (shared c)"
  using assms(1)
proof cases
  case (CancelLeader i req vk t f)
  have "point_own G (future_keys c @ []) (request_key env req vk) (case t of Some tok \<Rightarrow> Unwinding tok | None \<Rightarrow> Gone)"
    by (simp add: point_own_def split: option.split)
  from moved_own [OF assms(2) this, of i] show ?thesis
    using CancelLeader(1) shared_own_unregister [OF assms(3)] by simp
next
  case (CancelFollower i req vk f)
  have "shared_own G (future_keys c) ((shared c)\<lparr>futures := (futures (shared c))[f := Cancelled]\<rparr>)"
    using shared_own_complete [OF assms(3), of f Cancelled] CancelFollower(4) by (simp add: complete_def)
  moreover have "point_own G (future_keys c @ []) (request_key env req vk) Gone" by (simp add: point_own_def)
  from moved_own [OF assms(2) this, of i] have
    "\<forall>(req, vk, p) \<in> set ((threads c)[i := (req, vk, Gone)]). point_own G (future_keys c) (request_key env req vk) p" by simp
  ultimately show ?thesis using CancelFollower(1) by simp
qed

subsection \<open>The store\<close>

definition store_own :: "('w \<Rightarrow> string \<Rightarrow> chat_response \<Rightarrow> bool) \<Rightarrow> (string \<Rightarrow> bool) \<Rightarrow> (string \<times> chat_response) set \<Rightarrow> 'w \<Rightarrow> bool" where
  "store_own stored slot G w \<longleftrightarrow> (\<forall>(k, x) \<in> G. response_ok x) \<and> (\<forall>k x. slot k \<longrightarrow> stored w k x \<longrightarrow> (k, x) \<in> G)"

lemma store_own_keeps: "keeps stored slot w w' \<Longrightarrow> store_own stored slot G w \<Longrightarrow> store_own stored slot G w'"
  unfolding keeps_def store_own_def by blast

lemma store_own_mono:
  "store_own stored slot G w \<Longrightarrow> G \<subseteq> G' \<Longrightarrow> \<forall>(k, x) \<in> G'. response_ok x \<Longrightarrow> store_own stored slot G' w"
  unfolding store_own_def by blast

text \<open>What a segment of a request with the cache key \<open>key\<close> leaves.\<close>

definition left_own ::
    "('w \<Rightarrow> string \<Rightarrow> chat_response \<Rightarrow> bool) \<Rightarrow> (string \<Rightarrow> bool) \<Rightarrow> (string \<times> chat_response) set \<Rightarrow> string list \<Rightarrow> string \<Rightarrow>
     pc \<Rightarrow> 'w gw \<Rightarrow> bool" where
  "left_own stored slot G fk key p g \<longleftrightarrow> point_own G fk key p \<and> shared_own G fk g \<and> store_own stored slot G (gw_world g)"

text \<open>Segments that leave the futures alone, that complete one, or that create one.\<close>

lemma left_kept:
  assumes "left_own stored slot G fk key p g" and "point_own G fk key p'" and "shared_own G fk g'"
    and "gw_world g' = gw_world g" and "length (futures g') = length (futures g)"
  shows "left_own stored slot G (fk @ new_keys key g g') key p' g'"
  using assms by (simp add: left_own_def new_keys_def)

lemma left_quiet:
  assumes "left_own stored slot G fk key p g" and "point_own G fk key p'" and "futures g' = futures g" and "inflight g' = inflight g"
    and "keeps stored slot (gw_world g) (gw_world g')"
  shows "left_own stored slot G (fk @ new_keys key g g') key p' g'"
  using assms shared_own_cong [of g' g] store_own_keeps by (auto simp: left_own_def new_keys_def)

lemma left_finish:
  assumes "left_own stored slot G fk key p g" and "finish_with r x g = (p', g')" and "(key, x) \<in> G"
  shows "left_own stored slot G (fk @ new_keys key g g') key p' g'"
  using assms finish_own [OF assms(2,3), of fk] by (intro left_kept [OF assms(1)]) (simp_all add: left_own_def)

lemma left_served:
  assumes "left_own stored slot G fk key p g" and "serve_cached vk l x g = (p', g')" and "(key, x) \<in> G"
  shows "left_own stored slot G (fk @ new_keys key g g') key p' g'"
  using left_finish [OF assms(1) assms(2) [unfolded serve_cached_def] assms(3)] .

lemma left_led:
  assumes "left_own stored slot G fk key p g" and "lead key t g = (p', g')"
  shows "left_own stored slot G (fk @ new_keys key g g') key p' g'"
  using assms(1) lead_own [OF assms(2), of G fk] by (auto simp: left_own_def new_keys_def)

lemma left_unregistered:
  assumes "left_own stored slot G fk key p g" and "point_own G fk key p'" and "shared_own G fk h"
    and "gw_world h = gw_world g" and "length (futures h) = length (futures g)" and "g' = unregister key f h"
  shows "left_own stored slot G (fk @ new_keys key g g') key p' g'"
  using assms shared_own_unregister by (intro left_kept [OF assms(1)]) simp_all

locale answer_store =
  fixes ce :: "'w chat_env" and stored :: "'w \<Rightarrow> string \<Rightarrow> chat_response \<Rightarrow> bool" and slot :: "string \<Rightarrow> bool"
  assumes request_slot: "slot (request_key (chat_base ce) req vk)"
    and got: "slot k \<Longrightarrow> cache_get (exec_of ce) (env_dec (chat_base ce)) k (p, w) = (r, p', w') \<Longrightarrow>
                 (\<forall>x. r = Some x \<longrightarrow> stored w k x) \<and> keeps stored slot w w'"
    and round: "slot k \<Longrightarrow> poll_once (exec_of ce) (env_dec (chat_base ce)) k (p, w) = (rr, p', w') \<Longrightarrow>
                 (\<forall>x. rr = Some (Some x) \<longrightarrow> stored w k x) \<and> keeps stored slot w w'"
    and put: "slot k' \<Longrightarrow> response_ok a \<Longrightarrow>
                 stored (cache_set (exec_of ce) (env_enc (chat_base ce)) (env_settings (chat_base ce)) k a w) k' x \<Longrightarrow>
                 stored w k' x \<or> k' = k \<and> x = a"
    and lock: "keeps stored slot w (snd (acquire_lock (exec_of ce) token ttl k w))"
    and release: "keeps stored slot w (release_lock (exec_of ce) k token w)"
    and limit: "keeps stored slot w (snd (check_rate_limit_status (exec_of ce) cfg now nr token vk w))"
    and sleep: "keeps stored slot w (env_sleep (chat_base ce) d w)"
    and provider_call: "keeps stored slot w (snd (env_call (chat_base ce) q req w))"
    and provider_stream: "keeps stored slot w (snd (chat_stream ce q req w))"
    and valid: "env_call (chat_base ce) q req w = (Inr a, w') \<Longrightarrow> response_ok a"
    and outside: "chat_outside ce w w' \<Longrightarrow> keeps stored slot w w'"
begin

lemma poll_own:
  assumes k: "slot k"
    and run: "poll_result (exec_of ce) (env_dec (chat_base ce)) clock (env_sleep (chat_base ce)) k dl pw = Some res"
  shows "(\<forall>x. fst res = Some x \<longrightarrow> stored (snd pw) k x) \<and> keeps stored slot (snd pw) (snd (snd res))"
proof -
  let ?P = "\<lambda>exec dec clock sl key dl pw res. exec = exec_of ce \<longrightarrow> dec = env_dec (chat_base ce) \<longrightarrow>
      sl = env_sleep (chat_base ce) \<longrightarrow> key = k \<longrightarrow>
      (\<forall>x. fst res = Some x \<longrightarrow> stored (snd pw) k x) \<and> keeps stored slot (snd pw) (snd (snd res))"
  have "?P (exec_of ce) (env_dec (chat_base ce)) clock (env_sleep (chat_base ce)) k dl pw res"
  proof (rule poll_result.raw_induct [where P = ?P, OF _ run], intro impI)
    fix poll exec dec clock sl key dl pw res
    assume IH: "\<And>dec clock sl key dl pw b y. poll dec clock sl key dl pw b = Some y \<Longrightarrow> ?P dec clock sl key dl pw b y"
      and eq: "exec = exec_of ce" "dec = env_dec (chat_base ce)" "sl = env_sleep (chat_base ce)" "key = k"
      and body: "(if clock (snd pw) < dl
        then case exec [Get key] (snd pw) of
             (Inl m, w) \<Rightarrow> Some (None, fst pw, w)
           | (Inr rs, w) \<Rightarrow>
               case bulk rs of
                 Some raw \<Rightarrow> (case parse_entry dec raw False (fst pw) of (r, p) \<Rightarrow> Some (r, p, w))
               | None \<Rightarrow> poll exec dec clock sl key dl (fst pw, sl LOCK_POLL_INTERVAL_SECONDS w)
        else Some (None, pw)) = Some res"
    obtain rr p w where once: "poll_once (exec_of ce) (env_dec (chat_base ce)) k (fst pw, snd pw) = (rr, p, w)" by (metis prod.exhaust)
    note one = round [OF k once]
    show "(\<forall>x. fst res = Some x \<longrightarrow> stored (snd pw) k x) \<and> keeps stored slot (snd pw) (snd (snd res))"
    proof (cases "clock (snd pw) < dl")
      case True
      show ?thesis
      proof (cases rr)
        case None
        then have "poll (exec_of ce) (env_dec (chat_base ce)) clock (env_sleep (chat_base ce)) k dl
            (fst pw, env_sleep (chat_base ce) LOCK_POLL_INTERVAL_SECONDS w) = Some res"
          using body True once unfolding eq by (auto simp: poll_once_def split: prod.splits sum.splits option.splits)
        from IH [OF this] have "(\<forall>x. fst res = Some x \<longrightarrow> stored (env_sleep (chat_base ce) LOCK_POLL_INTERVAL_SECONDS w) k x) \<and>
            keeps stored slot (env_sleep (chat_base ce) LOCK_POLL_INTERVAL_SECONDS w) (snd (snd res))" by simp
        moreover have "keeps stored slot (snd pw) (env_sleep (chat_base ce) LOCK_POLL_INTERVAL_SECONDS w)"
          by (rule keeps_trans [OF conjunct2 [OF one] sleep])
        ultimately show ?thesis using k by (auto simp: keeps_def)
      next
        case (Some r)
        then have "res = (r, p, w)"
          using body True once unfolding eq by (auto simp: poll_once_def split: prod.splits sum.splits option.splits)
        then show ?thesis using one Some by simp
      qed
    qed (use body in \<open>auto simp: eq\<close>)
  qed
  then show ?thesis by simp
qed

lemma wait_own:
  assumes "slot k" and "wait_for_result (exec_of ce) (env_dec (chat_base ce)) clock (env_sleep (chat_base ce)) k t (p, w) = Some (r, p', w')"
  shows "(\<forall>x. r = Some x \<longrightarrow> stored w k x) \<and> keeps stored slot w w'"
  using poll_own [OF assms(1) assms(2) [unfolded wait_for_result_def]] by simp

lemma fallback_keeps: "keeps stored slot w (snd (try_providers (env_call (chat_base ce)) qs req att lst w))"
proof (induction qs arbitrary: att lst w)
  case (Cons q qs)
  obtain r w1 where c: "env_call (chat_base ce) q req w = (r, w1)" by fastforce
  then have one: "keeps stored slot w w1" using provider_call [of w q req] by simp
  then show ?case
    using Cons.IH c by (cases r) (auto split: exn.split intro: keeps_trans)
qed simp

lemma streams_keep: "keeps stored slot w (snd (try_streams (chat_stream ce) qs req att lst w))"
proof (induction qs arbitrary: att lst w)
  case (Cons q qs)
  obtain ls fin w1 where c: "chat_stream ce q req w = ((ls, fin), w1)" by (metis prod.exhaust)
  then have one: "keeps stored slot w w1" using provider_stream [of w q req] by simp
  then show ?case
    using Cons.IH c by (cases ls; cases fin) (auto split: exn.split intro: keeps_trans)
qed simp

lemma lock_run: "acquire_lock (exec_of ce) token ttl k w = (t, w') \<Longrightarrow> keeps stored slot w w'"
  using lock [of w token ttl k] by simp

lemma fallback_run: "execute_with_fallback (env_call (chat_base ce)) qs req w = (r, w') \<Longrightarrow> keeps stored slot w w'"
  using fallback_keeps [of w qs req "[]" None] by (simp add: execute_with_fallback_def)

lemma put_own:
  assumes "store_own stored slot G w" and "(k, a) \<in> G"
  shows "store_own stored slot G (cache_set (exec_of ce) (env_enc (chat_base ce)) (env_settings (chat_base ce)) k a w)"
  unfolding store_own_def
proof (intro conjI allI impI)
  fix k' x assume "slot k'" "stored (cache_set (exec_of ce) (env_enc (chat_base ce)) (env_settings (chat_base ce)) k a w) k' x"
  with put [OF this(1) _ this(2)] assms show "(k', x) \<in> G" by (auto simp: store_own_def)
qed (use assms(1) in \<open>simp add: store_own_def\<close>)

text \<open>The segments that look for an answer.\<close>

lemma lookup_own:
  assumes own: "left_own stored slot G fk (request_key (chat_base ce) req vk) p g"
    and adv: "advance (chat_base ce) req vk token l p g = (p', g')" and p: "p = Arrived \<or> p = Waiting"
  shows "left_own stored slot G (fk @ new_keys (request_key (chat_base ce) req vk) g g') (request_key (chat_base ce) req vk) p' g'"
proof -
  let ?b = "chat_base ce" and ?key = "request_key (chat_base ce) req vk"
  note slot = request_slot [of req vk]
  have found: "left_own stored slot G (fk @ new_keys ?key g g') ?key p' g'"
    if "(\<forall>x. r = Some x \<longrightarrow> stored (gw_world g) ?key x) \<and> keeps stored slot (gw_world g) w"
      and "carried p' = r" "refers p' = None" "g' = g\<lparr>gw_prom := q, gw_world := w\<rparr>" for r q w
    using that own slot by (intro left_quiet [OF own]) (auto simp: point_own_def left_own_def store_own_def)
  from p show ?thesis
  proof
    assume p: "p = Arrived"
    obtain r q w where c: "cache_get (exec_of ce) (env_dec ?b) ?key (gw_prom g, gw_world g) = (r, q, w)" by (metis prod.exhaust)
    then show ?thesis using adv p by (intro found [OF got [OF slot c]]) auto
  next
    assume p: "p = Waiting"
    show ?thesis
    proof (cases "wait_for_result (exec_of ce) (env_dec ?b) (env_monotonic ?b) (env_sleep ?b) ?key WAIT_TIMEOUT_SECONDS (gw_prom g, gw_world g)")
      case None
      then show ?thesis using adv p by (intro left_quiet [OF own]) (auto simp: point_own_def)
    next
      case (Some x)
      obtain r q w where x: "x = (r, q, w)" by (metis prod.exhaust)
      then show ?thesis using adv p Some by (intro found [OF wait_own [OF slot Some [unfolded x]]]) auto
    qed
  qed
qed

text \<open>Those that have looked: in the cache, in the in-flight table, at the lock, for another replica's result.\<close>

lemma looked_own:
  assumes own: "left_own stored slot G fk (request_key (chat_base ce) req vk) p g"
    and adv: "advance (chat_base ce) req vk token l p g = (p', g')" and p: "p = Looked r \<or> p = Waited r"
  shows "left_own stored slot G (fk @ new_keys (request_key (chat_base ce) req vk) g g') (request_key (chat_base ce) req vk) p' g'"
proof (cases r)
  case None
  let ?key = "request_key (chat_base ce) req vk"
  have tbl: "inflight g ?key = Some f \<Longrightarrow> f < length fk \<and> fk ! f = ?key" for f
    using own by (auto simp: left_own_def own_defs)
  from p show ?thesis
  proof
    assume "p = Looked r"
    then show ?thesis
      using adv None tbl by (intro left_quiet [OF own]) (auto simp: point_own_def split: option.splits if_splits)
  next
    assume "p = Waited r"
    then show ?thesis using adv None by (intro left_led [OF own]) simp
  qed
next
  case (Some a)
  then have "serve_cached vk l a g = (p', g')" "(request_key (chat_base ce) req vk, a) \<in> G"
    using adv p own by (auto simp: left_own_def point_own_def)
  then show ?thesis by (rule left_served [OF own])
qed

lemma follow_own:
  assumes own: "left_own stored slot G fk (request_key (chat_base ce) req vk) (Following f) g"
    and adv: "advance (chat_base ce) req vk token l (Following f) g = (p', g')"
  shows "left_own stored slot G (fk @ new_keys (request_key (chat_base ce) req vk) g g') (request_key (chat_base ce) req vk) p' g'"
proof -
  from own have f: "f < length fk" "fk ! f = request_key (chat_base ce) req vk" by (simp_all add: left_own_def point_own_def)
  show ?thesis
  proof (cases "futures g ! f")
    case (Completed a)
    then have "serve_cached vk l a g = (p', g')" "(request_key (chat_base ce) req vk, a) \<in> G"
      using adv own f by (auto simp: left_own_def own_defs)
    then show ?thesis by (rule left_served [OF own])
  qed (use adv f in \<open>intro left_quiet [OF own]; auto simp: point_own_def\<close>)+
qed

text \<open>The leader's, once its providers have answered.\<close>

lemma leader_own:
  assumes own: "left_own stored slot G fk (request_key (chat_base ce) req vk) p g"
    and adv: "advance (chat_base ce) req vk token l p g = (p', g')" and p: "p = Called t f r \<or> p = Released f r"
  shows "left_own stored slot G (fk @ new_keys (request_key (chat_base ce) req vk) g g') (request_key (chat_base ce) req vk) p' g'"
proof -
  let ?key = "request_key (chat_base ce) req vk"
  from own have sh: "shared_own G fk g" and pt: "point_own G fk ?key p" by (simp_all add: left_own_def)
  then have f: "f < length fk" "fk ! f = ?key" using p by (auto simp: point_own_def)
  show ?thesis
  proof (cases r)
    case (Inl e)
    obtain x g1 where c: "complete f (fut.Raised e) g = (x, g1)" by fastforce
    from shared_own_complete [OF sh c] have "shared_own G fk g1" by simp
    then show ?thesis
      using adv p f Inl c complete_shared [OF c]
      by (elim disjE; intro left_unregistered [OF own, where h = g1 and f = f] left_quiet [OF own])
        (auto simp: point_own_def split: option.splits)
  next
    case (Inr pr)
    then have pr: "(?key, snd pr) \<in> G" using pt p by (auto simp: point_own_def)
    obtain x g1 where c: "complete f (Completed (snd pr)) g = (x, g1)" by fastforce
    from shared_own_complete [OF sh c] pr f have "shared_own G fk g1" by simp
    then show ?thesis
      using adv p f Inr pr c complete_shared [OF c] sh
      by (cases pr; elim disjE; intro left_unregistered [OF own, where h = g and f = f] left_kept [OF own])
        (auto simp: point_own_def split: option.splits)
  qed
qed

lemma advance_own:
  assumes own: "left_own stored slot G fk (request_key (chat_base ce) req vk) p g"
    and adv: "advance (chat_base ce) req vk token l p g = (p', g')"
    and made: "\<And>m. m \<in> set (new_made vk req p p') \<Longrightarrow> (request_key (chat_base ce) req vk, snd (snd m)) \<in> G"
  shows "left_own stored slot G (fk @ new_keys (request_key (chat_base ce) req vk) g g') (request_key (chat_base ce) req vk) p' g'"
proof -
  let ?key = "request_key (chat_base ce) req vk"
  note quiet = left_quiet [OF own]
  have pt: "point_own G fk ?key p" using own by (simp add: left_own_def)
  show ?thesis
  proof (cases p)
    case Locking
    then show ?thesis using adv by (auto intro!: quiet lock_run simp: point_own_def split: prod.splits)
  next
    case (Locked t)
    show ?thesis
    proof (cases t)
      case None
      then show ?thesis using adv Locked by (intro quiet) (auto simp: point_own_def)
    next
      case (Some tok)
      then show ?thesis using adv Locked by (intro left_led [OF own]) simp
    qed
  next
    case (Calling t f)
    have "(?key, snd pr) \<in> G" if "p' = Called t' f' (Inr pr)" for t' f' pr using made Calling that by auto
    then show ?thesis
      using adv pt Calling
      by (auto intro!: quiet fallback_run simp: point_own_def carried_Called split: prod.splits)
  next
    case (Releasing tok f r)
    then show ?thesis
      using adv pt release [of "gw_world g"] by (cases r) (auto intro!: quiet simp: point_own_def)
  next
    case (Saving q r)
    then show ?thesis using adv own by (auto simp: left_own_def point_own_def new_keys_def put_own shared_own_def)
  next
    case (Saved q r)
    then show ?thesis using adv own by (intro left_finish [OF own]) (auto simp: left_own_def point_own_def)
  next
    case (Unwinding tok)
    then show ?thesis using adv release [of "gw_world g"] by (auto intro!: quiet simp: point_own_def)
  next
    case (Finished v)
    then show ?thesis using adv own by (simp add: new_keys_def)
  next
    case Gone
    then show ?thesis using adv own by (simp add: new_keys_def)
  next
    case (Following f)
    show ?thesis using follow_own [OF own [unfolded Following] adv [unfolded Following]] .
  qed (simp_all add: lookup_own [OF own adv] looked_own [OF own adv] leader_own [OF own adv])
qed

text \<open>The segments of a stream.\<close>

lemma succeeded_own:
  assumes "stream_succeeded (ce\<lparr>chat_request_id := rid\<rparr>) req vk l r g = (x, g')" and "relay_lines items new_relay = (lines, Inr r)"
    and "store_own stored slot G (gw_world g)"
    and "\<And>a. a \<in> set (accumulated (chat_time ce (gw_world g)) items) \<Longrightarrow> (request_key (chat_base ce) req vk, a) \<in> G"
  shows "store_own stored slot G (gw_world g') \<and> futures g' = futures g \<and> inflight g' = inflight g"
proof -
  obtain y g1 where s: "(case rs_provider r of None \<Rightarrow> (None, g) | Some p \<Rightarrow> schedule_stream_usage vk p (req_model req) (rs_usage r) l g) = (y, g1)"
    by fastforce
  then have g1: "gw_world g1 = gw_world g" "futures g1 = futures g" "inflight g1 = inflight g"
    by (auto simp: schedule_stream_usage_def split: option.splits dest!: arg_cong [where f = snd])
  then show ?thesis
    using assms s
    by (auto simp: stream_succeeded_def accumulated_def intro!: put_own split: option.splits if_splits sum.splits)
qed

lemma stream_own:
  assumes adv: "stream_advance (ce\<lparr>chat_request_id := rid\<rparr>) req vk l p g = (p', g')" and own: "relay_own ce G req vk p"
    and store: "store_own stored slot G (gw_world g)"
    and made: "\<And>m. m \<in> set (new_streamed ce vk req p g) \<Longrightarrow> (request_key (chat_base ce) req vk, snd (snd m)) \<in> G"
  shows "relay_own ce G req vk p' \<and> store_own stored slot G (gw_world g') \<and> futures g' = futures g \<and> inflight g' = inflight g \<and>
         (\<forall>d \<in> set (new_relayed vk req p p'). delivery_own ce G d)"
proof (cases p)
  case Opened
  obtain r q w where c: "cache_get (exec_of ce) (env_dec (chat_base ce)) (request_key (chat_base ce) req vk) (gw_prom g, gw_world g) = (r, q, w)"
    by (metis prod.exhaust)
  from got [OF request_slot c] have "store_own stored slot G w"
    and "\<And>a. r = Some a \<Longrightarrow> (request_key (chat_base ce) req vk, a) \<in> G"
    using store request_slot [of req vk] by (auto simp: store_own_def keeps_def)
  then show ?thesis using adv Opened c by (auto split: option.splits)
next
  case (Replaying r)
  then show ?thesis
    using adv own store
    by (auto simp: stream_replay_def schedule_cached_stream_usage_def split: sum.splits prod.splits dest!: arg_cong [where f = snd])
next
  case Missed
  obtain items fin w where c: "stream_chat_completion (chat_stream ce) (env_registry (chat_base ce)) req (gw_world g) = ((items, fin), w)"
    by (metis prod.exhaust)
  with streams_keep [of "gw_world g"] have "keeps stored slot (gw_world g) w" by (simp add: stream_chat_completion_def) (metis snd_conv)
  then show ?thesis using adv Missed c store_own_keeps [OF _ store] by auto blast
next
  case (Upstream items fin)
  obtain lines x g1 where rel: "stream_relayed (ce\<lparr>chat_request_id := rid\<rparr>) req vk l items fin g = (lines, x, g1)" by (metis prod.exhaust)
  then have eq: "p' = Ended lines x" "g' = g1" using adv Upstream by simp_all
  from own Upstream obtain w w' where
    up: "stream_chat_completion (chat_stream ce) (env_registry (chat_base ce)) req w = ((items, fin), w')" by auto
  have "store_own stored slot G (gw_world g1) \<and> futures g1 = futures g \<and> inflight g1 = inflight g"
  proof (cases "\<exists>ls r. relay_lines items new_relay = (ls, Inr r) \<and> fin = None")
    case True
    then obtain ls r where r: "relay_lines items new_relay = (ls, Inr r)" "fin = None" by blast
    then have "stream_succeeded (ce\<lparr>chat_request_id := rid\<rparr>) req vk l r g = (x, g1)" using rel by (simp add: stream_relayed_def)
    then show ?thesis using r store made Upstream by (intro succeeded_own) (auto simp: image_iff)
  next
    case False
    then show ?thesis
      using rel store
      by (auto simp: stream_relayed_def split: prod.splits sum.splits option.splits dest!: failed_stream_own)
  qed
  then show ?thesis using relayed_lines_own [OF rel up] eq Upstream by simp
qed (use adv store in auto)

text \<open>The dependencies and the reports of failures.\<close>

lemma limit_own:
  assumes "limit_key ce ar vk g = (r, g')"
  shows "keeps stored slot (gw_world g) (gw_world g') \<and> futures g' = futures g \<and> inflight g' = inflight g"
proof -
  obtain y w where c: "check_rate_limit_status (exec_of ce) (env_settings (chat_base ce)) (ar_now ar) (ar_now_repr ar) (ar_rl_token ar)
      vk (gw_world g) = (y, w)" by fastforce
  with limit [of "gw_world g"] have "keeps stored slot (gw_world g) w" by (metis snd_conv)
  then show ?thesis
    using assms c by (auto simp: limit_key_def enforce_rate_limit_def Let_def split: sum.splits if_splits)
qed

text \<open>What providers give is valid.\<close>

lemma made_valid:
  assumes "advance (chat_base ce) req vk token l p g = (p', g')" and "m \<in> set (new_made vk req p p')"
  shows "response_ok (snd (snd m))"
proof -
  obtain t f t' f' q r where p: "p = Calling t f" "p' = Called t' f' (Inr (q, r))" "m = (vk, req, r)"
    using assms(2) by (cases "(vk, req, p, p')" rule: new_made.cases) auto
  then obtain w where "try_providers (env_call (chat_base ce)) (select_providers (env_registry (chat_base ce)) (req_model req)) req [] None
      (gw_world g) = (Inr (q, r), w)"
    using assms(1) by (auto simp: execute_with_fallback_def split: prod.splits)
  from try_providers_Inr [OF this] show ?thesis using valid p by auto
qed

lemma streamed_valid:
  assumes "m \<in> set (new_streamed ce vk req p g)"
  shows "response_ok (snd (snd m))"
proof -
  obtain items where p: "p = Upstream items None" using assms by (cases "(ce, vk, req, p, g)" rule: new_streamed.cases) auto
  obtain lines res where rl: "relay_lines items new_relay = (lines, res)" by fastforce
  obtain r where r: "relay_lines items new_relay = (lines, Inr r)" "to_response (chat_time ce (gw_world g)) (rs_acc r) = Inr (snd (snd m))"
  proof (cases res)
    case (Inr r)
    then show ?thesis
      using that [of r] rl assms p
      by (cases "to_response (chat_time ce (gw_world g)) (rs_acc r)") (auto simp: accumulated_def split: if_splits)
  qed (use rl assms p in \<open>simp add: accumulated_def\<close>)
  then have "fold_res feed (map snd items) new_accumulator = Inr (rs_acc r)"
    using relay_lines_ok [OF r(1)] by (simp add: new_relay_def)
  from accumulated_valid [OF this r(2)] show ?thesis .
qed

lemma step_valid:
  assumes "service_step co ce sql s s'" and "\<forall>m \<in> set (made s). response_ok (snd (snd m))"
  shows "set (made s) \<subseteq> set (made s') \<and> (\<forall>m \<in> set (made s'). response_ok (snd (snd m)))"
  using assms(1)
proof cases
  case (Segment i req vk p token l p' g')
  then show ?thesis using assms(2) made_valid [OF Segment(4)] by auto
next
  case (Relay i rid req vk p l p' g1)
  then show ?thesis using assms(2) streamed_valid [of _ vk req p "svc_gw s"] by auto
qed (use assms(2) in \<open>simp_all add: visited_def del: visited_update\<close>)

text \<open>Every step of a process keeps the origins.\<close>

lemma relay_step_own:
  assumes new: "s' = (set_gw g1 s)\<lparr>relays := (relays s)[i := (rid, req, vk, p')], delivered := delivered s @ new_relayed vk req p p',
      made := made s @ new_streamed ce vk req p (svc_gw s)\<rparr>"
    and i: "i < length (relays s)" "relays s ! i = (rid, req, vk, p)"
    and adv: "stream_advance (ce\<lparr>chat_request_id := rid\<rparr>) req vk l p (svc_gw s) = (p', g1)"
    and own: "service_own ce G s" and store: "store_own stored slot G (gw_world (svc_gw s))" and made: "origins ce s' \<subseteq> G"
  shows "service_own ce G s' \<and> store_own stored slot G (gw_world (svc_gw s'))"
proof -
  have "(request_key (chat_base ce) req vk, snd (snd m)) \<in> G" if "m \<in> set (new_streamed ce vk req p (svc_gw s))" for m
    using obtained_own [OF made _ that streamed_for [OF that]] new by simp
  note st = stream_own [OF adv service_own_at(2) [OF own i] store this]
  then have "\<forall>(rid, req, vk, p) \<in> set ((relays s)[i := (rid, req, vk, p')]). relay_own ce G req vk p"
    using own by (intro all_update) (auto simp: service_own_def)
  then show ?thesis using st own new by (auto simp: service_own_def shared_own_def set_gw_def)
qed

lemma segment_step_own:
  assumes new: "s' = s\<lparr>svc_conf := (svc_conf s)
        \<lparr>shared := g', threads := (threads (svc_conf s))[i := (req, vk, p')],
         future_keys := future_keys (svc_conf s) @ new_keys (request_key (chat_base ce) req vk) (svc_gw s) g',
         provider_calls := provider_calls (svc_conf s) @ new_calls (request_key (chat_base ce) req vk) p p'\<rparr>,
      delivered := delivered s @ new_delivery vk req p p', made := made s @ new_made vk req p p'\<rparr>"
    and i: "i < length (threads (svc_conf s))" "threads (svc_conf s) ! i = (req, vk, p)"
    and adv: "advance (chat_base ce) req vk token l p (svc_gw s) = (p', g')"
    and own: "service_own ce G s" and store: "store_own stored slot G (gw_world (svc_gw s))" and made: "origins ce s' \<subseteq> G"
  shows "service_own ce G s' \<and> store_own stored slot G (gw_world (svc_gw s'))"
proof -
  let ?key = "request_key (chat_base ce) req vk" and ?fk = "future_keys (svc_conf s)"
  have given: "(?key, snd (snd m)) \<in> G" if "m \<in> set (new_made vk req p p')" for m
    using obtained_own [OF made _ that made_for [OF that]] new by simp
  have "left_own stored slot G ?fk ?key p (svc_gw s)"
    using own store service_own_at(1) [OF own i] by (simp add: left_own_def service_own_def)
  from advance_own [OF this adv given] have left: "left_own stored slot G (?fk @ new_keys ?key (svc_gw s) g') ?key p' g'" by blast
  then have "\<forall>(req, vk, p) \<in> set ((threads (svc_conf s))[i := (req, vk, p')]).
      point_own G (?fk @ new_keys ?key (svc_gw s) g') (request_key (chat_base ce) req vk) p"
    using own by (intro moved_own) (simp_all add: service_own_def left_own_def)
  then show ?thesis using left own new delivered_own by (auto simp: service_own_def left_own_def)
qed

lemma poll_step_own:
  assumes new: "s' = s\<lparr>svc_conf := (svc_conf s)
        \<lparr>shared := (svc_gw s)\<lparr>gw_prom := p, gw_world := w\<rparr>,
         threads := (threads (svc_conf s))[i := (req, vk, case r of Some x \<Rightarrow> Waited x | None \<Rightarrow> Waiting)]\<rparr>\<rparr>"
    and adv: "poll_once (exec_of ce) (env_dec (chat_base ce)) (request_key (chat_base ce) req vk)
      (gw_prom (svc_gw s), gw_world (svc_gw s)) = (r, p, w)"
    and own: "service_own ce G s" and store: "store_own stored slot G (gw_world (svc_gw s))"
  shows "service_own ce G s' \<and> store_own stored slot G (gw_world (svc_gw s'))"
proof -
  have one: "(\<forall>x. r = Some (Some x) \<longrightarrow> stored (gw_world (svc_gw s)) (request_key (chat_base ce) req vk) x) \<and> keeps stored slot (gw_world (svc_gw s)) w"
    using round [OF request_slot adv] .
  then have "point_own G (future_keys (svc_conf s) @ []) (request_key (chat_base ce) req vk) (case r of Some x \<Rightarrow> Waited x | None \<Rightarrow> Waiting)"
    using store request_slot by (auto simp: point_own_def store_own_def split: option.splits)
  then have "\<forall>(req, vk, p) \<in> set ((threads (svc_conf s))[i := (req, vk, case r of Some x \<Rightarrow> Waited x | None \<Rightarrow> Waiting)]).
      point_own G (future_keys (svc_conf s) @ []) (request_key (chat_base ce) req vk) p"
    using own by (intro moved_own) (simp_all add: service_own_def)
  then show ?thesis using own store store_own_keeps one new by (auto simp: service_own_def shared_own_def)
qed

lemma step_own:
  assumes step: "service_step co ce sql s s'" and own: "service_own ce G s" and store: "store_own stored slot G (gw_world (svc_gw s))"
    and made: "origins ce s' \<subseteq> G"
  shows "service_own ce G s' \<and> store_own stored slot G (gw_world (svc_gw s'))"
  using step
proof cases
  case (Limit i ar v vk r g1)
  then show ?thesis using own store limit_own [OF Limit(4)] store_own_keeps by (auto simp: service_own_def shared_own_def set_gw_def)
next
  case (Unknown_Model i ar v vk body l e g1)
  then show ?thesis using own store by (auto simp: service_own_def shared_own_def set_gw_def reject_unknown_streaming_model_def split: if_splits)
next
  case (Open i ar v vk body l g1 rid)
  then show ?thesis using own store by (auto simp: service_own_def shared_own_def set_gw_def reject_unknown_streaming_model_def split: if_splits)
next
  case (Admit i ar v vk body)
  then show ?thesis using own store by (auto simp: service_own_def point_own_def)
next
  case (Relay i rid req vk p l p' g1)
  then show ?thesis using relay_step_own [OF Relay(1) Relay(2,3,4) own store made] by blast
next
  case (Hang_Up i rid req vk p)
  have "\<forall>(rid, req, vk, p) \<in> set ((relays s)[i := (rid, req, vk, HungUp)]). relay_own ce G req vk p"
    using own by (intro all_update) (auto simp: service_own_def)
  then show ?thesis using own store Hang_Up(1) by (simp add: service_own_def)
next
  case (Segment i req vk p token l p' g')
  then show ?thesis using segment_step_own [OF Segment(1) Segment(2,3,4) own store made] by blast
next
  case (Poll i req vk r p w)
  then show ?thesis using poll_step_own [OF Poll(1,4) own store] by blast
next
  case (Give_Up i req vk)
  have "\<forall>(req, vk, p) \<in> set ((threads (svc_conf s))[i := (req, vk, Waited None)]).
      point_own G (future_keys (svc_conf s) @ []) (request_key (chat_base ce) req vk) p"
    using own by (intro moved_own) (simp_all add: service_own_def point_own_def)
  then show ?thesis using own store Give_Up(1) by (simp add: service_own_def)
next
  case (Cancel c)
  then show ?thesis using own store cancel_own [OF Cancel(2), of G] by (simp add: service_own_def)
next
  case (Report i req vk e l e' g1)
  have "futures g1 = futures (svc_gw s) \<and> inflight g1 = inflight (svc_gw s) \<and> gw_world g1 = gw_world (svc_gw s)"
    using Report(5) by (auto simp: chat_failed_def split: exn.splits if_splits prod.splits)
  then show ?thesis using own store Report(1) by (simp add: service_own_def shared_own_def set_gw_def)
next
  case (Elsewhere w)
  then show ?thesis
    using own store_own_keeps [OF outside [OF Elsewhere(2)] store] by (auto simp: service_own_def shared_own_def set_gw_def)
next
  case Restart
  then show ?thesis using own store
    by (simp add: service_own_def shared_own_def new_process_def start_conf_def futures_own_def table_own_def)
qed (use own store in \<open>auto simp: service_own_def shared_own_def set_gw_def simp del: visited_update\<close>)

end

end
