(* ===== verification/Redis_Answers.thy ===== *)
theory Redis_Answers
  imports Answer_Origin
begin

text \<open>
  Redis is a store of answers (the interface \<open>answer_store\<close> of \<open>Answer_Origin\<close>): of the commands the program sends only
  \<open>SETEX\<close> and \<open>SET NX EX\<close> create strings, and the keys of the latter, the locks, are no cache keys.  Then the in-memory
  server, as the interpretation.
\<close>

subsection \<open>Commands that create strings\<close>

fun writes :: "redis_cmd \<Rightarrow> (string \<times> string) option" where
  "writes (SetEx k v n) = Some (k, v)"
| "writes (SetNxEx k v n) = Some (k, v)"
| "writes c = None"

definition holds_string :: "keyspace \<Rightarrow> string \<Rightarrow> string \<Rightarrow> bool" where
  "holds_string ks k x \<longleftrightarrow> (\<exists>dl. ks k = Some (RString x, dl))"

lemma holds_string_update [simp]:
  "holds_string (ks(k := None)) k' x \<longleftrightarrow> k' \<noteq> k \<and> holds_string ks k' x"
  "holds_string (ks(k \<mapsto> (v, dl))) k' x \<longleftrightarrow> (if k' = k then v = RString x else holds_string ks k' x)"
  by (auto simp: holds_string_def)

lemma put_zset_strings: "holds_string (put_zset k zs dl ks) k' x \<Longrightarrow> holds_string ks k' x"
  by (auto simp: put_zset_def split: if_splits)

lemma with_zset_strings:
  assumes "\<And>zs dl. holds_string (snd (f zs dl)) k' x \<Longrightarrow> holds_string ks k' x" and "holds_string (snd (with_zset t ks k f)) k' x"
  shows "holds_string ks k' x"
  using assms by (auto simp: with_zset_def split: option.splits redis_value.splits)

lemma live_string: "live t ks k = Some (RString x) \<Longrightarrow> holds_string ks k x"
  by (auto simp: live_def holds_string_def split: option.splits prod.splits if_splits)

lemma run_cmd_strings:
  assumes "holds_string (snd (run_cmd t c ks)) k' x"
  shows "holds_string ks k' x \<or> writes c = Some (k', x)"
proof (cases c)
  case (ZRemRangeByScore k lo hi)
  with assms show ?thesis by (auto simp: Let_def dest!: with_zset_strings [rotated] intro: put_zset_strings)
next
  case (ZAdd k m s)
  with assms show ?thesis by (auto dest!: with_zset_strings [rotated] intro: put_zset_strings)
next
  case (ZCard k)
  with assms show ?thesis by (auto dest!: with_zset_strings [rotated])
next
  case (ZRem k m)
  with assms show ?thesis by (auto dest!: with_zset_strings [rotated] intro: put_zset_strings)
next
  case (Expire k n)
  with assms show ?thesis by (auto split: option.splits if_splits redis_value.splits dest: live_string)
qed (use assms in \<open>auto split: option.splits if_splits redis_value.splits\<close>)

lemma run_cmds_strings:
  "holds_string (snd (run_cmds t cs ks)) k' x \<Longrightarrow> holds_string ks k' x \<or> (\<exists>c \<in> set cs. writes c = Some (k', x))"
proof (induction cs arbitrary: ks)
  case (Cons c cs)
  then show ?case using run_cmd_strings [of t c ks k' x] by (auto simp: Let_def split_beta)
qed simp

context redis_service
begin

lemma exec_strings:
  assumes "exec cs w = (r, w')" and "holds_string (view w') k x"
  shows "holds_string (view w) k x \<or> (\<exists>c \<in> set cs. writes c = Some (k, x))"
  using outcome [OF assms(1)] assms(2) run_cmds_strings by metis

lemma get_string: "exec [Get k] w = (Inr rs, w') \<Longrightarrow> bulk rs = Some raw \<Longrightarrow> holds_string (view w) k raw"
  using answered_eqs [of "[Get k]" w rs w']
  by (auto simp: wrong_type_def split: option.splits redis_value.splits dest: live_string)

end


subsection \<open>What the store relies on\<close>

text \<open>
  Redis does what it documents, the codec reads back what was written, a digest is never a lock key, providers answer what
  the response schema admits, and neither they nor sleeping nor what happens outside create strings.
\<close>

definition strings_kept :: "('w \<Rightarrow> keyspace) \<Rightarrow> 'w \<Rightarrow> 'w \<Rightarrow> bool" where
  "strings_kept view w w' \<longleftrightarrow> (\<forall>k x. holds_string (view w') k x \<longrightarrow> holds_string (view w) k x)"

definition answers_in_redis :: "'w chat_env \<Rightarrow> ('w \<Rightarrow> keyspace) \<Rightarrow> ('w \<Rightarrow> rat) \<Rightarrow> bool" where
  "answers_in_redis ce view server_time \<longleftrightarrow>
     redis_documented (exec_of ce) view server_time \<and>
     (\<forall>r. response_ok r \<longrightarrow> env_dec (chat_base ce) (env_enc (chat_base ce) r) = Some r) \<and>
     (\<forall>t. take 5 (env_sha (chat_base ce) t) \<noteq> ''lock:'') \<and>
     (\<forall>d w. strings_kept view w (env_sleep (chat_base ce) d w)) \<and>
     (\<forall>q req w. strings_kept view w (snd (env_call (chat_base ce) q req w))) \<and>
     (\<forall>q req w r w'. env_call (chat_base ce) q req w = (Inr r, w') \<longrightarrow> response_ok r) \<and>
     (\<forall>q req w. strings_kept view w (snd (chat_stream ce q req w))) \<and>
     (\<forall>w w'. chat_outside ce w w' \<longrightarrow> strings_kept view w w')"

definition stored_answer :: "'w chat_env \<Rightarrow> ('w \<Rightarrow> keyspace) \<Rightarrow> 'w \<Rightarrow> string \<Rightarrow> chat_response \<Rightarrow> bool" where
  "stored_answer ce view w k r \<longleftrightarrow> (\<exists>raw. holds_string (view w) k raw \<and> env_dec (chat_base ce) raw = Some r)"

definition no_lock :: "string \<Rightarrow> bool" where
  "no_lock k \<longleftrightarrow> take 5 k \<noteq> ''lock:''"

lemma lock_key_no_slot [simp]: "\<not> no_lock (lock_key k)"
  by (simp add: no_lock_def lock_key_def)

lemma strings_keeps: "strings_kept view w w' \<Longrightarrow> keeps (stored_answer ce view) no_lock w w'"
  by (auto simp: strings_kept_def keeps_def stored_answer_def)

locale redis_answers = redis_service "exec_of ce" view server_time
  for ce :: "'w chat_env" and view :: "'w \<Rightarrow> keyspace" and server_time :: "'w \<Rightarrow> rat" +
  assumes store: "answers_in_redis ce view server_time"
begin

abbreviation "stored \<equiv> stored_answer ce view"

abbreviation "unspoilt \<equiv> keeps (stored_answer ce view) no_lock"

lemma commands_keep:
  assumes "exec_of ce cs w = (r, w')" and "\<And>c k x. c \<in> set cs \<Longrightarrow> writes c = Some (k, x) \<Longrightarrow> \<not> no_lock k"
  shows "unspoilt w w'"
  using exec_strings [OF assms(1)] assms(2) by (fastforce simp: keeps_def stored_answer_def)

lemma read_keeps: "exec_of ce cs w = (r, w') \<Longrightarrow> \<forall>c \<in> set cs. writes c = None \<Longrightarrow> unspoilt w w'"
  using commands_keep [of cs w r w'] by fastforce

lemma read_keeps': "\<forall>c \<in> set cs. writes c = None \<Longrightarrow> unspoilt w (snd (exec_of ce cs w))"
  using read_keeps [of cs w "fst (exec_of ce cs w)"] by simp

lemma get_stored:
  "exec_of ce [Get k] w = (Inr rs, w') \<Longrightarrow> bulk rs = Some raw \<Longrightarrow> env_dec (chat_base ce) raw = Some r \<Longrightarrow> stored w k r"
  using get_string unfolding stored_answer_def by blast

lemma cache_get_law:
  assumes "cache_get (exec_of ce) (env_dec (chat_base ce)) k (p, w) = (r, p', w')"
  shows "(\<forall>x. r = Some x \<longrightarrow> stored w k x) \<and> unspoilt w w'"
proof -
  obtain y w1 where e: "exec_of ce [Get k] w = (y, w1)" by fastforce
  then have one: "unspoilt w w1" by (rule read_keeps) simp
  have "unspoilt w (discard_entry (exec_of ce) k w1)"
    unfolding discard_entry_def using one by (rule keeps_trans) (simp add: read_keeps')
  then show ?thesis
    using assms e one
    by (auto simp: cache_get_def parse_entry_def split: sum.splits option.splits if_splits intro: get_stored)
qed

lemma poll_law:
  assumes "poll_once (exec_of ce) (env_dec (chat_base ce)) k (p, w) = (rr, p', w')"
  shows "(\<forall>x. rr = Some (Some x) \<longrightarrow> stored w k x) \<and> unspoilt w w'"
proof -
  obtain y w1 where e: "exec_of ce [Get k] w = (y, w1)" by fastforce
  then have one: "unspoilt w w1" by (rule read_keeps) simp
  then show ?thesis
    using assms e
    by (auto simp: poll_once_def parse_entry_def split: sum.splits option.splits if_splits intro: get_stored)
qed

lemma cache_set_law:
  assumes "stored (cache_set (exec_of ce) (env_enc (chat_base ce)) s k a w) k' x" and "response_ok a"
  shows "stored w k' x \<or> k' = k \<and> x = a"
proof -
  obtain y w1 where e: "exec_of ce [SetEx k (env_enc (chat_base ce) a) (CACHE_TTL_SECONDS s)] w = (y, w1)" by fastforce
  have "env_dec (chat_base ce) (env_enc (chat_base ce) a) = Some x \<Longrightarrow> x = a"
    using store assms(2) by (auto simp: answers_in_redis_def)
  then show ?thesis using assms(1) exec_strings [OF e] by (fastforce simp: stored_answer_def cache_set_def e)
qed

lemma lock_law: "unspoilt w (snd (acquire_lock (exec_of ce) token ttl k w))"
proof -
  obtain y w1 where e: "exec_of ce [SetNxEx (lock_key k) token \<lceil>ttl\<rceil>] w = (y, w1)" by fastforce
  then have "unspoilt w w1" by (rule commands_keep) auto
  then show ?thesis by (simp add: acquire_lock_def e split: sum.split)
qed

lemma limit_law: "unspoilt w (snd (check_rate_limit_status (exec_of ce) cfg now nr token vk w))"
proof -
  let ?m = "rl_member nr token"
  obtain y w1 where c: "rl_count (exec_of ce) cfg now ?m vk w = (y, w1)" by fastforce
  obtain z w2 where e: "exec_of ce (rl_pipeline cfg (rl_key vk) ?m now) w = (z, w2)" by fastforce
  then have "unspoilt w w2" by (rule read_keeps) (simp add: rl_pipeline_def)
  moreover have "w1 = w2" using c e by (auto simp: rl_count_def split: sum.splits list.splits redis_reply.splits)
  moreover have "unspoilt w1 (rl_rollback (exec_of ce) vk ?m w1)" by (simp add: rl_rollback_def read_keeps')
  ultimately show ?thesis
    using c keeps_trans by (fastforce simp: check_rate_limit_status_def Let_def split: sum.split rl_reply.split)
qed

end

sublocale redis_answers \<subseteq> answers: answer_store ce "stored_answer ce view" no_lock
proof unfold_locales
  show "no_lock (request_key (chat_base ce) req vk)" for req vk
    using store by (simp add: answers_in_redis_def no_lock_def request_key_def build_cache_key_def)
next
  show "unspoilt w (release_lock (exec_of ce) k token w)" for w k token
    by (simp add: release_lock_def read_keeps')
next
  show "env_call (chat_base ce) q req w = (Inr a, w') \<Longrightarrow> response_ok a" for q req w a w'
    using store unfolding answers_in_redis_def by blast
qed (use store in \<open>auto simp: answers_in_redis_def cache_get_law poll_law cache_set_law lock_law limit_law strings_keeps\<close>)

subsection \<open>The in-memory server\<close>

text \<open>A process on the in-memory server: its provider gives one answer, its streams the given lines; outside, time passes.\<close>

definition mem_chat :: "exn + chat_response \<Rightarrow> string list \<Rightarrow> mem_redis chat_env" where
  "mem_chat answer ls =
     \<lparr>chat_base = (demo_env answer)\<lparr>env_call := (\<lambda>p req w. (if \<exists>r. answer = Inr r \<and> response_ok r then answer else Inl IndexErr, w))\<rparr>,
      chat_stream = (\<lambda>p req w. ((ls, None), w)), chat_time = (\<lambda>w. \<lfloor>mem_time w\<rfloor>), chat_request_id = None,
      chat_outside = (\<lambda>w w'. mem_keys w' = mem_keys w)\<rparr>"

lemma mem_answers_in_redis: "answers_in_redis (mem_chat answer ls) mem_keys mem_time"
  unfolding answers_in_redis_def
  by (auto simp: mem_chat_def demo_env_def mem_documented strings_kept_def mem_sleep_def json_dec_enc split: if_splits)

interpretation mem_store: redis_answers "mem_chat answer ls" mem_keys mem_time
  for answer :: "exn + chat_response" and ls :: "string list"
  by unfold_locales (use mem_answers_in_redis in \<open>auto simp: answers_in_redis_def\<close>)

end
