(* ===== verification/Logs_Http.thy ===== *)
theory Logs_Http
  imports Request_Body
begin

text \<open>
  \<open>routers/logs.py\<close>: the query parameters as the schema they are checked against, and the page of the log they ask for.
  The parameters arrive as text; reading an integer from it is the library's (\<open>co_int\<close>).
\<close>

subsection \<open>The query\<close>

record log_query =
  lq_limit :: int
  lq_offset :: int
  lq_status :: "string option"
  lq_model :: "string option"
  lq_provider :: "string option"

definition default_log_query :: log_query where
  "default_log_query = \<lparr>lq_limit = 100, lq_offset = 0, lq_status = None, lq_model = None, lq_provider = None\<rparr>"

text \<open>A parameter is reported below the part of the request it is in.\<close>

definition in_part :: "string \<Rightarrow> 'a routed \<Rightarrow> 'a routed" where
  "in_part part r =
     (case r of
        Invalid es \<Rightarrow> Invalid (map (\<lambda>e. e\<lparr>ve_loc := map_option (\<lambda>loc. LocName part # tl loc) (ve_loc e)\<rparr>) es)
      | Answer x \<Rightarrow> Answer x
      | Raised e \<Rightarrow> Raised e)"

definition status_field :: "coercion \<Rightarrow> json \<Rightarrow> string routed" where
  "status_field co v =
     (case as_str v of
        None \<Rightarrow> reject co [LocName ''status''] NotLiteral
      | Some s \<Rightarrow> if s = ''ok'' \<or> s = ''error'' then Answer s else reject co [LocName ''status''] NotLiteral)"

definition log_fields :: "coercion \<Rightarrow> jobj \<Rightarrow> (log_query \<Rightarrow> log_query) routed list" where
  "log_fields co ms =
     [map_routed (\<lambda>x. lq_limit_update (\<lambda>_. x))
        (with_default ms ''limit'' 100 (int_field co [LocName ''limit''] (\<lambda>n. 1 \<le> n \<and> n \<le> 500))),
      map_routed (\<lambda>x. lq_offset_update (\<lambda>_. x))
        (with_default ms ''offset'' 0 (int_field co [LocName ''offset''] (\<lambda>n. 0 \<le> n))),
      map_routed (\<lambda>x. lq_status_update (\<lambda>_. x))
        (with_default ms ''status'' None (\<lambda>v. map_routed Some (status_field co v))),
      map_routed (\<lambda>x. lq_model_update (\<lambda>_. x))
        (with_default ms ''model'' None (\<lambda>v. map_routed Some (str_field co [LocName ''model''] (\<lambda>s. True) v))),
      map_routed (\<lambda>x. lq_provider_update (\<lambda>_. x))
        (with_default ms ''provider'' None (\<lambda>v. map_routed Some (str_field co [LocName ''provider''] (\<lambda>s. True) v)))]"

definition log_query_of :: "coercion \<Rightarrow> jobj \<Rightarrow> log_query routed" where
  "log_query_of co ms =
     in_part ''query'' (map_routed (\<lambda>sets. fold id sets default_log_query) (collect (log_fields co ms)))"

subsection \<open>The page\<close>

definition log_entry :: "(datetime \<Rightarrow> string) \<Rightarrow> usage_row \<Rightarrow> json" where
  "log_entry isofmt r =
     JObj [(''id'', JInt (log_id r)), (''timestamp'', JStr (isofmt (log_timestamp r))),
           (''provider'', JStr (log_provider r)), (''model'', JStr (log_model r)),
           (''input_tokens'', JInt (log_input r)), (''output_tokens'', JInt (log_output r)),
           (''total_tokens'', JInt (log_input r + log_output r)), (''latency_ms'', JInt (log_latency r)),
           (''estimated_cost'', JStr (dec_str (log_cost r))), (''status'', JStr (log_status r)),
           (''error_type'', jstr_opt (log_error r))]"

definition logs_page :: "(datetime \<Rightarrow> string) \<Rightarrow> nat \<Rightarrow> usage_row list \<Rightarrow> json" where
  "logs_page isofmt n rows = JObj [(''total'', JInt (int n)), (''logs'', JArr (map (log_entry isofmt) rows))]"

definition show_logs :: "(datetime \<Rightarrow> string) \<Rightarrow> log_query \<Rightarrow> db \<Rightarrow> json" where
  "show_logs isofmt q d =
     logs_page isofmt (count_usage_logs (lq_status q) (lq_model q) (lq_provider q) d)
       (list_usage_logs (nat (lq_limit q)) (lq_status q) (lq_model q) (lq_provider q) (nat (lq_offset q)) d)"

text \<open>The dependency runs before the parameters are checked.\<close>

definition list_logs ::
    "(string \<Rightarrow> string) \<Rightarrow> rat \<Rightarrow> coercion \<Rightarrow> (datetime \<Rightarrow> string) \<Rightarrow> db \<Rightarrow> string option \<Rightarrow> jobj \<Rightarrow> json routed" where
  "list_logs sha now co isofmt d auth_header params =
     (case authenticate_request sha now d auth_header of
        Inl e \<Rightarrow> Raised e
      | Inr vk \<Rightarrow> map_routed (\<lambda>q. show_logs isofmt q d) (log_query_of co params))"

subsection \<open>Lemmas\<close>

definition log_query_ok :: "log_query \<Rightarrow> bool" where
  "log_query_ok q \<longleftrightarrow>
     1 \<le> lq_limit q \<and> lq_limit q \<le> 500 \<and> 0 \<le> lq_offset q \<and> pred_option (\<lambda>s. s = ''ok'' \<or> s = ''error'') (lq_status q)"

text \<open>The parameters that ask for a query.\<close>

definition log_params :: "log_query \<Rightarrow> jobj" where
  "log_params q =
     [(''limit'', JStr (str_int (lq_limit q))), (''offset'', JStr (str_int (lq_offset q)))]
     @ opt_field ''status'' JStr (lq_status q) @ opt_field ''model'' JStr (lq_model q) @ opt_field ''provider'' JStr (lq_provider q)"

lemma in_part_Answer [simp]: "in_part part r = Answer x \<longleftrightarrow> r = Answer x"
  by (cases r) (auto simp: in_part_def)

text \<open>The query that parameters ask for: what each of them reads as, or the default of those that are absent.\<close>

definition asks_for :: "coercion \<Rightarrow> jobj \<Rightarrow> log_query \<Rightarrow> bool" where
  "asks_for co ms q \<longleftrightarrow>
     (case map_of ms ''limit'' of None \<Rightarrow> lq_limit q = 100 | Some v \<Rightarrow> co_int co v = Some (lq_limit q)) \<and>
     (case map_of ms ''offset'' of None \<Rightarrow> lq_offset q = 0 | Some v \<Rightarrow> co_int co v = Some (lq_offset q)) \<and>
     lq_status q = map_option (\<lambda>v. the (as_str v)) (map_of ms ''status'') \<and>
     lq_model q = map_option (\<lambda>v. the (as_str v)) (map_of ms ''model'') \<and>
     lq_provider q = map_option (\<lambda>v. the (as_str v)) (map_of ms ''provider'')"

lemma log_query_of_ok:
  assumes "log_query_of co ms = Answer q"
  shows "log_query_ok q \<and> asks_for co ms q"
proof -
  obtain sets where "log_fields co ms = map Answer sets" and q: "q = fold id sets default_log_query"
    using assms by (auto simp: log_query_of_def map_routed_Answer collect_Answer)
  then have "with_default ms ''limit'' 100 (int_field co [LocName ''limit''] (\<lambda>n. 1 \<le> n \<and> n \<le> 500)) = Answer (lq_limit q) \<and>
      with_default ms ''offset'' 0 (int_field co [LocName ''offset''] (\<lambda>n. 0 \<le> n)) = Answer (lq_offset q) \<and>
      with_default ms ''status'' None (\<lambda>v. map_routed Some (status_field co v)) = Answer (lq_status q) \<and>
      with_default ms ''model'' None (\<lambda>v. map_routed Some (str_field co [LocName ''model''] (\<lambda>s. True) v)) = Answer (lq_model q) \<and>
      with_default ms ''provider'' None (\<lambda>v. map_routed Some (str_field co [LocName ''provider''] (\<lambda>s. True) v)) =
        Answer (lq_provider q)"
    unfolding log_fields_def by (auto simp: Cons_eq_map_conv map_routed_Answer)
  then show ?thesis
    by (auto simp: log_query_ok_def asks_for_def with_default_def map_routed_Answer status_field_def int_field_def str_field_def
        split: option.splits if_splits)
qed

lemma log_query_of_returns: "log_query_of co ms \<noteq> Raised e"
proof
  assume "log_query_of co ms = Raised e"
  then have "collect (log_fields co ms) = Raised e"
    by (cases "collect (log_fields co ms)") (auto simp: log_query_of_def in_part_def)
  then have "Raised e \<in> set (log_fields co ms)" by (rule collect_Raised_in)
  moreover have "status_field co v \<noteq> Raised e" for v by (simp add: status_field_def split: option.split)
  then have "\<forall>x \<in> set (log_fields co ms). x \<noteq> Raised e" by (simp add: log_fields_def with_default_Raised)
  ultimately show False by blast
qed

text \<open>A query out of bounds is refused with a report.\<close>

lemma log_params_refused:
  assumes "\<not> log_query_ok q" and "\<And>i. co_int co (JStr (str_int i)) = Some i"
  shows "\<exists>es. log_query_of co (log_params q) = Invalid es"
proof (cases "log_query_of co (log_params q)")
  case (Answer q')
  then have q': "log_query_ok q'" "asks_for co (log_params q) q'" using log_query_of_ok by blast+
  then have "lq_limit q' = lq_limit q" "lq_offset q' = lq_offset q" "lq_status q' = lq_status q"
    using assms(2)
    by (auto simp: asks_for_def log_params_def opt_field_def split: option.splits)
  with q'(1) assms(1) show ?thesis by (simp add: log_query_ok_def)
qed (auto simp: log_query_of_returns)

lemma log_params_read:
  assumes "log_query_ok q" and "\<And>i. co_int co (JStr (str_int i)) = Some i"
  shows "log_query_of co (log_params q) = Answer q"
  using assms
  by (cases q; cases "lq_status q"; cases "lq_model q"; cases "lq_provider q")
    (auto simp: log_query_of_def log_fields_def log_params_def with_default_def int_field_def status_field_def str_field_def
      opt_field_def log_query_ok_def default_log_query_def)

subsection \<open>Properties\<close>

text \<open>
  C35. The log pages cover the history: for an authenticated caller the pages of any admitted query, at offsets
  \<open>0, n, 2n, ...\<close>, put together show every matching row exactly once, newest first, and each page reports the
  number of matching rows as total; without a valid key nothing is shown.  Parameters that ask for a limit, an offset or
  a status out of bounds are refused with a report, and whatever is shown is the page of a query within bounds that is what
  the parameters read as.
\<close>

theorem logs_route_pages:
  assumes "db_ok d" and "log_query_ok q" and "\<And>i. co_int co (JStr (str_int i)) = Some i"
    and "count_usage_logs (lq_status q) (lq_model q) (lq_provider q) d \<le> k * nat (lq_limit q)"
  shows "\<exists>rows. set rows = {r \<in> set (usage_logs d). log_matches (lq_status q) (lq_model q) (lq_provider q) r} \<and>
           distinct rows \<and> sorted_wrt (\<lambda>a b. log_id b < log_id a) rows \<and>
           concat (map (\<lambda>i. take (nat (lq_limit q)) (drop (i * nat (lq_limit q)) rows)) [0..<k]) = rows \<and>
           (\<forall>i auth. list_logs sha now co isofmt d auth (log_params (q\<lparr>lq_offset := int i * lq_limit q\<rparr>)) =
              (case authenticate_request sha now d auth of
                 Inl e \<Rightarrow> Raised e
               | Inr vk \<Rightarrow> Answer (logs_page isofmt (length rows) (take (nat (lq_limit q)) (drop (i * nat (lq_limit q)) rows))))) \<and>
           (\<forall>auth q'. \<not> log_query_ok q' \<longrightarrow>
              (case authenticate_request sha now d auth of
                 Inl e \<Rightarrow> list_logs sha now co isofmt d auth (log_params q') = Raised e
               | Inr vk \<Rightarrow> \<exists>es. list_logs sha now co isofmt d auth (log_params q') = Invalid es)) \<and>
           (\<forall>auth ms j. list_logs sha now co isofmt d auth ms = Answer j \<longrightarrow>
              (\<exists>q'. log_query_ok q' \<and> asks_for co ms q' \<and> j = show_logs isofmt q' d))"
proof -
  let ?st = "lq_status q" and ?m = "lq_model q" and ?p = "lq_provider q" and ?n = "lq_limit q"
  let ?L = "sort_key (\<lambda>r. - log_id r) (matching_logs ?st ?m ?p d)"
  have dist: "distinct (map log_id (matching_logs ?st ?m ?p d))"
    using assms(1) by (simp add: db_ok_def matching_logs_def distinct_map_filter)
  then have distL: "distinct ?L" by (simp add: distinct_map)
  have n: "1 \<le> ?n" using assms(2) by (simp add: log_query_ok_def)
  have len: "length ?L = count_usage_logs ?st ?m ?p d" by (simp add: count_usage_logs_def)
  have pages: "concat (map (\<lambda>i. take (nat ?n) (drop (i * nat ?n) ?L)) [0..<k]) = ?L"
    using assms(4) n len by (simp add: concat_pages)
  have read: "log_query_of co (log_params (q\<lparr>lq_offset := int i * ?n\<rparr>)) = Answer (q\<lparr>lq_offset := int i * ?n\<rparr>)" for i
    using assms(2) n by (intro log_params_read assms(3)) (simp add: log_query_ok_def)
  have off: "nat (int i * ?n) = i * nat ?n" for i using n by (simp add: nat_mult_distrib)
  show ?thesis
  proof (intro exI [of _ ?L] conjI allI impI)
    show "list_logs sha now co isofmt d auth (log_params (q\<lparr>lq_offset := int i * ?n\<rparr>)) =
      (case authenticate_request sha now d auth of
         Inl e \<Rightarrow> Raised e
       | Inr vk \<Rightarrow> Answer (logs_page isofmt (length ?L) (take (nat ?n) (drop (i * nat ?n) ?L))))" for i auth
      by (simp add: list_logs_def show_logs_def read off list_usage_logs_def count_usage_logs_def split: sum.splits)
    show "case authenticate_request sha now d auth of
         Inl e \<Rightarrow> list_logs sha now co isofmt d auth (log_params q') = Raised e
       | Inr vk \<Rightarrow> \<exists>es. list_logs sha now co isofmt d auth (log_params q') = Invalid es" if "\<not> log_query_ok q'" for auth q'
      using log_params_refused [OF that assms(3)] by (auto simp: list_logs_def split: sum.splits)
    show "\<exists>q'. log_query_ok q' \<and> asks_for co ms q' \<and> j = show_logs isofmt q' d" if "list_logs sha now co isofmt d auth ms = Answer j" for auth ms j
      using that log_query_of_ok [of co ms] by (auto simp: list_logs_def map_routed_Answer split: sum.splits)
  qed (use distL pages sorted_listed [OF dist] in \<open>auto simp: matching_logs_def\<close>)
qed

definition three_logs :: db where
  "three_logs = empty_db\<lparr>usage_logs := map (\<lambda>i. sample_log i ''ok'') [3, 1, 2]\<rparr>"

definition text_coercion :: coercion where
  \<comment> \<open>also reads integers from text\<close>
  "text_coercion = plain_coercion\<lparr>co_int := (\<lambda>v. case v of JInt i \<Rightarrow> Some i | JStr s \<Rightarrow> py_int s | _ \<Rightarrow> None)\<rparr>"

theorem logs_route_pages_witness:
  "\<exists>rows. set rows = set (usage_logs three_logs) \<and> distinct rows \<and>
     concat (map (\<lambda>i. take (nat 2) (drop (i * nat 2) rows)) [0..<2]) = rows \<and>
     (\<forall>auth. list_logs id 0 text_coercion (\<lambda>t. []) three_logs auth
          [(''limit'', JStr (str_int 2)), (''offset'', JStr (str_int 2)), (''status'', JStr ''ok'')] =
        (case authenticate_request id 0 three_logs auth of
           Inl e \<Rightarrow> Raised e
         | Inr vk \<Rightarrow> Answer (logs_page (\<lambda>t. []) (length rows) (take (nat 2) (drop (1 * nat 2) rows)))))"
proof -
  let ?q = "default_log_query\<lparr>lq_limit := 2, lq_status := Some ''ok''\<rparr>"
  have prem: "db_ok three_logs" "log_query_ok ?q" "\<And>i. co_int text_coercion (JStr (str_int i)) = Some i"
    "count_usage_logs (lq_status ?q) (lq_model ?q) (lq_provider ?q) three_logs \<le> 2 * nat (lq_limit ?q)"
    by (simp_all add: three_logs_def db_ok_def empty_db_def sample_log_def count_usage_logs_def matching_logs_def
        log_matches_def log_query_ok_def default_log_query_def text_coercion_def py_int_str_int)
  have all: "{r \<in> set (usage_logs three_logs). log_matches (Some ''ok'') None None r} = set (usage_logs three_logs)"
    by (auto simp: three_logs_def log_matches_def sample_log_def)
  have sel: "lq_limit ?q = 2" "lq_status ?q = Some ''ok''" "lq_model ?q = None" "lq_provider ?q = None"
    by (simp_all add: default_log_query_def)
  from logs_route_pages [OF prem, of id 0 "\<lambda>t. []", unfolded sel all]
  obtain rows where rows: "set rows = set (usage_logs three_logs)" "distinct rows"
    "concat (map (\<lambda>i. take (nat 2) (drop (i * nat 2) rows)) [0..<2]) = rows"
    "\<And>i auth. list_logs id 0 text_coercion (\<lambda>t. []) three_logs auth (log_params (?q\<lparr>lq_offset := int i * 2\<rparr>)) =
        (case authenticate_request id 0 three_logs auth of
           Inl e \<Rightarrow> Raised e
         | Inr vk \<Rightarrow> Answer (logs_page (\<lambda>t. []) (length rows) (take (nat 2) (drop (i * nat 2) rows))))"
    by blast
  from rows(1-3) rows(4) [of _ 1] show ?thesis
    by (intro exI [of _ rows]) (simp add: log_params_def default_log_query_def opt_field_def)
qed

end
