(* ===== verification/Admin_Http.thy ===== *)
theory Admin_Http
  imports Chat_Http Logs_Http
begin

text \<open>
  The other routes through the framework: \<open>routers/keys.py\<close> with the schema of its body, \<open>routers/usage.py\<close>,
  \<open>routers/models.py\<close> and \<open>routers/logs.py\<close> (with \<open>Logs_Http\<close>).  All of them authenticate first.  The wire form of a timestamp
  (\<open>stamp\<close>) is the library's.
\<close>

subsection \<open>POST /api/keys: the body\<close>

definition name_field :: "coercion \<Rightarrow> json \<Rightarrow> string routed" where
  "name_field co v =
     (let loc = [LocName ''client_name'']
      in case as_str v of
           None \<Rightarrow> reject co loc WrongType
         | Some s \<Rightarrow>
             (if length s < 1 then reject co loc TooShort
              else if 120 < length s then reject co loc TooLong
              else
                (case client_name_not_blank s of
                   None \<Rightarrow> reject co loc (ValidatorError (''client_name n'' @ [CHR 0xE3] @ ''o pode ser vazio''))
                 | Some stripped \<Rightarrow> Answer stripped)))"

definition default_key_create :: key_create where
  \<comment> \<open>the defaults; \<open>client_name\<close> has none and is always set\<close>
  "default_key_create =
     \<lparr>kc_client_name = [], kc_expires_in_days = Some DEFAULT_KEY_EXPIRY_DAYS, kc_spend_limit_usd = None\<rparr>"

definition key_fields :: "coercion \<Rightarrow> jobj \<Rightarrow> (key_create \<Rightarrow> key_create) routed list" where
  "key_fields co ms =
     [map_routed (\<lambda>x. kc_client_name_update (\<lambda>_. x)) (required co [] ms ''client_name'' (name_field co)),
      map_routed (\<lambda>x. kc_expires_in_days_update (\<lambda>_. x))
        (with_default ms ''expires_in_days'' (Some DEFAULT_KEY_EXPIRY_DAYS)
          (or_none (int_field co [LocName ''expires_in_days''] (\<lambda>n. 1 \<le> n \<and> n \<le> 3650)))),
      map_routed (\<lambda>x. kc_spend_limit_usd_update (\<lambda>_. x))
        (with_default ms ''spend_limit_usd'' None
          (or_none (float_field co [LocName ''spend_limit_usd''] (\<lambda>q. 0 \<le> q))))]"

definition key_create_of_json :: "coercion \<Rightarrow> json \<Rightarrow> key_create routed" where
  "key_create_of_json co v =
     (case as_obj v of
        None \<Rightarrow> reject co [] WrongType
      | Some ms \<Rightarrow> map_routed (\<lambda>sets. fold id sets default_key_create) (collect (key_fields co ms)))"

definition key_body :: "coercion \<Rightarrow> json option \<Rightarrow> key_create routed" where
  "key_body co got =
     (case got of
        None \<Rightarrow> reject co [] Required
      | Some v \<Rightarrow> if v = JNull then reject co [] Required else key_create_of_json co v)"

subsection \<open>Answers\<close>

definition key_created_json :: "(datetime \<Rightarrow> string) \<Rightarrow> key_created \<Rightarrow> json" where
  "key_created_json stamp c =
     JObj [(''id'', JInt (kd_id c)), (''client_name'', JStr (kd_client_name c)), (''api_key'', JStr (kd_api_key c)),
           (''spend_limit_usd'', jstr_opt (kd_spend_limit_usd c)), (''created_at'', JStr (stamp (kd_created_at c))),
           (''expires_at'', jstr_opt (map_option stamp (kd_expires_at c)))]"

definition key_summary_json :: "(datetime \<Rightarrow> string) \<Rightarrow> key_summary \<Rightarrow> json" where
  "key_summary_json stamp k =
     JObj [(''id'', JInt (ks_id k)), (''client_name'', JStr (ks_client_name k)), (''is_active'', JBool (ks_is_active k)),
           (''spend_limit_usd'', jstr_opt (ks_spend_limit_usd k)), (''created_at'', JStr (stamp (ks_created_at k))),
           (''expires_at'', jstr_opt (map_option stamp (ks_expires_at k)))]"

definition json_answer :: "'h header_ops \<Rightarrow> nat \<Rightarrow> (string \<times> string) list \<Rightarrow> json \<Rightarrow> 'h http_response routed" where
  "json_answer ops st hs v = Answer \<lparr>http_status = st, http_headers = header_init ops hs, http_body = JsonBody v\<rparr>"

subsection \<open>Routes\<close>

text \<open>Who calls and when; \<open>Depends(authenticate_request)\<close> runs before the parameters and the body are validated.\<close>

record caller =
  ca_sha :: "string \<Rightarrow> string"
  ca_now :: rat
  ca_auth :: "string option"

definition authenticated ::
    "caller \<Rightarrow> (int \<Rightarrow> db \<Rightarrow> 'h http_response routed \<times> db) \<Rightarrow> db \<Rightarrow> 'h http_response routed \<times> db" where
  "authenticated ca route d =
     (case authenticate_request (ca_sha ca) (ca_now ca) d (ca_auth ca) of
        Inl e \<Rightarrow> (Raised e, d)
      | Inr vk \<Rightarrow> route vk d)"

definition post_keys ::
    "'h header_ops \<Rightarrow> coercion \<Rightarrow> sql_ops \<Rightarrow> (datetime \<Rightarrow> string) \<Rightarrow> (datetime \<Rightarrow> string) \<Rightarrow> caller \<Rightarrow> string \<Rightarrow> server \<Rightarrow> server \<Rightarrow>
     json option routed \<Rightarrow> db \<Rightarrow> 'h http_response routed \<times> db" where
  "post_keys ops co sql isofmt stamp ca token srv1 srv2 got d =
     (case got of
        Raised e \<Rightarrow> (Raised e, d)
      | Invalid errs \<Rightarrow> (Invalid errs, d)
      | Answer v \<Rightarrow>
          authenticated ca (\<lambda>vk d.
            case key_body co v of
              Raised e \<Rightarrow> (Raised e, d)
            | Invalid errs \<Rightarrow> (Invalid errs, d)
            | Answer b \<Rightarrow>
                (case create_key (ca_sha ca) sql isofmt (ca_now ca) token srv1 srv2 b d of
                   (Inl e, d') \<Rightarrow> (Raised e, d')
                 | (Inr c, d') \<Rightarrow> (json_answer ops 201 [] (key_created_json stamp c), d'))) d)"

definition get_keys_route :: "'h header_ops \<Rightarrow> (datetime \<Rightarrow> string) \<Rightarrow> caller \<Rightarrow> db \<Rightarrow> 'h http_response routed \<times> db" where
  "get_keys_route ops stamp ca =
     authenticated ca (\<lambda>vk d. (json_answer ops 200 [] (JObj [(''keys'', JArr (map (key_summary_json stamp) (get_keys d)))]), d))"

text \<open>\<open>key\<close> is what reading the path parameter as an integer gave.\<close>

definition delete_key_route ::
    "'h header_ops \<Rightarrow> caller \<Rightarrow> server \<Rightarrow> int routed \<Rightarrow> db \<Rightarrow> 'h http_response routed \<times> db" where
  "delete_key_route ops ca srv key =
     authenticated ca (\<lambda>vk d.
       case key of
         Raised e \<Rightarrow> (Raised e, d)
       | Invalid errs \<Rightarrow> (Invalid errs, d)
       | Answer i \<Rightarrow>
           (case revoke_key srv i d of
              (Inl e, d') \<Rightarrow> (Raised e, d')
            | (Inr st, d') \<Rightarrow>
                (Answer \<lparr>http_status = st, http_headers = header_init ops [], http_body = TextBody []\<rparr>, d')))"

definition spend_route :: "'h header_ops \<Rightarrow> sql_ops \<Rightarrow> settings \<Rightarrow> caller \<Rightarrow> db \<Rightarrow> 'h http_response routed \<times> db" where
  "spend_route ops sql s ca = authenticated ca (\<lambda>vk d. (json_answer ops 200 [] (JObj (get_spend sql s d vk)), d))"

text \<open>The model routes are rate-limited; the quota headers are merged into a JSON answer.\<close>

definition models_route ::
    "'h header_ops \<Rightarrow> 'w chat_env \<Rightarrow> db \<Rightarrow> arrival \<Rightarrow> string option \<Rightarrow> 'w gw \<Rightarrow> 'h http_response routed \<times> 'w gw" where
  "models_route ops ce d ar model_id g =
     (case rate_limited ce d ar g of
        (Inl e, g1) \<Rightarrow> (Raised e, g1)
      | (Inr (vk, injected), g1) \<Rightarrow>
          (case model_id of
             None \<Rightarrow> (json_answer ops 200 injected (list_models (env_registry (chat_base ce))), g1)
           | Some m \<Rightarrow>
               (case get_model (env_registry (chat_base ce)) m of
                  Inl e \<Rightarrow> (Raised e, g1)
                | Inr v \<Rightarrow> (json_answer ops 200 injected v, g1))))"

definition logs_route ::
    "'h header_ops \<Rightarrow> coercion \<Rightarrow> (datetime \<Rightarrow> string) \<Rightarrow> caller \<Rightarrow> jobj \<Rightarrow> db \<Rightarrow> 'h http_response routed \<times> db" where
  "logs_route ops co isofmt ca params d =
     (case list_logs (ca_sha ca) (ca_now ca) co isofmt d (ca_auth ca) params of
        Answer v \<Rightarrow> (json_answer ops 200 [] v, d)
      | Invalid es \<Rightarrow> (Invalid es, d)
      | Raised e \<Rightarrow> (Raised e, d))"

subsection \<open>Lemmas\<close>

text \<open>A route that raises an \<open>HTTPException\<close>, through the middlewares.\<close>

lemma app_call_refusal:
  assumes "headers_ok ops" and "uuid \<noteq> []" and "route (Map.empty(''request_id'' \<mapsto> request_id_of header uuid)) w = (Raised (HttpExn h), w')"
    and "map_of (error_fields (detail h)) ''type'' = Some (JStr t)"
  shows "\<exists>r. app_call ops route header uuid Map.empty w = (Inr r, Map.empty, w') \<and>
           refusal ops (request_id_of header uuid) (status_code h) t r"
proof -
  let ?rid = "request_id_of header uuid"
  let ?r = "marked ops ?rid (openai_style_exception_handler ops (Map.empty(''request_id'' \<mapsto> ?rid)) h)"
  have "app_call ops route header uuid Map.empty w = (Inr ?r, Map.empty, w')"
    using assms(3) by (simp add: app_call_Inr handle_exceptions_def)
  then show ?thesis
    using assms(4) marked_request_id [OF assms(1), of ?rid]
    by (simp add: refusal_def error_response_status error_response_body [OF request_id_nonempty [OF assms(2)]]
        error_fields_no_id map_add_def APP_REQUEST_ID_HEADER_def)
qed

lemma app_call_answer:
  assumes "headers_ok ops" and "route (Map.empty(''request_id'' \<mapsto> request_id_of header uuid)) w = (Answer r0, w')"
  shows "\<exists>r. app_call ops route header uuid Map.empty w = (Inr r, Map.empty, w') \<and> http_status r = http_status r0 \<and>
           http_body r = http_body r0 \<and> header_get ops (http_headers r) ''X-Request-ID'' = Some (request_id_of header uuid)"
  using assms marked_request_id [OF assms(1), of "request_id_of header uuid" r0]
  by (auto simp: app_call_Inr handle_exceptions_def APP_REQUEST_ID_HEADER_def)

lemma app_call_unauthorized:
  assumes "headers_ok ops" and "uuid \<noteq> []" and "route w = (Raised (unauthorized m), w)"
  shows "\<exists>r. app_call ops (\<lambda>c. route) header uuid Map.empty w = (Inr r, Map.empty, w) \<and>
           refusal ops (request_id_of header uuid) 401 ''invalid_request_error'' r"
  using app_call_refusal [OF assms(1,2), of "\<lambda>c. route" header w _ w "''invalid_request_error''"] assms(3)
  by (auto simp: unauthorized_def error_fields_def)

text \<open>Without a valid key every route raises the error of the authentication, in the state it found.\<close>

lemma authenticated_Inl:
  "authenticate_request (ca_sha ca) (ca_now ca) d (ca_auth ca) = Inl e \<Longrightarrow> authenticated ca route d = (Raised e, d)"
  by (simp add: authenticated_def)

lemma unauthenticated_routes:
  assumes "authenticate_request (ca_sha ca) (ca_now ca) d (ca_auth ca) = Inl e"
  shows "post_keys ops co sql isofmt stamp ca token srv1 srv2 (Answer v) d = (Raised e, d)"
    and "get_keys_route ops stamp ca d = (Raised e, d)" and "delete_key_route ops ca srv key d = (Raised e, d)"
    and "spend_route ops sql s ca d = (Raised e, d)"
    and "logs_route ops co isofmt ca params d = (Raised e, d)"
  using assms
  by (simp_all add: post_keys_def get_keys_route_def delete_key_route_def spend_route_def logs_route_def list_logs_def
      authenticated_Inl)

text \<open>The schema of a new key.\<close>

definition key_create_ok :: "key_create \<Rightarrow> bool" where
  "key_create_ok b \<longleftrightarrow>
     kc_client_name b \<noteq> [] \<and> py_strip (kc_client_name b) = kc_client_name b \<and> length (kc_client_name b) \<le> 120 \<and>
     pred_option (\<lambda>n. 1 \<le> n \<and> n \<le> 3650) (kc_expires_in_days b) \<and> pred_option (\<lambda>x. 0 \<le> fval x) (kc_spend_limit_usd b)"

lemma py_strip_length: "length (py_strip s) \<le> length s"
  by (simp add: py_strip_def rstrip_while_def) (metis length_dropWhile_le length_rev order.trans)

lemma name_field_sound:
  assumes "name_field co v = Answer n"
  shows "n \<noteq> [] \<and> py_strip n = n \<and> length n \<le> 120"
proof -
  obtain s where "n = py_strip s" "n \<noteq> []" "length s \<le> 120"
    using assms by (auto simp: name_field_def client_name_not_blank_def Let_def split: option.splits if_splits)
  then show ?thesis using py_strip_length [of s] by (simp add: py_strip_idem)
qed

lemma key_create_of_json_ok:
  assumes "key_create_of_json co v = Answer b"
  shows "key_create_ok b"
proof -
  obtain ms sets where "key_fields co ms = map Answer sets" and b: "b = fold id sets default_key_create"
    using assms by (auto simp: key_create_of_json_def map_routed_Answer collect_Answer split: option.splits)
  then have "(\<exists>v. name_field co v = Answer (kc_client_name b)) \<and>
      with_default ms ''expires_in_days'' (Some DEFAULT_KEY_EXPIRY_DAYS)
        (or_none (int_field co [LocName ''expires_in_days''] (\<lambda>n. 1 \<le> n \<and> n \<le> 3650))) = Answer (kc_expires_in_days b) \<and>
      with_default ms ''spend_limit_usd'' None
        (or_none (float_field co [LocName ''spend_limit_usd''] (\<lambda>q. 0 \<le> q))) = Answer (kc_spend_limit_usd b)"
    unfolding key_fields_def by (auto simp: Cons_eq_map_conv map_routed_Answer dest!: required_sound)
  then show ?thesis
    unfolding key_create_ok_def
    by (auto dest!: name_field_sound simp: DEFAULT_KEY_EXPIRY_DAYS_def
        elim!: optional_sound with_default_sound intro: or_none_sound dest: int_field_sound float_field_sound)
qed

subsection \<open>Properties\<close>

text \<open>
  C7. A key created over HTTP works: the answer to an authenticated POST with an acceptable body is a 201 that carries the
  raw key, with which requests authenticate as the new key exactly until the requested expiry, between one day and ten
  years off unless the body asks for none.
\<close>

theorem key_route_round_trip:
  assumes "headers_ok ops" and "sql_ok sql" and "list_all (\<lambda>ch. \<not> py_space ch) token"
    and "authenticate_request (ca_sha ca) (ca_now ca) d (ca_auth ca) = Inr vk" and "key_body co v = Answer b"
    and "create_key (ca_sha ca) sql isofmt (ca_now ca) token srv1 srv2 b d = (Inr c, d')"
  shows "(\<exists>r. app_call ops (\<lambda>ctx. post_keys ops co sql isofmt stamp ca token srv1 srv2 (Answer v)) header uuid Map.empty d =
              (Inr r, Map.empty, d') \<and> http_status r = 201 \<and> http_body r = JsonBody (key_created_json stamp c)) \<and>
         (\<forall>t. authenticate_request (ca_sha ca) t d' (Some (''Bearer '' @ kd_api_key c)) = Inr (kd_id c) \<longleftrightarrow>
            (case kc_expires_in_days b of None \<Rightarrow> True | Some n \<Rightarrow> t < ca_now ca + of_int n * 86400)) \<and>
         (\<forall>n. kc_expires_in_days b = Some n \<longrightarrow> 1 \<le> n \<and> n \<le> 3650)"
proof -
  have "post_keys ops co sql isofmt stamp ca token srv1 srv2 (Answer v) d = (json_answer ops 201 [] (key_created_json stamp c), d')"
    using assms(4-6) by (simp add: post_keys_def authenticated_def)
  then have "\<exists>r. app_call ops (\<lambda>ctx. post_keys ops co sql isofmt stamp ca token srv1 srv2 (Answer v)) header uuid Map.empty d =
      (Inr r, Map.empty, d') \<and> http_status r = 201 \<and> http_body r = JsonBody (key_created_json stamp c)"
    unfolding json_answer_def using app_call_answer [OF assms(1), of "\<lambda>ctx. post_keys ops co sql isofmt stamp ca token srv1 srv2 (Answer v)"]
    by fastforce
  moreover have "key_create_ok b"
    using assms(5) key_create_of_json_ok by (auto simp: key_body_def split: option.splits if_splits)
  then have "\<forall>n. kc_expires_in_days b = Some n \<longrightarrow> 1 \<le> n \<and> n \<le> 3650" by (auto simp: key_create_ok_def)
  ultimately show ?thesis using created_key_works [OF assms(6,2,3)] by blast
qed

definition demo_sha :: "string \<Rightarrow> string" where
  "demo_sha raw = (if raw = ''sk-1'' then ''h'' else raw)"

definition demo_caller :: caller where
  "demo_caller = \<lparr>ca_sha = demo_sha, ca_now = 0, ca_auth = Some ''Bearer sk-1''\<rparr>"

definition demo_key_body :: json where
  "demo_key_body = JObj [(''client_name'', JStr '' new '')]"

lemma demo_key_accepted: "key_body co (Some demo_key_body) = Answer \<lparr>kc_client_name = ''new'', kc_expires_in_days = Some 90, kc_spend_limit_usd = None\<rparr>"
  by (simp add: key_body_def key_create_of_json_def key_fields_def demo_key_body_def required_def with_default_def name_field_def
      client_name_not_blank_def py_strip_def py_space_def rstrip_while_def default_key_create_def DEFAULT_KEY_EXPIRY_DAYS_def)

lemma demo_caller_known: "authenticate_request (ca_sha demo_caller) (ca_now demo_caller) (capped_db c) (ca_auth demo_caller) = Inr 7"
  by (simp add: demo_caller_def demo_sha_def authenticate_Inr_iff bearer_key_def py_startswith_def py_strip_def py_space_def
      rstrip_while_def get_key_by_hash_def capped_db_def capped_key_def is_expired_def)

lemma demo_key_created:
  "\<exists>d'. create_key (ca_sha demo_caller) exact_sql (\<lambda>t. []) (ca_now demo_caller) ''ab'' (Assigned 8 (Naive 0)) (Assigned 1 (Naive 0))
     \<lparr>kc_client_name = ''new'', kc_expires_in_days = Some 90, kc_spend_limit_usd = None\<rparr> (capped_db cost) =
     (Inr \<lparr>kd_id = 8, kd_client_name = ''new'', kd_api_key = ''sk-ab'', kd_spend_limit_usd = None, kd_created_at = Naive 0,
           kd_expires_at = Some (Naive 7776000)\<rparr>, d') \<and> get_key_by_id 8 d' =
     Some \<lparr>key_id = 8, hashed_key = ''sk-ab'', client_name = ''new'', is_active = True, spend_limit_usd = None,
           expires_at = Some (Naive 7776000), key_created_at = Naive 0\<rparr>"
  by (simp add: create_key_def hash_key_def demo_caller_def demo_sha_def insert_key_def create_audit_log_def capped_db_def
      capped_key_def expiry_of_def exact_sql_def get_key_by_id_def Let_def)

theorem key_route_round_trip_witness:
  "\<exists>d'. authenticate_request demo_sha 7775999 d' (Some ''Bearer sk-ab'') = Inr 8 \<and>
     authenticate_request demo_sha 7776000 d' (Some ''Bearer sk-ab'') \<noteq> Inr 8 \<and>
     (\<exists>r. app_call list_headers (\<lambda>ctx. post_keys list_headers plain_coercion exact_sql (\<lambda>t. []) (\<lambda>t. []) demo_caller ''ab''
          (Assigned 8 (Naive 0)) (Assigned 1 (Naive 0)) (Answer (Some demo_key_body))) None ''u'' Map.empty (capped_db dec_zero) =
        (Inr r, Map.empty, d') \<and> http_status r = 201)"
proof -
  obtain d' where made: "create_key (ca_sha demo_caller) exact_sql (\<lambda>t. []) (ca_now demo_caller) ''ab'' (Assigned 8 (Naive 0))
      (Assigned 1 (Naive 0)) \<lparr>kc_client_name = ''new'', kc_expires_in_days = Some 90, kc_spend_limit_usd = None\<rparr> (capped_db dec_zero) =
     (Inr \<lparr>kd_id = 8, kd_client_name = ''new'', kd_api_key = ''sk-ab'', kd_spend_limit_usd = None, kd_created_at = Naive 0,
           kd_expires_at = Some (Naive 7776000)\<rparr>, d')"
    using demo_key_created by blast
  have token: "list_all (\<lambda>ch. \<not> py_space ch) ''ab''" by (simp add: py_space_def)
  from key_route_round_trip [OF list_headers_ok sql_ok_exact token demo_caller_known demo_key_accepted [of plain_coercion] made, of "\<lambda>t. []" None "''u''"]
  show ?thesis
    by (intro exI [of _ d']) (auto simp: demo_caller_def)
qed

text \<open>
  The per-key cap can be shed: the key routes ask for a valid key only, so a client whose spend has reached its cap can
  create itself a key without a cap, with which it is admitted again.
\<close>

theorem capped_key_mints_keys:
  "\<exists>d' r. enforce_spend_cap exact_sql default_settings (capped_db (mk_dec 100 (- 2))) 7 \<noteq> Inr 7 \<and>
     post_keys list_headers plain_coercion exact_sql (\<lambda>t. []) (\<lambda>t. []) demo_caller ''ab'' (Assigned 8 (Naive 0))
       (Assigned 1 (Naive 0)) (Answer (Some demo_key_body)) (capped_db (mk_dec 100 (- 2))) = (Answer r, d') \<and>
     authenticate_request demo_sha 0 d' (Some ''Bearer sk-ab'') = Inr 8 \<and> enforce_spend_cap exact_sql default_settings d' 8 = Inr 8"
proof -
  let ?d = "capped_db (mk_dec 100 (- 2))"
  obtain d' where made: "create_key (ca_sha demo_caller) exact_sql (\<lambda>t. []) (ca_now demo_caller) ''ab'' (Assigned 8 (Naive 0))
      (Assigned 1 (Naive 0)) \<lparr>kc_client_name = ''new'', kc_expires_in_days = Some 90, kc_spend_limit_usd = None\<rparr> ?d =
     (Inr \<lparr>kd_id = 8, kd_client_name = ''new'', kd_api_key = ''sk-ab'', kd_spend_limit_usd = None, kd_created_at = Naive 0,
           kd_expires_at = Some (Naive 7776000)\<rparr>, d')" and key: "get_key_by_id 8 d' =
     Some \<lparr>key_id = 8, hashed_key = ''sk-ab'', client_name = ''new'', is_active = True, spend_limit_usd = None,
           expires_at = Some (Naive 7776000), key_created_at = Naive 0\<rparr>"
    using demo_key_created by blast
  have token: "list_all (\<lambda>ch. \<not> py_space ch) ''ab''" by (simp add: py_space_def)
  have "dec_val (mk_dec 100 (- 2)) \<le> dec_val (get_key_spend_usd exact_sql 7 ?d)"
    by (simp add: key_spend_val spend_where_def capped_db_def sample_log_def)
  then have "\<exists>e. key_cap_error exact_sql ?d 7 = Some e"
    unfolding key_cap_error_Some_iff by (simp add: get_key_by_id_def capped_db_def capped_key_def)
  then have "enforce_spend_cap exact_sql default_settings ?d 7 \<noteq> Inr 7" by (auto simp: enforce_Inr_iff)
  moreover have "enforce_spend_cap exact_sql default_settings d' 8 = Inr 8"
    by (simp add: enforce_spend_cap_def key_cap_error_def key global_cap_error_def default_settings_def)
  moreover have "authenticate_request demo_sha 0 d' (Some ''Bearer sk-ab'') = Inr 8"
    using created_key_works [OF made sql_ok_exact token, of 0] by (simp add: demo_caller_def)
  ultimately show ?thesis
    using made demo_caller_known demo_key_accepted by (simp add: post_keys_def authenticated_def json_answer_def)
qed

end
