(* ===== verification/Application.thy ===== *)
theory Application
  imports Admin_Http
begin

text \<open>
  The whole application, \<open>create_app\<close> of \<open>main.py\<close>: the routes of all routers in the order they are included, and a request
  from its method and path to the response, through the middlewares.  Which route a path belongs to is the framework's
  to find (\<open>fw_find\<close>), and what it finds no route for it answers itself (\<open>fw_other\<close>): its documentation pages, the mounted
  build of the dashboard, redirects of a trailing slash, 404 and 405.
\<close>

subsection \<open>The routes\<close>

datatype endpoint =
    ChatRoute | HealthRoute | ReadyRoute | ModelsRoute | ModelRoute | LogsRoute | SpendRoute | KeysRoute | NewKeyRoute
  | RevokeRoute | MetricsRoute

text \<open>A path is the list of what is between its slashes; a parameter matches any one part that is not empty.\<close>

datatype part = Fixed string | Param

type_synonym route = "string \<times> part list \<times> endpoint"

definition chat_router :: "route list" where
  "chat_router = [(''POST'', [Fixed ''v1'', Fixed ''chat'', Fixed ''completions''], ChatRoute)]"

definition health_router :: "route list" where
  "health_router = [(''GET'', [Fixed ''health''], HealthRoute), (''GET'', [Fixed ''health'', Fixed ''ready''], ReadyRoute)]"

definition models_router :: "route list" where
  "models_router =
     [(''GET'', [Fixed ''v1'', Fixed ''models''], ModelsRoute), (''GET'', [Fixed ''v1'', Fixed ''models'', Param], ModelRoute)]"

definition logs_router :: "route list" where
  "logs_router = [(''GET'', [Fixed ''api'', Fixed ''logs''], LogsRoute)]"

definition usage_router :: "route list" where
  "usage_router = [(''GET'', [Fixed ''api'', Fixed ''usage'', Fixed ''spend''], SpendRoute)]"

definition keys_router :: "route list" where
  "keys_router =
     [(''GET'', [Fixed ''api'', Fixed ''keys''], KeysRoute), (''POST'', [Fixed ''api'', Fixed ''keys''], NewKeyRoute),
      (''DELETE'', [Fixed ''api'', Fixed ''keys'', Param], RevokeRoute)]"

definition metrics_router :: "route list" where
  "metrics_router = [(''GET'', [Fixed ''metrics''], MetricsRoute)]"

definition app_routes :: "route list" where
  "app_routes =
     chat_router @ health_router @ models_router @ logs_router @ usage_router @ keys_router @ metrics_router"

subsection \<open>The framework\<close>

record 'h framework =
  fw_find :: "route list \<Rightarrow> string \<Rightarrow> string list \<Rightarrow> (endpoint \<times> string list) option"
  fw_other :: "bool \<Rightarrow> string \<Rightarrow> string list \<Rightarrow> 'h http_response"

text \<open>The parameters of a path that has the form of a route.\<close>

fun path_params :: "part list \<Rightarrow> string list \<Rightarrow> string list option" where
  "path_params [] [] = Some []"
| "path_params (Fixed s # ps) (x # xs) = (if s = x then path_params ps xs else None)"
| "path_params (Param # ps) (x # xs) = (if x = [] then None else map_option ((#) x) (path_params ps xs))"
| "path_params _ _ = None"

text \<open>The first route of the request's method and form; this is what the framework documents of its search.\<close>

fun first_route :: "route list \<Rightarrow> string \<Rightarrow> string list \<Rightarrow> (endpoint \<times> string list) option" where
  "first_route [] m p = None"
| "first_route ((m', ps, ep) # rs) m p =
     (case path_params ps p of
        Some xs \<Rightarrow> if m = m' then Some (ep, xs) else first_route rs m p
      | None \<Rightarrow> first_route rs m p)"

definition finds_first :: "'h framework \<Rightarrow> bool" where
  "finds_first fw \<longleftrightarrow> (\<forall>rs m p. fw_find fw rs m p = first_route rs m p)"

subsection \<open>A request\<close>

text \<open>
  What the process is: its environment, the libraries it calls, and whether the build of the dashboard was found at start
  (\<open>UI_ASSETS_DIR\<close>).
\<close>

record ('h, 'w) deployment =
  dp_ops :: "'h header_ops"
  dp_fw :: "'h framework"
  dp_co :: coercion
  dp_env :: "'w chat_env"
  dp_sql :: sql_ops
  dp_isoformat :: "datetime \<Rightarrow> string"
  dp_stamp :: "datetime \<Rightarrow> string"
  dp_multiproc :: "string option"
  dp_collect :: "string \<Rightarrow> prom"
  dp_exposition :: "prom \<Rightarrow> string"
  dp_ui :: bool

text \<open>A request, with what the clock, the random source and the dependencies of the probes give while it runs.\<close>

record http_request =
  rq_method :: string
  rq_path :: "string list"
  rq_params :: jobj
  rq_body :: "json option routed"
  rq_id_header :: "string option"
  rq_uuid :: string
  rq_arrival :: arrival
  rq_key_token :: string
  rq_server1 :: server
  rq_server2 :: server
  rq_ping :: "rat option \<times> bool probe"
  rq_query :: "rat option \<times> unit probe"

record 'w app_state =
  app_db :: db
  app_gw :: "'w gw"

definition caller_of :: "('h, 'w) deployment \<Rightarrow> http_request \<Rightarrow> caller" where
  "caller_of dp rq =
     \<lparr>ca_sha = env_sha (chat_base (dp_env dp)), ca_now = ar_wall (rq_arrival rq), ca_auth = ar_auth (rq_arrival rq)\<rparr>"

text \<open>The path parameter \<open>key_id: int\<close>.\<close>

definition key_param :: "coercion \<Rightarrow> string list \<Rightarrow> int routed" where
  "key_param co xs =
     in_part ''path''
       (case xs of
          x # _ \<Rightarrow> int_field co [LocName ''key_id''] (\<lambda>i. True) (JStr x)
        | [] \<Rightarrow> reject co [LocName ''key_id''] Required)"

definition readiness_route :: "'h header_ops \<Rightarrow> http_request \<Rightarrow> 'h http_response routed" where
  "readiness_route ops rq =
     (case fst (readiness (rq_ping rq) (rq_query rq)) of
        Inl e \<Rightarrow> Raised e
      | Inr (st, b) \<Rightarrow> json_answer ops st [] (JObj b))"

text \<open>A route that works on the database alone, and one that works on the process.\<close>

definition on_db ::
    "(db \<Rightarrow> 'h http_response routed \<times> db) \<Rightarrow> 'w app_state \<Rightarrow> ('h http_response routed \<times> 'w app_state) option" where
  "on_db route st = (case route (app_db st) of (r, d) \<Rightarrow> Some (r, st\<lparr>app_db := d\<rparr>))"

definition on_gw ::
    "('h http_response routed \<times> 'w gw) option \<Rightarrow> 'w app_state \<Rightarrow> ('h http_response routed \<times> 'w app_state) option" where
  "on_gw result st = map_option (\<lambda>(r, g). (r, st\<lparr>app_gw := g\<rparr>)) result"

definition run_endpoint ::
    "('h, 'w) deployment \<Rightarrow> http_request \<Rightarrow> endpoint \<Rightarrow> string list \<Rightarrow> 'w app_state \<Rightarrow>
     ('h http_response routed \<times> 'w app_state) option" where
  "run_endpoint dp rq ep xs st =
     (let ops = dp_ops dp; co = dp_co dp; ca = caller_of dp rq; ar = rq_arrival rq;
          ce = (dp_env dp)\<lparr>chat_request_id := Some (request_id_of (rq_id_header rq) (rq_uuid rq))\<rparr>
      in case ep of
           ChatRoute \<Rightarrow> on_gw (chat_route ops co ce (dp_sql dp) (app_db st) ar (rq_body rq) (app_gw st)) st
         | HealthRoute \<Rightarrow> Some (json_answer ops 200 [] (JObj health), st)
         | ReadyRoute \<Rightarrow> Some (readiness_route ops rq, st)
         | ModelsRoute \<Rightarrow> on_gw (Some (models_route ops ce (app_db st) ar None (app_gw st))) st
         | ModelRoute \<Rightarrow> on_gw (Some (models_route ops ce (app_db st) ar (Some (hd xs)) (app_gw st))) st
         | LogsRoute \<Rightarrow> on_db (logs_route ops co (dp_isoformat dp) ca (rq_params rq)) st
         | SpendRoute \<Rightarrow> on_db (spend_route ops (dp_sql dp) (env_settings (chat_base ce)) ca) st
         | KeysRoute \<Rightarrow> on_db (get_keys_route ops (dp_stamp dp) ca) st
         | NewKeyRoute \<Rightarrow>
             on_db (post_keys ops co (dp_sql dp) (dp_isoformat dp) (dp_stamp dp) ca (rq_key_token rq) (rq_server1 rq)
               (rq_server2 rq) (rq_body rq)) st
         | RevokeRoute \<Rightarrow> on_db (delete_key_route ops ca (rq_server2 rq) (key_param co xs)) st
         | MetricsRoute \<Rightarrow> Some (Answer (metrics_response ops
               (render (dp_multiproc dp) (dp_collect dp) (dp_exposition dp) (gw_prom (app_gw st)))), st))"

definition app_route ::
    "('h, 'w) deployment \<Rightarrow> http_request \<Rightarrow> 'w app_state \<Rightarrow> ('h http_response routed \<times> 'w app_state) option" where
  "app_route dp rq st =
     (case fw_find (dp_fw dp) app_routes (rq_method rq) (rq_path rq) of
        None \<Rightarrow> Some (Answer (fw_other (dp_fw dp) (dp_ui dp) (rq_method rq) (rq_path rq)), st)
      | Some (ep, xs) \<Rightarrow> run_endpoint dp rq ep xs st)"

text \<open>\<open>None\<close>: the request waits for another one for ever.\<close>

definition app_http ::
    "('h, 'w) deployment \<Rightarrow> http_request \<Rightarrow> 'w app_state \<Rightarrow>
     ((exn + 'h http_response) \<times> log_ctx \<times> 'w app_state) option" where
  "app_http dp rq st =
     map_option (\<lambda>answered. app_call (dp_ops dp) (\<lambda>c w. answered) (rq_id_header rq) (rq_uuid rq) Map.empty st)
       (app_route dp rq st)"

subsection \<open>Lemmas\<close>

lemma app_call_constant: "\<exists>a. app_call ops (\<lambda>c w. (x, s')) header uuid c s = (a, Map.empty, s')"
  by (cases x)
    (auto simp: app_call_def request_id_middleware_def security_headers_middleware_def handle_exceptions_def
      clear_request_context_def Let_def split: exn.splits sum.splits prod.splits)

text \<open>The routes anyone may call, and those that read a body.\<close>

definition public_route :: "endpoint \<Rightarrow> bool" where
  "public_route ep \<longleftrightarrow> ep = HealthRoute \<or> ep = ReadyRoute \<or> ep = MetricsRoute"

definition takes_body :: "endpoint \<Rightarrow> bool" where
  "takes_body ep \<longleftrightarrow> ep = ChatRoute \<or> ep = NewKeyRoute"

abbreviation request_auth :: "('h, 'w) deployment \<Rightarrow> http_request \<Rightarrow> 'w app_state \<Rightarrow> exn + int" where
  "request_auth dp rq st \<equiv>
     authenticate_request (env_sha (chat_base (dp_env dp))) (ar_wall (rq_arrival rq)) (app_db st) (ar_auth (rq_arrival rq))"

lemmas endpoint_defs = run_endpoint_def on_db_def on_gw_def caller_of_def Let_def

lemma models_route_unauthenticated:
  "authenticate_request (env_sha (chat_base ce)) (ar_wall ar) d (ar_auth ar) = Inl e \<Longrightarrow>
     models_route ops ce d ar m g = (Raised e, g)"
  by (simp add: models_route_def rate_limited_def limit_key_def)

lemma chat_route_unauthenticated:
  "authenticate_request (env_sha (chat_base ce)) (ar_wall ar) d (ar_auth ar) = Inl e \<Longrightarrow>
     chat_route ops co ce sql d ar got g =
       Some (case got of Answer v \<Rightarrow> Raised e | Invalid es \<Rightarrow> Invalid es | Raised x \<Rightarrow> Raised x, g)"
  by (simp add: chat_route_def chat_dependencies_def rate_limited_def limit_key_def split: routed.splits)

lemma post_keys_unauthenticated:
  "authenticate_request (ca_sha ca) (ca_now ca) d (ca_auth ca) = Inl e \<Longrightarrow>
     post_keys ops co sql isofmt stamp ca token srv1 srv2 got d =
       (case got of Answer v \<Rightarrow> Raised e | Invalid es \<Rightarrow> Invalid es | Raised x \<Rightarrow> Raised x, d)"
  by (simp add: post_keys_def authenticated_Inl split: routed.splits)

lemma endpoint_unauthenticated:
  assumes "request_auth dp rq st = Inl e"
  shows "\<exists>x. run_endpoint dp rq ep xs st = Some (x, st) \<and>
           (public_route ep \<or>
            x = (case if takes_body ep then rq_body rq else Answer None of
                   Answer v \<Rightarrow> Raised e | Invalid es \<Rightarrow> Invalid es | Raised x \<Rightarrow> Raised x))"
  using assms
  by (cases ep; cases "rq_body rq")
    (simp_all add: endpoint_defs public_route_def takes_body_def models_route_unauthenticated chat_route_unauthenticated
      post_keys_unauthenticated unauthenticated_routes)

text \<open>What each route can change.\<close>

lemma reading_routes:
  "snd (get_keys_route ops stamp ca d) = d" "snd (spend_route ops sql s ca d) = d" "snd (logs_route ops co isofmt ca ms d) = d"
  by (simp_all add: get_keys_route_def spend_route_def logs_route_def authenticated_def split: sum.splits routed.splits)

lemma endpoint_frame:
  assumes "run_endpoint dp rq ep xs st = Some (x, st')"
  shows "(app_db st' \<noteq> app_db st \<longrightarrow> ep = NewKeyRoute \<or> ep = RevokeRoute) \<and>
         (app_gw st' \<noteq> app_gw st \<longrightarrow> ep = ChatRoute \<or> ep = ModelsRoute \<or> ep = ModelRoute)"
  using assms
    reading_routes(1) [of "dp_ops dp" "dp_stamp dp" "caller_of dp rq" "app_db st"]
    reading_routes(2) [of "dp_ops dp" "dp_sql dp" "env_settings (chat_base (dp_env dp))" "caller_of dp rq" "app_db st"]
    reading_routes(3) [of "dp_ops dp" "dp_co dp" "dp_isoformat dp" "caller_of dp rq" "rq_params rq" "app_db st"]
  by (cases ep) (auto simp: endpoint_defs split: prod.splits)

text \<open>
  The answer to a request without a valid key, by the route it is for and by what reading its body gave: the framework reports a
  body it cannot read before the route's dependencies run.
\<close>

definition keyless_answer ::
    "'h header_ops \<Rightarrow> string \<Rightarrow> endpoint \<Rightarrow> json option routed \<Rightarrow> exn + 'h http_response \<Rightarrow> bool" where
  "keyless_answer ops rid ep body answered \<longleftrightarrow>
     public_route ep \<or>
     (case if takes_body ep then body else Answer None of
        Answer v \<Rightarrow> \<exists>r. answered = Inr r \<and> refusal ops rid 401 ''invalid_request_error'' r
      | Invalid es \<Rightarrow> \<exists>r. answered = Inr r \<and> http_status r = 400 \<and>
          http_body r = http_body (validation_exception_handler ops es)
      | Raised e \<Rightarrow>
          (case answered of
             Inl e' \<Rightarrow> e' = e \<and> (\<nexists>h. e = HttpExn h)
           | Inr r \<Rightarrow> \<exists>h. e = HttpExn h \<and> http_status r = status_code h \<and>
               http_body r = JsonBody (JObj [(''error'', JObj (error_fields (detail h) @ [(''request_id'', JStr rid)]))])))"

lemma app_http_unauthenticated:
  assumes "finds_first (dp_fw dp)" and "request_auth dp rq st = Inl e"
  shows "\<exists>x. app_route dp rq st = Some (x, st) \<and>
           (case first_route app_routes (rq_method rq) (rq_path rq) of
              None \<Rightarrow> x = Answer (fw_other (dp_fw dp) (dp_ui dp) (rq_method rq) (rq_path rq))
            | Some (ep, xs) \<Rightarrow>
                public_route ep \<or>
                x = (case if takes_body ep then rq_body rq else Answer None of
                       Answer v \<Rightarrow> Raised e | Invalid es \<Rightarrow> Invalid es | Raised x \<Rightarrow> Raised x))"
proof (cases "first_route app_routes (rq_method rq) (rq_path rq)")
  case None
  then show ?thesis using assms(1) by (simp add: app_route_def finds_first_def)
next
  case (Some found)
  obtain ep xs where "found = (ep, xs)" by fastforce
  then show ?thesis
    using Some assms(1) endpoint_unauthenticated [OF assms(2), of ep xs] by (simp add: app_route_def finds_first_def)
qed

lemma app_call_marked:
  "app_call ops (\<lambda>c w. (Answer a, s)) header uuid c w = (Inr (marked ops (request_id_of header uuid) a), Map.empty, s)"
  "app_call ops (\<lambda>c w. (Invalid es, s)) header uuid c w =
     (Inr (marked ops (request_id_of header uuid) (validation_exception_handler ops es)), Map.empty, s)"
  "app_call ops (\<lambda>c w. (Raised (HttpExn h), s)) header uuid c w =
     (Inr (marked ops (request_id_of header uuid)
        (openai_style_exception_handler ops (c(''request_id'' \<mapsto> request_id_of header uuid)) h)), Map.empty, s)"
  "\<nexists>h. e = HttpExn h \<Longrightarrow> app_call ops (\<lambda>c w. (Raised e, s)) header uuid c w = (Inl e, Map.empty, s)"
  by (simp_all add: app_call_Inr app_call_Inl handle_exceptions_def split: exn.splits)

lemma keyless_outcome:
  assumes "headers_ok (dp_ops dp)" and "rq_uuid rq \<noteq> []"
    and x: "x = (case if takes_body ep then rq_body rq else Answer None of
              Answer v \<Rightarrow> Raised (unauthorized m) | Invalid es \<Rightarrow> Invalid es | Raised x \<Rightarrow> Raised x)"
    and a: "app_call (dp_ops dp) (\<lambda>c w. (x, st)) (rq_id_header rq) (rq_uuid rq) Map.empty st = (a, Map.empty, st)"
  shows "keyless_answer (dp_ops dp) (request_id_of (rq_id_header rq) (rq_uuid rq)) ep (rq_body rq) a"
proof (cases "if takes_body ep then rq_body rq else Answer None")
  case (Answer v)
  then have "x = Raised (unauthorized m)" using x by simp
  then have "\<exists>r. a = Inr r \<and> refusal (dp_ops dp) (request_id_of (rq_id_header rq) (rq_uuid rq)) 401 ''invalid_request_error'' r"
    using app_call_unauthorized [OF assms(1,2), of "\<lambda>w. (x, st)" st m "rq_id_header rq"] a by auto
  then show ?thesis using Answer by (simp add: keyless_answer_def)
next
  case (Invalid es)
  then show ?thesis using x a by (auto simp: keyless_answer_def app_call_marked validation_exception_handler_def Let_def)
next
  case (Raised e)
  have "request_id_of (rq_id_header rq) (rq_uuid rq) \<noteq> []" using assms(2) by (rule request_id_nonempty)
  then show ?thesis
    using Raised x a
    by (cases "\<exists>h. e = HttpExn h")
      (auto simp: keyless_answer_def app_call_marked error_response_status error_response_body)
qed

text \<open>A path belongs to at most one route of each method, so the order in which the routers are included does not matter.\<close>

fun overlap :: "part list \<Rightarrow> part list \<Rightarrow> bool" where
  "overlap [] [] = True"
| "overlap (Fixed s # ps) (Fixed t # qs) = (s = t \<and> overlap ps qs)"
| "overlap (p # ps) (q # qs) = overlap ps qs"
| "overlap _ _ = False"

lemma path_params_overlap: "path_params ps p = Some xs \<Longrightarrow> path_params qs p = Some ys \<Longrightarrow> overlap ps qs"
proof (induction ps p arbitrary: qs xs ys rule: path_params.induct)
  case (2 s ps x p)
  then show ?case by (cases qs; cases "hd qs") (auto split: if_splits)
next
  case (3 ps x p)
  then show ?case by (cases qs; cases "hd qs") (auto split: if_splits)
qed (auto elim: path_params.elims)

lemma path_params_fixed: "path_params (map Fixed ss) p = Some xs \<longleftrightarrow> p = ss \<and> xs = []"
proof (induction ss arbitrary: p)
  case Nil
  show ?case by (cases p) auto
next
  case (Cons s ss)
  then show ?case by (cases p) auto
qed

lemma routes_apart:
  "list_all (\<lambda>(m, ps, ep). list_all (\<lambda>(m', ps', ep'). m = m' \<longrightarrow> overlap ps ps' \<longrightarrow> ps = ps' \<and> ep = ep') app_routes) app_routes"
  by code_simp

lemma routes_disjoint:
  assumes "(m, ps, ep) \<in> set app_routes" and "(m, ps', ep') \<in> set app_routes"
    and "path_params ps p = Some xs" and "path_params ps' p = Some xs'"
  shows "ps = ps' \<and> ep = ep' \<and> xs = xs'"
proof -
  have "ps = ps' \<and> ep = ep'"
    using routes_apart assms(1,2) path_params_overlap [OF assms(3,4)] by (fastforce simp: list_all_iff)
  with assms(3,4) show ?thesis by simp
qed

lemma first_route_in: "first_route rs m p = Some (ep, xs) \<Longrightarrow> \<exists>ps. (m, ps, ep) \<in> set rs \<and> path_params ps p = Some xs"
  by (induction rs m p rule: first_route.induct) (auto split: option.splits if_splits)

lemma first_route_some:
  "(m, ps, ep) \<in> set rs \<Longrightarrow> path_params ps p = Some xs \<Longrightarrow> first_route rs m p \<noteq> None"
  by (induction rs m p rule: first_route.induct) (auto split: option.splits)

lemma first_route_iff:
  assumes "set rs = set app_routes"
  shows "first_route rs m p = Some (ep, xs) \<longleftrightarrow> (\<exists>ps. (m, ps, ep) \<in> set app_routes \<and> path_params ps p = Some xs)"
proof
  show "first_route rs m p = Some (ep, xs) \<Longrightarrow> \<exists>ps. (m, ps, ep) \<in> set app_routes \<and> path_params ps p = Some xs"
    using first_route_in [of rs m p] assms by simp
next
  assume "\<exists>ps. (m, ps, ep) \<in> set app_routes \<and> path_params ps p = Some xs"
  then obtain ps where r: "(m, ps, ep) \<in> set app_routes" "path_params ps p = Some xs" by blast
  then have "first_route rs m p \<noteq> None" using first_route_some [of m ps ep rs p xs] assms by simp
  then obtain ep' xs' where f: "first_route rs m p = Some (ep', xs')" by auto
  then obtain ps' where "(m, ps', ep') \<in> set app_routes" "path_params ps' p = Some xs'"
    using first_route_in [of rs m p] assms by auto
  from routes_disjoint [OF this(1) r(1) this(2) r(2)] f show "first_route rs m p = Some (ep, xs)" by simp
qed

lemma keyless_request_answered:
  assumes "headers_ok (dp_ops dp)" and "finds_first (dp_fw dp)" and "rq_uuid rq \<noteq> []" and "db_ok (app_db st)"
    and auth: "request_auth dp rq st = Inl e"
  shows "\<exists>answered. app_http dp rq st = Some (answered, Map.empty, st) \<and>
      (\<forall>ps ep xs. (rq_method rq, ps, ep) \<in> set app_routes \<longrightarrow> path_params ps (rq_path rq) = Some xs \<longrightarrow>
         keyless_answer (dp_ops dp) (request_id_of (rq_id_header rq) (rq_uuid rq)) ep (rq_body rq) answered) \<and>
      ((\<forall>ps ep. (rq_method rq, ps, ep) \<in> set app_routes \<longrightarrow> path_params ps (rq_path rq) = None) \<longrightarrow>
         (\<exists>r. answered = Inr r \<and>
            http_status r = http_status (fw_other (dp_fw dp) (dp_ui dp) (rq_method rq) (rq_path rq)) \<and>
            http_body r = http_body (fw_other (dp_fw dp) (dp_ui dp) (rq_method rq) (rq_path rq))))"
proof -
  obtain m where e: "e = unauthorized m" using authenticate_Inl [OF assms(4) auth] by blast
  let ?found = "first_route app_routes (rq_method rq) (rq_path rq)"
  obtain x where x: "app_route dp rq st = Some (x, st)"
    "case ?found of
       None \<Rightarrow> x = Answer (fw_other (dp_fw dp) (dp_ui dp) (rq_method rq) (rq_path rq))
     | Some (ep, xs) \<Rightarrow> public_route ep \<or>
         x = (case if takes_body ep then rq_body rq else Answer None of
                Answer v \<Rightarrow> Raised e | Invalid es \<Rightarrow> Invalid es | Raised x \<Rightarrow> Raised x)"
    using app_http_unauthenticated [OF assms(2) auth] by blast
  obtain a where a: "app_call (dp_ops dp) (\<lambda>c w. (x, st)) (rq_id_header rq) (rq_uuid rq) Map.empty st = (a, Map.empty, st)"
    using app_call_constant [of "dp_ops dp" x st "rq_id_header rq" "rq_uuid rq" Map.empty st] by auto
  have known: "keyless_answer (dp_ops dp) (request_id_of (rq_id_header rq) (rq_uuid rq)) ep (rq_body rq) a"
    if "(rq_method rq, ps, ep) \<in> set app_routes" "path_params ps (rq_path rq) = Some xs" for ps ep xs
  proof -
    have "?found = Some (ep, xs)" using that first_route_iff [OF refl] by blast
    then show ?thesis
      using x(2) keyless_outcome [OF assms(1,3) _ a, where ep = ep and m = m] e by (auto simp: keyless_answer_def)
  qed
  have other: "\<exists>r. a = Inr r \<and>
      http_status r = http_status (fw_other (dp_fw dp) (dp_ui dp) (rq_method rq) (rq_path rq)) \<and>
      http_body r = http_body (fw_other (dp_fw dp) (dp_ui dp) (rq_method rq) (rq_path rq))"
    if "\<forall>ps ep. (rq_method rq, ps, ep) \<in> set app_routes \<longrightarrow> path_params ps (rq_path rq) = None"
  proof -
    have "?found = None" using that first_route_in [of app_routes] by (cases ?found) fastforce+
    then show ?thesis using x(2) a by (auto simp: app_call_marked)
  qed
  show ?thesis
    using x(1) a known other by (intro exI [of _ a]) (auto simp: app_http_def)
qed

lemma surface_changes:
  assumes "finds_first (dp_fw dp)" and run: "app_http dp rq st = Some (answered, ctx, st')"
  shows "(app_db st' \<noteq> app_db st \<longrightarrow> (\<exists>ps xs. path_params ps (rq_path rq) = Some xs \<and>
            ((rq_method rq, ps, NewKeyRoute) \<in> set app_routes \<or> (rq_method rq, ps, RevokeRoute) \<in> set app_routes))) \<and>
         (app_gw st' \<noteq> app_gw st \<longrightarrow> (\<exists>ps xs. path_params ps (rq_path rq) = Some xs \<and>
            (\<exists>ep \<in> {ChatRoute, ModelsRoute, ModelRoute}. (rq_method rq, ps, ep) \<in> set app_routes)))"
proof (intro conjI impI)
  from run obtain x s where x: "app_route dp rq st = Some (x, s)"
    "app_call (dp_ops dp) (\<lambda>c w. (x, s)) (rq_id_header rq) (rq_uuid rq) Map.empty st = (answered, ctx, st')"
    by (auto simp: app_http_def)
  with app_call_constant [of "dp_ops dp" x s "rq_id_header rq" "rq_uuid rq" Map.empty st] have s: "s = st'" by auto
  have found: "\<exists>ep xs ps. (rq_method rq, ps, ep) \<in> set app_routes \<and> path_params ps (rq_path rq) = Some xs \<and>
      run_endpoint dp rq ep xs st = Some (x, st')" if "st' \<noteq> st"
    using that x(1) assms(1) s first_route_iff [OF refl]
    by (fastforce simp: app_route_def finds_first_def split: option.splits)
  { assume "app_db st' \<noteq> app_db st"
    with found endpoint_frame show "\<exists>ps xs. path_params ps (rq_path rq) = Some xs \<and>
        ((rq_method rq, ps, NewKeyRoute) \<in> set app_routes \<or> (rq_method rq, ps, RevokeRoute) \<in> set app_routes)"
      by blast }
  { assume "app_gw st' \<noteq> app_gw st"
    with found endpoint_frame show "\<exists>ps xs. path_params ps (rq_path rq) = Some xs \<and>
        (\<exists>ep \<in> {ChatRoute, ModelsRoute, ModelRoute}. (rq_method rq, ps, ep) \<in> set app_routes)"
      by blast }
qed

subsection \<open>Properties\<close>

text \<open>
  C17. What a request can do to the gateway without a valid key is nothing: it is always answered, and the database and the
  process stay as they were.  If its method and path belong to a route of the application other than health, readiness and
  metrics, the answer is a 401 that names the request; only where a route takes a body and this one could not be read,
  the answer is the 400 or the error that reading it gave.  If they belong to no route, the answer is the framework's own (its
  documentation pages, the mounted dashboard, 404 and 405).  With a key only the two key routes change the database, and
  only the chat and model routes the process.
\<close>

theorem public_surface:
  assumes "headers_ok (dp_ops dp)" and "finds_first (dp_fw dp)" and "rq_uuid rq \<noteq> []" and "db_ok (app_db st)"
  shows "(\<forall>e. request_auth dp rq st = Inl e \<longrightarrow>
            (\<exists>answered. app_http dp rq st = Some (answered, Map.empty, st) \<and>
               (\<forall>ps ep xs. (rq_method rq, ps, ep) \<in> set app_routes \<longrightarrow> path_params ps (rq_path rq) = Some xs \<longrightarrow>
                  keyless_answer (dp_ops dp) (request_id_of (rq_id_header rq) (rq_uuid rq)) ep (rq_body rq) answered) \<and>
               ((\<forall>ps ep. (rq_method rq, ps, ep) \<in> set app_routes \<longrightarrow> path_params ps (rq_path rq) = None) \<longrightarrow>
                  (\<exists>r. answered = Inr r \<and>
                     http_status r = http_status (fw_other (dp_fw dp) (dp_ui dp) (rq_method rq) (rq_path rq)) \<and>
                     http_body r = http_body (fw_other (dp_fw dp) (dp_ui dp) (rq_method rq) (rq_path rq)))))) \<and>
         (\<forall>answered ctx st'. app_http dp rq st = Some (answered, ctx, st') \<longrightarrow>
            (app_db st' \<noteq> app_db st \<longrightarrow> (\<exists>ps xs. path_params ps (rq_path rq) = Some xs \<and>
               ((rq_method rq, ps, NewKeyRoute) \<in> set app_routes \<or> (rq_method rq, ps, RevokeRoute) \<in> set app_routes))) \<and>
            (app_gw st' \<noteq> app_gw st \<longrightarrow> (\<exists>ps xs. path_params ps (rq_path rq) = Some xs \<and>
               (\<exists>ep \<in> {ChatRoute, ModelsRoute, ModelRoute}. (rq_method rq, ps, ep) \<in> set app_routes))))"
  using keyless_request_answered [OF assms] surface_changes [OF assms(2)] by blast

definition demo_framework :: "(string \<times> string) list framework" where
  "demo_framework =
     \<lparr>fw_find = first_route, fw_other = (\<lambda>ui m p. \<lparr>http_status = 404, http_headers = [],
        http_body = JsonBody (JObj [(''detail'', JStr ''Not Found'')])\<rparr>)\<rparr>"

definition demo_deployment :: "((string \<times> string) list, unit) deployment" where
  "demo_deployment =
     \<lparr>dp_ops = list_headers, dp_fw = demo_framework, dp_co = text_coercion, dp_env = demo_chat [], dp_sql = exact_sql,
      dp_isoformat = (\<lambda>t. []), dp_stamp = (\<lambda>t. []), dp_multiproc = None, dp_collect = (\<lambda>d. empty_prom),
      dp_exposition = (\<lambda>p. []), dp_ui = False\<rparr>"

definition revoke_request :: http_request where
  \<comment> \<open>an anonymous \<open>DELETE /api/keys/7\<close>\<close>
  "revoke_request =
     \<lparr>rq_method = ''DELETE'', rq_path = [''api'', ''keys'', ''7''], rq_params = [], rq_body = Answer None, rq_id_header = None,
      rq_uuid = ''u'', rq_arrival = demo_arrival\<lparr>ar_auth := None\<rparr>, rq_key_token = [], rq_server1 = Assigned 1 (Naive 0),
      rq_server2 = Assigned 1 (Naive 0), rq_ping = (None, Probed True), rq_query = (None, Probed ())\<rparr>"

theorem public_surface_witness:
  "\<exists>r. app_http demo_deployment revoke_request \<lparr>app_db = capped_db dec_zero, app_gw = demo_gw ()\<rparr> =
       Some (Inr r, Map.empty, \<lparr>app_db = capped_db dec_zero, app_gw = demo_gw ()\<rparr>) \<and>
     refusal list_headers ''u'' 401 ''invalid_request_error'' r"
proof -
  let ?st = "\<lparr>app_db = capped_db dec_zero, app_gw = demo_gw ()\<rparr>"
  have "headers_ok (dp_ops demo_deployment)" "finds_first (dp_fw demo_deployment)" "rq_uuid revoke_request \<noteq> []"
    "db_ok (app_db ?st)"
    by (simp_all add: demo_deployment_def list_headers_ok finds_first_def demo_framework_def revoke_request_def db_ok_def
        capped_db_def)
  note surface = conjunct1 [OF public_surface [OF this]]
  have "request_auth demo_deployment revoke_request ?st = Inl (unauthorized ''Missing or invalid API key'')"
    by (simp add: revoke_request_def authenticate_request_def bearer_key_def)
  moreover have "(rq_method revoke_request, [Fixed ''api'', Fixed ''keys'', Param], RevokeRoute) \<in> set app_routes"
    "path_params [Fixed ''api'', Fixed ''keys'', Param] (rq_path revoke_request) = Some [''7'']"
    by (simp_all add: revoke_request_def app_routes_def keys_router_def)
  ultimately obtain answered where "app_http demo_deployment revoke_request ?st = Some (answered, Map.empty, ?st)"
    "\<exists>r. answered = Inr r \<and> refusal (dp_ops demo_deployment) (request_id_of (rq_id_header revoke_request) (rq_uuid revoke_request))
       401 ''invalid_request_error'' r"
    using surface by (force simp: keyless_answer_def public_route_def takes_body_def)
  then show ?thesis by (auto simp: demo_deployment_def revoke_request_def request_id_of_def given_def)
qed

end
