(* ===== verification/Http_Refinement.thy ===== *)
theory Http_Refinement
  imports Service_Runs Application
begin

text \<open>
  The HTTP surface refines the service: whatever request \<open>app_http\<close> answers, the steps of \<open>service_step\<close> lead from a
  service that holds the same database and process to one that holds what the request left, and what the client of the chat
  route was given is what the service has delivered.
\<close>

subsection \<open>The simulation relation\<close>

definition represents :: "'w service \<Rightarrow> 'w app_state \<Rightarrow> bool" where
  "represents s st \<longleftrightarrow>
     svc_db s = app_db st \<and> svc_gw s = app_gw st \<and> closed s \<subseteq> {..<length (threads (svc_conf s))}"

fun shown_as :: "delivery \<Rightarrow> http_body" where
  "shown_as (Delivered vk req r src) = JsonBody (response_json r)"
| "shown_as (Relayed vk req lines x src) = EventBody lines x"

text \<open>What an outcome of the chat route delivers to the key.\<close>

definition tells_client :: "exn + int \<Rightarrow> 'h http_response routed \<Rightarrow> delivery list \<Rightarrow> bool" where
  "tells_client caller x new \<longleftrightarrow>
     (case x of
        Answer r \<Rightarrow> (\<exists>dl. new = [dl] \<and> http_body r = shown_as dl \<and> caller = Inr (delivery_key dl))
      | _ \<Rightarrow> new = [])"

lemma shows_nothing [simp]: "tells_client caller (Raised e) []" "tells_client caller (Invalid es) []"
  by (simp_all add: tells_client_def)

subsection \<open>Steps of the service\<close>

lemma represents_gw: "represents s st \<Longrightarrow> represents (set_gw g s) (st\<lparr>app_gw := g\<rparr>)"
  by (simp add: represents_def)

lemma represents_db: "represents s st \<Longrightarrow> represents (s\<lparr>svc_db := d\<rparr>) (st\<lparr>app_db := d\<rparr>)"
  by (simp add: represents_def)

text \<open>Administration.\<close>

lemma admin_steps: "list_all admin_op xs \<Longrightarrow> service_steps co ce sql s (s\<lparr>svc_db := db_run sql xs (svc_db s)\<rparr>)"
proof (induction xs arbitrary: s)
  case (Cons x xs)
  have "service_step co ce sql s (s\<lparr>svc_db := db_step sql x (svc_db s)\<rparr>)"
    using Cons.prems by (intro service_step.Admin) simp
  moreover have "service_steps co ce sql (s\<lparr>svc_db := db_step sql x (svc_db s)\<rparr>) (s\<lparr>svc_db := db_run sql (x # xs) (svc_db s)\<rparr>)"
    using Cons.IH [of "s\<lparr>svc_db := db_step sql x (svc_db s)\<rparr>"] Cons.prems by (simp add: db_run_def)
  ultimately show ?case by (rule converse_rtranclp_into_rtranclp)
qed (simp add: db_run_def)

lemma create_key_ops: "\<exists>xs. list_all admin_op xs \<and> snd (create_key sha sql isofmt now token srv1 srv2 b d) = db_run sql xs d"
proof -
  let ?add = "AddKey srv1 (hash_key sha (''sk-'' @ token)) (kc_client_name b) (map_option dec_of_float (kc_spend_limit_usd b))
      (expiry_of now (kc_expires_in_days b))"
  obtain x d1 where add: "insert_key sql srv1 (hash_key sha (''sk-'' @ token)) (kc_client_name b)
      (map_option dec_of_float (kc_spend_limit_usd b)) (expiry_of now (kc_expires_in_days b)) d = (x, d1)" by fastforce
  show ?thesis
  proof (cases x)
    case (Inl e)
    then show ?thesis using add by (intro exI [of _ "[?add]"]) (simp add: create_key_def db_run_def Let_def)
  next
    case (Inr k)
    then show ?thesis
      using add
      by (intro exI [of _ "[?add, Audit srv2 ''key_created'' (key_id k) (client_name k)
            (map_option (\<lambda>t. ''expires_at='' @ isofmt t) (expiry_of now (kc_expires_in_days b)))]"])
        (auto simp: create_key_def db_run_def Let_def split: prod.splits option.splits)
  qed
qed

lemma revoke_key_ops: "\<exists>xs. list_all admin_op xs \<and> snd (revoke_key srv i d) = db_run sql xs d"
proof (cases "fst (deactivate_key i d)")
  case None
  then show ?thesis
    by (intro exI [of _ "[Deactivate i]"]) (auto simp: revoke_key_def db_run_def split: prod.splits)
next
  case (Some k)
  then show ?thesis
    by (intro exI [of _ "[Deactivate i, Audit srv ''key_revoked'' (key_id k) (client_name k) None]"])
      (auto simp: revoke_key_def db_run_def split: prod.splits option.splits)
qed

lemma db_run_none: "\<exists>xs. list_all admin_op xs \<and> d = db_run sql xs d"
  by (intro exI [of _ "[]"]) (simp add: db_run_def)

lemma key_route_ops:
  "\<exists>xs. list_all admin_op xs \<and> snd (post_keys ops co sql isofmt stamp ca token srv1 srv2 got d) = db_run sql xs d"
  "\<exists>xs. list_all admin_op xs \<and> snd (delete_key_route ops ca srv key d) = db_run sql xs d"
  using create_key_ops [of "ca_sha ca" sql isofmt "ca_now ca" token srv1 srv2 _ d] revoke_key_ops [of srv _ d sql] db_run_none [of d sql]
  by (auto simp: post_keys_def delete_key_route_def authenticated_def split: routed.splits sum.splits prod.splits) (metis snd_conv)+

text \<open>A request that runs by itself takes the segments one after the other.\<close>

lemma drive_idle: "\<not> in_flight p \<Longrightarrow> drive env req vk token l p g = (p, g)"
  by (subst drive.simps) (cases p; simp)

text \<open>What a run of segments delivers: the answer it ends with, if the request was running before.\<close>

definition answers_with :: "int \<Rightarrow> chat_request \<Rightarrow> pc \<Rightarrow> pc \<Rightarrow> delivery list \<Rightarrow> bool" where
  "answers_with vk req p p' ds \<longleftrightarrow>
     (case answer_of p' of
        Some r \<Rightarrow> if in_flight p then \<exists>src. ds = [Delivered vk req r src] else ds = []
      | None \<Rightarrow> ds = [])"

lemma answers_with_one [simp]: "answers_with vk req p p' (new_delivery vk req p p')"
  by (simp add: answers_with_def new_delivery_def split: option.split)

lemma new_delivery_same [simp]: "new_delivery vk req p p = []"
  by (cases p) (auto simp: new_delivery_def split: option.splits)

lemma drive_steps:
  "drive (chat_base ce) req vk token l p (svc_gw s) = (p', g') \<Longrightarrow> i < length (threads (svc_conf s)) \<Longrightarrow>
     threads (svc_conf s) ! i = (req, vk, p) \<Longrightarrow>
     \<exists>s'. service_steps co ce sql s s' \<and> svc_gw s' = g' \<and> svc_db s' = svc_db s \<and> closed s' = closed s \<and> lost s' = lost s \<and>
       threads (svc_conf s') = (threads (svc_conf s))[i := (req, vk, p')] \<and>
       (\<exists>ds. delivered s' = delivered s @ ds \<and> answers_with vk req p p' ds) \<and>
       (\<forall>m \<in> set (made s'). m \<in> set (made s) \<or> fst m = vk \<and> fst (snd m) = req)"
proof (induction "rank p" arbitrary: p s rule: less_induct)
  case less
  obtain p1 g1 where adv: "advance (chat_base ce) req vk token l p (svc_gw s) = (p1, g1)" by fastforce
  show ?case
  proof (cases "rank p1 < rank p")
    case False
    then have "p' = p" "g' = svc_gw s" using less.prems(1) adv by (simp_all add: drive.simps [of _ _ _ _ _ p] Let_def)
    moreover have "answers_with vk req p p []" using answers_with_one [of vk req p p] by simp
    ultimately show ?thesis
      using list_update_id [of "threads (svc_conf s)" i] less.prems(3) by (intro exI [of _ s]) simp
  next
    case True
    then have rest: "drive (chat_base ce) req vk token l p1 g1 = (p', g')"
      using less.prems(1) drive_step [OF adv] by simp
    let ?s1 = "s\<lparr>svc_conf := (svc_conf s)
           \<lparr>shared := g1, threads := (threads (svc_conf s))[i := (req, vk, p1)],
            future_keys := future_keys (svc_conf s) @ new_keys (request_key (chat_base ce) req vk) (svc_gw s) g1,
            provider_calls := provider_calls (svc_conf s) @ new_calls (request_key (chat_base ce) req vk) p p1\<rparr>,
         delivered := delivered s @ new_delivery vk req p p1, made := made s @ new_made vk req p p1\<rparr>"
    have "service_step co ce sql s ?s1" by (rule service_step.Segment [OF less.prems(2,3) adv])
    moreover obtain s' ds where "service_steps co ce sql ?s1 s'" "svc_gw s' = g'" "svc_db s' = svc_db s" "closed s' = closed s"
      "lost s' = lost s" "threads (svc_conf s') = (threads (svc_conf s))[i := (req, vk, p')]"
      "delivered s' = (delivered s @ new_delivery vk req p p1) @ ds" and ds: "answers_with vk req p1 p' ds"
      and
      "\<forall>m \<in> set (made s'). m \<in> set (made ?s1) \<or> fst m = vk \<and> fst (snd m) = req"
      using less.hyps [OF True, of ?s1] rest less.prems(2) by auto
    moreover have "\<forall>m \<in> set (made ?s1). m \<in> set (made s) \<or> fst m = vk \<and> fst (snd m) = req"
      using made_for by fastforce
    moreover have "answers_with vk req p p' (new_delivery vk req p p1 @ ds)"
    proof (cases "in_flight p1")
      case True
      have "in_flight p" using \<open>rank p1 < rank p\<close> by (cases p) auto
      then show ?thesis using True ds by (cases p1) (auto simp: new_delivery_def answers_with_def split: option.splits)
    next
      case False
      then have "p' = p1" using rest by (simp add: drive_idle)
      with False ds show ?thesis by (auto simp: new_delivery_def answers_with_def split: option.splits)
    qed
    ultimately show ?thesis by (intro exI [of _ s']) (auto intro: converse_rtranclp_into_rtranclp)
  qed
qed

text \<open>The chat route, by what became of the request.\<close>

lemma route_request_id [simp]:
  "chat_dependencies (ce\<lparr>chat_request_id := rid\<rparr>) sql d ar g = chat_dependencies ce sql d ar g"
  by (simp add: chat_dependencies_def rate_limited_def limit_key_def cong: sum.case_cong prod.case_cong)

lemma dependencies_authenticate:
  "chat_dependencies ce sql d ar g = (Inr (vk, injected), g1) \<Longrightarrow>
     authenticate_request (env_sha (chat_base ce)) (ar_wall ar) d (ar_auth ar) = Inr vk"
  by (auto simp: chat_dependencies_def rate_limited_def limit_key_def Let_def split: sum.splits prod.splits)

definition chat_simulated ::
    "coercion \<Rightarrow> 'w chat_env \<Rightarrow> sql_ops \<Rightarrow> 'w service \<Rightarrow> 'w app_state \<Rightarrow> exn + int \<Rightarrow> 'h http_response routed \<Rightarrow> 'w gw \<Rightarrow> bool" where
  "chat_simulated co ce sql s st caller x g' \<longleftrightarrow>
     (\<exists>s' new. service_steps co ce sql s s' \<and> represents s' (st\<lparr>app_gw := g'\<rparr>) \<and> delivered s' = delivered s @ new \<and>
        lost s' = lost s \<and> tells_client caller x new)"

lemma simulated_quiet:
  assumes "represents s st" and "service_steps co ce sql s (visited g' vs s)" and "\<nexists>r. x = Answer r"
  shows "chat_simulated co ce sql s st caller x g'"
proof -
  have "represents (visited g' vs s) (st\<lparr>app_gw := g'\<rparr>)" using assms(1) by (simp add: represents_def)
  moreover have "tells_client caller x []" using assms(3) by (cases x) auto
  ultimately show ?thesis
    unfolding chat_simulated_def using assms(2) by (intro exI [of _ "visited g' vs s"] exI [of _ "[]"]) simp
qed

text \<open>The visitor of a request that has come to the last read of the dependencies.\<close>

definition awaits_entry ::
    "coercion \<Rightarrow> 'w chat_env \<Rightarrow> sql_ops \<Rightarrow> 'w service \<Rightarrow> 'w gw \<Rightarrow> arrival \<Rightarrow> json option \<Rightarrow> int \<Rightarrow> bool" where
  "awaits_entry co ce sql s g ar v vk \<longleftrightarrow>
     service_steps co ce sql s (visited g [(ar, v, Below vk)] s) \<and>
     global_cap_error sql (env_settings (chat_base ce)) (svc_db s) = None"

lemma simulated_refusal:
  assumes "represents s st" and "awaits_entry co ce sql s g' ar v vk" and "admission co ce sql (svc_db s) v = None"
    and "\<nexists>r. x = Answer r"
  shows "chat_simulated co ce sql s st caller x g'"
proof -
  have "service_step co ce sql (visited g' [(ar, v, Below vk)] s) (visited g' [(ar, v, Away)] s)"
    using service_step.Refuse [of "length (visitors s)" "visited g' [(ar, v, Below vk)] s" ar v vk co ce sql] assms(3) by simp
  with assms(2) have "service_steps co ce sql s (visited g' [(ar, v, Away)] s)"
    by (auto simp: awaits_entry_def intro: rtranclp.rtrancl_into_rtrancl)
  then show ?thesis by (rule simulated_quiet [OF assms(1) _ assms(4)])
qed

lemma simulated_unknown_model:
  assumes rep: "represents s st" and wait: "awaits_entry co ce sql s g ar v vk"
    and adm: "admission co ce sql (svc_db s) v = Some body" and "stream body"
    and "reject_unknown_streaming_model body (env_registry (chat_base ce)) vk l g = (Some e, g')"
  shows "chat_simulated co ce sql s st caller (Raised e) g'"
proof -
  have "service_step co ce sql (visited g [(ar, v, Below vk)] s) (visited g' [(ar, v, Away)] s)"
    using service_step.Unknown_Model [of "length (visitors s)" "visited g [(ar, v, Below vk)] s" ar v vk co ce sql body l e g'] assms
    by simp
  with wait have "service_steps co ce sql s (visited g' [(ar, v, Away)] s)"
    by (auto simp: awaits_entry_def intro: rtranclp.rtrancl_into_rtrancl)
  then show ?thesis by (rule simulated_quiet [OF rep]) simp
qed

lemma simulated_stream:
  assumes rep: "represents s st" and wait: "awaits_entry co ce sql s g ar v vk"
    and adm: "admission co ce sql (svc_db s) v = Some body" and "stream body"
    and known: "reject_unknown_streaming_model body (env_registry (chat_base ce)) vk l g = (None, g2)"
    and run: "stream_response (ce\<lparr>chat_request_id := rid\<rparr>) body vk l g2 = (lines, x, g')"
    and "http_body r = EventBody lines x"
  shows "chat_simulated co ce sql s st (Inr vk) (Answer r) g'"
proof -
  let ?n = "length (relays s)" and ?below = "visited g [(ar, v, Below vk)] s"
  let ?opened = "(visited g2 [(ar, v, Away)] s)\<lparr>relays := relays s @ [(rid, body, vk, Opened)]\<rparr>"
  have "service_step co ce sql ?below ?opened"
    using service_step.Open [of "length (visitors s)" ?below ar v vk co ce sql body l g2 rid] assms by simp
  moreover obtain src ms where "service_steps co ce sql ?opened
      (relay_at ?n (rid, body, vk, Ended lines x) g' [Relayed vk body lines x src] ms ?opened)"
    (is "service_steps _ _ _ _ ?s")
    using relay_steps [of ?n ?opened rid body vk ce l lines x g' co sql] run by auto
  ultimately have "service_steps co ce sql s ?s"
    using wait by (auto simp: awaits_entry_def intro: rtranclp_trans rtranclp.rtrancl_into_rtrancl)
  moreover have "represents ?s (st\<lparr>app_gw := g'\<rparr>)" using rep by (simp add: represents_def)
  ultimately show ?thesis
    unfolding chat_simulated_def using assms(7)
    by (intro exI [of _ ?s] exI [of _ "[Relayed vk body lines x src]"]) (simp add: tells_client_def)
qed

lemma simulated_request:
  assumes rep: "represents s st" and wait: "awaits_entry co ce sql s g ar v vk"
    and adm: "admission co ce sql (svc_db s) v = Some body" and "\<not> stream body"
    and run: "handle_chat_completion (chat_base ce) body vk token l g = Some (out, g2)"
    and ok: "\<And>y. out = Inr y \<Longrightarrow> g' = g2 \<and> (\<exists>r. x = Answer r \<and> http_body r = JsonBody (response_json y))"
    and err: "\<And>e. out = Inl e \<Longrightarrow> (\<exists>e'. chat_failed body vk l e g2 = (e', g')) \<and> (\<nexists>r. x = Answer r)"
  shows "chat_simulated co ce sql s st (Inr vk) x g'"
proof -
  let ?n = "length (threads (svc_conf s))" and ?below = "visited g [(ar, v, Below vk)] s"
  let ?s1 = "?below\<lparr>visitors := visitors s @ [(ar, v, Away)],
      svc_conf := (svc_conf ?below)\<lparr>threads := threads (svc_conf s) @ [(body, vk, Arrived)]\<rparr>\<rparr>"
  have "service_step co ce sql ?below ?s1"
    using service_step.Admit [of "length (visitors s)" ?below ar v vk co ce sql body] assms by simp
  with wait have start: "service_steps co ce sql s ?s1"
    by (auto simp: awaits_entry_def intro: rtranclp.rtrancl_into_rtrancl)
  have "drive (chat_base ce) body vk token l Arrived (svc_gw ?s1) = (Finished out, g2)"
    using run by (auto simp: handle_chat_completion_def split: prod.splits pc.splits)
  from drive_steps [OF this, of ?n co sql] obtain s2 where s2: "service_steps co ce sql ?s1 s2" "svc_gw s2 = g2"
    "svc_db s2 = svc_db s" "closed s2 = closed s" "lost s2 = lost s" "threads (svc_conf s2) = threads (svc_conf s) @ [(body, vk, Finished out)]"
    "\<exists>ds. delivered s2 = delivered s @ ds \<and> answers_with vk body Arrived (Finished out) ds"
    by auto
  note first = rtranclp_trans [OF start s2(1)]
  have closed: "closed s \<subseteq> {..<?n}" using rep by (simp add: represents_def)
  show ?thesis
  proof (cases out)
    case (Inr y)
    then obtain src where "delivered s2 = delivered s @ [Delivered vk body y src]" using s2(7) by (auto simp: answers_with_def)
    moreover have "represents s2 (st\<lparr>app_gw := g'\<rparr>)" using rep s2 ok [OF Inr] closed by (auto simp: represents_def)
    ultimately show ?thesis
      unfolding chat_simulated_def using first s2(5) ok [OF Inr]
      by (intro exI [of _ s2] exI [of _ "[Delivered vk body y src]"]) (auto simp: tells_client_def)
  next
    case (Inl e)
    then obtain e' where e': "chat_failed body vk l e (svc_gw s2) = (e', g')" using err [OF Inl] s2(2) by auto
    let ?s3 = "(set_gw g' s2)\<lparr>closed := insert ?n (closed s2)\<rparr>"
    have "service_step co ce sql s2 ?s3"
      by (rule service_step.Report [OF _ _ _ e']) (use s2 closed Inl in auto)
    with first have "service_steps co ce sql s ?s3" by (rule rtranclp.rtrancl_into_rtrancl)
    moreover have "represents ?s3 (st\<lparr>app_gw := g'\<rparr>)" using rep s2 closed by (auto simp: represents_def)
    moreover have "delivered ?s3 = delivered s @ []" "lost ?s3 = lost s" using s2(5,7) Inl by (simp_all add: answers_with_def)
    moreover have "tells_client (Inr vk) x []" using err [OF Inl] by (cases x) auto
    ultimately show ?thesis unfolding chat_simulated_def by blast
  qed
qed

lemma chat_completions_simulated:
  assumes rep: "represents s st" and wait: "awaits_entry co ce sql s g ar v vk"
    and adm: "admission co ce sql (svc_db s) v = Some b"
    and out: "chat_completions (ce\<lparr>chat_request_id := rid\<rparr>) body vk injected token l g = Some (out, g')"
    and x: "x = chat_route_reply ops out" and b: "enforce_max_tokens (env_settings (chat_base ce)) body = Inr b"
  shows "chat_simulated co ce sql s st (Inr vk) x g'"
proof (cases "stream b")
  case False
  then obtain res g2 where run: "handle_chat_completion (chat_base ce) b vk token l g = Some (res, g2)"
    using out b by (auto simp: chat_completions_def split: option.splits)
  show ?thesis
    by (rule simulated_request [OF rep wait adm False run])
      (use out b run False in \<open>auto simp: chat_completions_def chat_route_reply_def x split: prod.splits\<close>)
next
  case True
  obtain y g2 where known: "reject_unknown_streaming_model b (env_registry (chat_base ce)) vk l g = (y, g2)" by fastforce
  show ?thesis
  proof (cases y)
    case (Some e)
    then have eqs: "g' = g2" "x = Raised e" using out b True known by (auto simp: chat_completions_def chat_route_reply_def x)
    show ?thesis unfolding eqs by (rule simulated_unknown_model [OF rep wait adm True known [unfolded Some]])
  next
    case None
    obtain lines z g3 where st: "stream_response (ce\<lparr>chat_request_id := rid\<rparr>) b vk l g2 = (lines, z, g3)"
      by (metis prod.exhaust)
    then have "g' = g3" "\<exists>r. x = Answer r \<and> http_body r = EventBody lines z"
      using out b True known None by (auto simp: chat_completions_def chat_route_reply_def x)
    then show ?thesis using simulated_stream [OF rep wait adm True known [unfolded None] st] by auto
  qed
qed

lemma chat_route_simulated:
  assumes rep: "represents s st"
    and run: "chat_route ops co (ce\<lparr>chat_request_id := rid\<rparr>) sql (app_db st) ar got (app_gw st) = Some (x, g')"
  shows "chat_simulated co ce sql s st (authenticate_request (env_sha (chat_base ce)) (ar_wall ar) (app_db st) (ar_auth ar)) x g'"
    (is "chat_simulated co ce sql s st ?caller x g'")
proof (cases "\<exists>v. got = Answer v")
  case False
  then have "g' = app_gw st" "\<nexists>r. x = Answer r" using run by (cases got; auto simp: chat_route_def)+
  then show ?thesis
    unfolding chat_simulated_def using rep by (intro exI [of _ s] exI [of _ "[]"]) (cases x; auto)
next
  case True
  then obtain v where v: "got = Answer v" by blast
  have same: "svc_db s = app_db st" "svc_gw s = app_gw st" using rep by (simp_all add: represents_def)
  obtain deps g1 where deps: "chat_dependencies ce sql (app_db st) ar (app_gw st) = (deps, g1)" by fastforce
  obtain vs where vs: "service_steps co ce sql s (visited g1 vs s)"
    "\<And>vk hs. deps = Inr (vk, hs) \<Longrightarrow> vs = [(ar, v, Below vk)] \<and> global_cap_error sql (env_settings (chat_base ce)) (svc_db s) = None"
    using dependencies_steps [OF deps [folded same]] by blast
  show ?thesis
  proof (cases deps)
    case (Inl e)
    with run v deps have "g' = g1" "\<nexists>r. x = Answer r" by (auto simp: chat_route_def)
    with vs(1) show ?thesis by (auto intro: simulated_quiet [OF rep])
  next
    case (Inr d)
    obtain vk injected where d: "deps = Inr (vk, injected)" using Inr by (cases d) auto
    have caller: "?caller = Inr vk" by (rule dependencies_authenticate [OF deps [unfolded d]])
    have wait: "awaits_entry co ce sql s g1 ar v vk" using vs d by (simp add: awaits_entry_def)
    show ?thesis
    proof (cases "\<exists>body b. chat_body co v = Answer body \<and> enforce_max_tokens (env_settings (chat_base ce)) body = Inr b")
      case False
      then have "admission co ce sql (svc_db s) v = None" by (auto simp: admission_def split: option.splits routed.splits sum.splits)
      moreover from False run v deps d have "g' = g1" "\<nexists>r. x = Answer r"
        by (auto simp: chat_route_def chat_completions_def chat_route_reply_def split: routed.splits sum.splits)
      ultimately show ?thesis using wait simulated_refusal [OF rep] by blast
    next
      case True
      then obtain body b where b: "chat_body co v = Answer body" "enforce_max_tokens (env_settings (chat_base ce)) body = Inr b"
        by blast
      then have adm: "admission co ce sql (svc_db s) v = Some b" using wait by (simp add: admission_def awaits_entry_def)
      obtain out where out: "chat_completions (ce\<lparr>chat_request_id := rid\<rparr>) body vk injected (ar_lock_token ar) (ar_latency ar) g1 =
          Some (out, g')" "x = chat_route_reply ops out"
        using run v deps d b by (auto simp: chat_route_def)
      show ?thesis unfolding caller using out b(2)
        by (rule chat_completions_simulated [OF rep wait adm])
    qed
  qed
qed

text \<open>The other routes that change something.\<close>

lemma models_route_steps:
  assumes "models_route ops (ce\<lparr>chat_request_id := rid\<rparr>) (svc_db s) ar m (svc_gw s) = (x, g')"
  shows "\<exists>vs. service_steps co ce sql s (visited g' vs s)"
proof -
  have "rate_limited (ce\<lparr>chat_request_id := rid\<rparr>) (svc_db s) ar (svc_gw s) = rate_limited ce (svc_db s) ar (svc_gw s)"
    by (simp add: rate_limited_def limit_key_def cong: sum.case_cong prod.case_cong)
  then obtain r where r: "rate_limited ce (svc_db s) ar (svc_gw s) = (r, g')"
    using assms by (auto simp: models_route_def split: prod.splits sum.splits option.splits)
  from limit_steps [OF r] show ?thesis by blast
qed

lemma chat_path:
  "first_route app_routes m p = Some (ChatRoute, xs) \<longleftrightarrow> m = ''POST'' \<and> p = [''v1'', ''chat'', ''completions''] \<and> xs = []"
proof -
  have route: "(m, ps, ChatRoute) \<in> set app_routes \<longleftrightarrow>
      m = ''POST'' \<and> ps = [Fixed ''v1'', Fixed ''chat'', Fixed ''completions'']" for ps
    by (auto simp: app_routes_def chat_router_def health_router_def models_router_def logs_router_def usage_router_def
        keys_router_def metrics_router_def)
  have path: "path_params [Fixed ''v1'', Fixed ''chat'', Fixed ''completions''] p = Some xs \<longleftrightarrow>
      p = [''v1'', ''chat'', ''completions''] \<and> xs = []"
    using path_params_fixed [of "[''v1'', ''chat'', ''completions'']"] by simp
  show ?thesis unfolding first_route_iff [OF refl] route by (auto simp: path simp del: path_params.simps)
qed

definition quietly :: "coercion \<Rightarrow> 'w chat_env \<Rightarrow> sql_ops \<Rightarrow> 'w service \<Rightarrow> 'w app_state \<Rightarrow> bool" where
  "quietly co ce sql s st' \<longleftrightarrow> (\<exists>s'. service_steps co ce sql s s' \<and> represents s' st' \<and> delivered s' = delivered s \<and> lost s' = lost s)"

lemma quietly_same: "represents s st \<Longrightarrow> quietly co ce sql s st"
  unfolding quietly_def by blast

lemma quietly_gw:
  "represents s st \<Longrightarrow> \<exists>vs. service_steps co ce sql s (visited g vs s) \<Longrightarrow> quietly co ce sql s (st\<lparr>app_gw := g\<rparr>)"
  unfolding quietly_def represents_def by fastforce

lemma quietly_admin:
  assumes "represents s st" and "\<exists>xs. list_all admin_op xs \<and> d = db_run sql xs (app_db st)"
  shows "quietly co ce sql s (st\<lparr>app_db := d\<rparr>)"
proof -
  obtain xs where xs: "list_all admin_op xs" "d = db_run sql xs (svc_db s)" using assms by (auto simp: represents_def)
  show ?thesis
    unfolding quietly_def
    using admin_steps [OF xs(1), of co ce sql s] represents_db [OF assms(1), of d] xs(2)
    by (intro exI [of _ "s\<lparr>svc_db := d\<rparr>"]) simp
qed

lemma endpoint_quietly:
  assumes rep: "represents s st" and run: "run_endpoint dp rq ep xs st = Some (x, st')" and "ep \<noteq> ChatRoute"
  shows "quietly (dp_co dp) (dp_env dp) (dp_sql dp) s st'"
proof (cases "ep = ModelsRoute \<or> ep = ModelRoute")
  case True
  then obtain m g' where "models_route (dp_ops dp) ((dp_env dp)\<lparr>chat_request_id := Some (request_id_of (rq_id_header rq) (rq_uuid rq))\<rparr>)
      (app_db st) (rq_arrival rq) m (app_gw st) = (x, g')" "st' = st\<lparr>app_gw := g'\<rparr>"
    using run by (auto simp: endpoint_defs split: prod.splits)
  then show ?thesis
    using rep by (auto intro!: quietly_gw models_route_steps simp: represents_def)
next
  case False
  have db: "app_gw st' = app_gw st" using endpoint_frame [OF run] False assms(3) by blast
  have "\<exists>ops. list_all admin_op ops \<and> app_db st' = db_run (dp_sql dp) ops (app_db st)"
  proof (cases "ep = NewKeyRoute \<or> ep = RevokeRoute")
    case True
    then have "app_db st' = snd (post_keys (dp_ops dp) (dp_co dp) (dp_sql dp) (dp_isoformat dp) (dp_stamp dp) (caller_of dp rq)
          (rq_key_token rq) (rq_server1 rq) (rq_server2 rq) (rq_body rq) (app_db st)) \<or>
        app_db st' = snd (delete_key_route (dp_ops dp) (caller_of dp rq) (rq_server2 rq) (key_param (dp_co dp) xs) (app_db st))"
      using run by (elim disjE) (simp_all add: run_endpoint_def on_db_def Let_def split_beta, auto)
    then show ?thesis using key_route_ops by (elim disjE) (simp_all only:)
  next
    case False
    then have "app_db st' = app_db st" using endpoint_frame [OF run] by blast
    then show ?thesis using db_run_none by (simp only:)
  qed
  from quietly_admin [OF rep this, of "dp_co dp" "dp_env dp"] show ?thesis using db by (cases st; cases st') simp
qed

lemma app_http_simulated:
  assumes "finds_first (dp_fw dp)" and "represents s st" and "app_http dp rq st = Some (reply, ctx, st')"
  shows "\<exists>s' new x. service_steps (dp_co dp) (dp_env dp) (dp_sql dp) s s' \<and> represents s' st' \<and>
           delivered s' = delivered s @ new \<and> lost s' = lost s \<and> app_route dp rq st = Some (x, st') \<and>
           (if rq_method rq = ''POST'' \<and> rq_path rq = [''v1'', ''chat'', ''completions'']
            then tells_client (request_auth dp rq st) x new else new = [])"
proof -
  obtain x s1 where x: "app_route dp rq st = Some (x, s1)"
    "app_call (dp_ops dp) (\<lambda>c w. (x, s1)) (rq_id_header rq) (rq_uuid rq) Map.empty st = (reply, ctx, st')"
    using assms(3) by (auto simp: app_http_def)
  with app_call_constant [of "dp_ops dp" x s1 "rq_id_header rq" "rq_uuid rq" Map.empty st] have st': "s1 = st'" by auto
  let ?found = "first_route app_routes (rq_method rq) (rq_path rq)"
  show ?thesis
  proof (cases "\<exists>xs. ?found = Some (ChatRoute, xs)")
    case True
    then obtain xs where found: "?found = Some (ChatRoute, xs)" by blast
    have "run_endpoint dp rq ChatRoute xs st = Some (x, st')"
      using x(1) st' found assms(1) by (simp add: app_route_def finds_first_def)
    then obtain g' where run: "chat_route (dp_ops dp) (dp_co dp)
        ((dp_env dp)\<lparr>chat_request_id := Some (request_id_of (rq_id_header rq) (rq_uuid rq))\<rparr>) (dp_sql dp) (app_db st)
        (rq_arrival rq) (rq_body rq) (app_gw st) = Some (x, g')" "st' = st\<lparr>app_gw := g'\<rparr>"
      by (auto simp: endpoint_defs)
    show ?thesis
      using chat_route_simulated [OF assms(2) run(1)] run(2) x(1) st' found [unfolded chat_path]
      by (auto simp: chat_simulated_def)
  next
    case False
    have "quietly (dp_co dp) (dp_env dp) (dp_sql dp) s st'"
    proof (cases ?found)
      case None
      then have "st' = st" using x(1) st' assms(1) by (simp add: app_route_def finds_first_def)
      then show ?thesis using quietly_same [OF assms(2)] by simp
    next
      case (Some r)
      obtain ep xs where r: "r = (ep, xs)" by fastforce
      then have "run_endpoint dp rq ep xs st = Some (x, st')"
        using x(1) st' Some assms(1) by (simp add: app_route_def finds_first_def)
      then show ?thesis using endpoint_quietly [OF assms(2)] False Some r by blast
    qed
    then show ?thesis using False x(1) st' by (auto simp: quietly_def chat_path)
  qed
qed

subsection \<open>Properties\<close>

text \<open>
  C8. The HTTP surface refines the service: whatever any request does, from a service that holds the same database and
  process its steps lead to one that holds what the request left; the client of the chat route is shown exactly what
  the service has delivered, to the key the request proves, and no other request delivers anything.
\<close>

theorem http_refines_service:
  assumes "finds_first (dp_fw dp)" and "represents s st" and "app_http dp rq st = Some (reply, ctx, st')"
  shows "\<exists>s' new x. service_steps (dp_co dp) (dp_env dp) (dp_sql dp) s s' \<and> represents s' st' \<and>
           delivered s' = delivered s @ new \<and> app_route dp rq st = Some (x, st') \<and>
           (if rq_method rq = ''POST'' \<and> rq_path rq = [''v1'', ''chat'', ''completions'']
            then tells_client (request_auth dp rq st) x new else new = [])"
  using app_http_simulated [OF assms] by blast

text \<open>An authenticated client creates a key.\<close>

definition keys_deployment :: "((string \<times> string) list, unit) deployment" where
  "keys_deployment =
     demo_deployment\<lparr>dp_env := (demo_chat [])\<lparr>chat_base := (chat_base (demo_chat []))\<lparr>env_sha := demo_sha\<rparr>\<rparr>\<rparr>"

definition new_key_request :: http_request where
  "new_key_request = revoke_request
     \<lparr>rq_method := ''POST'', rq_path := [''api'', ''keys''], rq_body := Answer (Some demo_key_body),
      rq_arrival := demo_arrival\<lparr>ar_wall := 0, ar_auth := Some ''Bearer sk-1''\<rparr>, rq_key_token := ''ab'',
      rq_server1 := Assigned 8 (Naive 0)\<rparr>"

theorem http_refines_service_witness:
  "\<exists>s'. service_steps text_coercion (dp_env keys_deployment) exact_sql (start_service () (capped_db dec_zero)) s' \<and>
     length (api_keys (svc_db s')) = 2 \<and> delivered s' = []"
proof -
  let ?s = "start_service () (capped_db dec_zero)"
  let ?st = "\<lparr>app_db = capped_db dec_zero, app_gw = svc_gw ?s\<rparr>"
  obtain d' where made: "create_key (ca_sha demo_caller) exact_sql (\<lambda>t. []) (ca_now demo_caller) ''ab'' (Assigned 8 (Naive 0))
      (Assigned 1 (Naive 0)) \<lparr>kc_client_name = ''new'', kc_expires_in_days = Some 90, kc_spend_limit_usd = None\<rparr> (capped_db dec_zero) =
     (Inr \<lparr>kd_id = 8, kd_client_name = ''new'', kd_api_key = ''sk-ab'', kd_spend_limit_usd = None, kd_created_at = Naive 0,
           kd_expires_at = Some (Naive 7776000)\<rparr>, d')"
    using demo_key_created by blast
  have two: "length (api_keys d') = 2"
    using made by (auto simp: create_key_def insert_key_def create_audit_log_def capped_db_def Let_def split: if_splits)
  have caller: "caller_of keys_deployment new_key_request = demo_caller"
    by (simp add: caller_of_def keys_deployment_def new_key_request_def demo_deployment_def demo_caller_def)
  have found: "fw_find (dp_fw keys_deployment) app_routes (rq_method new_key_request) (rq_path new_key_request) = Some (NewKeyRoute, [])"
    by (simp add: keys_deployment_def demo_deployment_def demo_framework_def new_key_request_def app_routes_def chat_router_def
        health_router_def models_router_def logs_router_def usage_router_def keys_router_def)
  have sel: "dp_co keys_deployment = text_coercion" "dp_sql keys_deployment = exact_sql" "dp_isoformat keys_deployment = (\<lambda>t. [])"
    "rq_key_token new_key_request = ''ab''" "rq_server1 new_key_request = Assigned 8 (Naive 0)"
    "rq_server2 new_key_request = Assigned 1 (Naive 0)" "rq_body new_key_request = Answer (Some demo_key_body)"
    by (simp_all add: keys_deployment_def demo_deployment_def new_key_request_def revoke_request_def)
  have "\<exists>x. app_route keys_deployment new_key_request ?st = Some (x, ?st\<lparr>app_db := d'\<rparr>)"
    by (simp add: app_route_def found run_endpoint_def on_db_def post_keys_def authenticated_def Let_def json_answer_def caller sel
        made demo_caller_known demo_key_accepted)
  then obtain x where x: "app_route keys_deployment new_key_request ?st = Some (x, ?st\<lparr>app_db := d'\<rparr>)" by blast
  obtain reply where "app_http keys_deployment new_key_request ?st = Some (reply, Map.empty, ?st\<lparr>app_db := d'\<rparr>)"
    using app_call_constant [of "dp_ops keys_deployment" x "?st\<lparr>app_db := d'\<rparr>" "rq_id_header new_key_request"
        "rq_uuid new_key_request" Map.empty ?st]
    by (auto simp: app_http_def x)
  moreover have "finds_first (dp_fw keys_deployment)"
    by (simp add: keys_deployment_def demo_deployment_def demo_framework_def finds_first_def)
  moreover have "represents ?s ?st" by (simp add: represents_def start_service_def)
  ultimately show ?thesis
    using http_refines_service [of keys_deployment ?s ?st new_key_request]
    by (fastforce simp: represents_def two new_key_request_def start_service_def keys_deployment_def demo_deployment_def)
qed

end
