(* ===== verification/Cluster.thy ===== *)
theory Cluster
  imports Redis_Answers Http_Refinement
begin

text \<open>
  Several processes of the service (replicas): each has its own requests, in-flight table, counters and queue; all share
  the database, and the outside world with Redis and the providers.  A step of the cluster is a step of any of them on
  what the others have left there, the start of one more, a command of an operator, or something that happens outside.
\<close>

subsection \<open>State and steps\<close>

record 'w cluster =
  cl_world :: 'w
  cl_db :: db
  members :: "'w service list"

text \<open>A replica with what the others have left.\<close>

definition plug :: "'w \<Rightarrow> db \<Rightarrow> 'w service \<Rightarrow> 'w service" where
  "plug w d m = (set_gw ((svc_gw m)\<lparr>gw_world := w\<rparr>) m)\<lparr>svc_db := d\<rparr>"

definition start_cluster :: "'w \<Rightarrow> db \<Rightarrow> 'w cluster" where
  "start_cluster w d = \<lparr>cl_world = w, cl_db = d, members = []\<rparr>"

inductive cluster_step :: "coercion \<Rightarrow> 'w chat_env \<Rightarrow> sql_ops \<Rightarrow> 'w cluster \<Rightarrow> 'w cluster \<Rightarrow> bool"
  for co :: coercion and ce :: "'w chat_env" and sql :: sql_ops where
  Member: "cluster_step co ce sql c
      \<lparr>cl_world = gw_world (svc_gw m), cl_db = svc_db m, members = (members c)[i := m]\<rparr>"
    if "i < length (members c)" and "service_step co ce sql (plug (cl_world c) (cl_db c) (members c ! i)) m"
| Scale_Out: "cluster_step co ce sql c (c\<lparr>members := members c @ [start_service (cl_world c) (cl_db c)]\<rparr>)"
| Operator: "cluster_step co ce sql c (c\<lparr>cl_db := db_step sql x (cl_db c)\<rparr>)"
    if "admin_op x"
| World: "cluster_step co ce sql c (c\<lparr>cl_world := w\<rparr>)"
    if "chat_outside ce (cl_world c) w"

abbreviation cluster_steps :: "coercion \<Rightarrow> 'w chat_env \<Rightarrow> sql_ops \<Rightarrow> 'w cluster \<Rightarrow> 'w cluster \<Rightarrow> bool" where
  "cluster_steps co ce sql \<equiv> (cluster_step co ce sql)\<^sup>*\<^sup>*"

lemma plug_simps [simp]:
  "svc_db (plug w d m) = d" "svc_gw (plug w d m) = (svc_gw m)\<lparr>gw_world := w\<rparr>" "threads (svc_conf (plug w d m)) = threads (svc_conf m)"
  "future_keys (svc_conf (plug w d m)) = future_keys (svc_conf m)" "visitors (plug w d m) = visitors m" "relays (plug w d m) = relays m"
  "closed (plug w d m) = closed m" "delivered (plug w d m) = delivered m" "lost (plug w d m) = lost m" "made (plug w d m) = made m"
  by (simp_all add: plug_def set_gw_def)

lemma plug_plug [simp]: "plug w d (plug w' d' m) = plug w d m"
  by (simp add: plug_def set_gw_def)

lemma plug_own [simp]: "plug (gw_world (svc_gw m)) (svc_db m) m = m"
  by (simp add: plug_def set_gw_def)

text \<open>A replica runs while the others pause.\<close>

lemma member_steps:
  assumes "service_steps co ce sql (plug (cl_world c) (cl_db c) (members c ! i)) m" and "i < length (members c)"
  shows "\<exists>c'. cluster_steps co ce sql c c' \<and> plug (cl_world c') (cl_db c') (members c' ! i) = m \<and>
    length (members c') = length (members c) \<and> (\<forall>j < length (members c). j \<noteq> i \<longrightarrow> members c' ! j = members c ! j)"
  using assms(1)
proof induction
  case base
  then show ?case using assms(2) by (intro exI [of _ c]) simp
next
  case (step m1 m2)
  then obtain c1 where c1: "cluster_steps co ce sql c c1" "plug (cl_world c1) (cl_db c1) (members c1 ! i) = m1"
    "length (members c1) = length (members c)" "\<forall>j < length (members c). j \<noteq> i \<longrightarrow> members c1 ! j = members c ! j" by blast
  have "cluster_step co ce sql c1 \<lparr>cl_world = gw_world (svc_gw m2), cl_db = svc_db m2, members = (members c1)[i := m2]\<rparr>"
    using cluster_step.Member [of i c1 co ce sql m2] step.hyps(2) assms(2) c1(2,3) by simp
  with c1 assms(2) show ?case
    by (intro exI [of _ "\<lparr>cl_world = gw_world (svc_gw m2), cl_db = svc_db m2, members = (members c1)[i := m2]\<rparr>"])
      (auto intro: rtranclp.rtrancl_into_rtrancl)
qed

lemma sum_update:
  fixes f :: "'a \<Rightarrow> 'b :: comm_monoid_add"
  assumes "i < length xs"
  shows "sum_list (map f (xs[i := y])) + f (xs ! i) = sum_list (map f xs) + f y"
  using assms
proof (induction xs arbitrary: i)
  case (Cons x xs)
  show ?case
  proof (cases i)
    case (Suc j)
    with Cons have "sum_list (map f (xs[j := y])) + f (xs ! j) = sum_list (map f xs) + f y" by simp
    then have "f x + (sum_list (map f (xs[j := y])) + f (xs ! j)) = f x + (sum_list (map f xs) + f y)" by (rule arg_cong)
    then show ?thesis using Suc by (simp add: ac_simps)
  qed (simp add: ac_simps)
qed simp

subsection \<open>The books of the cluster\<close>

definition cluster_queue :: "'w cluster \<Rightarrow> usage_record list" where
  "cluster_queue c = concat (map (\<lambda>m. usage_records (gw_tasks (svc_gw m))) (members c))"

definition cluster_lost :: "'w cluster \<Rightarrow> usage_record list" where
  "cluster_lost c = concat (map lost (members c))"

definition cluster_delivered :: "'w cluster \<Rightarrow> delivery list" where
  "cluster_delivered c = concat (map delivered (members c))"

text \<open>What the queue and the losses of a replica add up to, and what its deliveries cost.\<close>

definition share :: "sql_ops \<Rightarrow> int \<Rightarrow> 'w service \<Rightarrow> rat" where
  "share sql i m = key_total sql i (usage_records (gw_tasks (svc_gw m))) + key_total sql i (lost m)"

definition cluster_balance :: "sql_ops \<Rightarrow> int \<Rightarrow> 'w cluster \<Rightarrow> rat" where
  "cluster_balance sql i c = dec_val (get_key_spend_usd sql i (cl_db c)) + sum_list (map (share sql i) (members c))"

definition cluster_closes :: "'w chat_env \<Rightarrow> sql_ops \<Rightarrow> db \<Rightarrow> 'w cluster \<Rightarrow> bool" where
  "cluster_closes ce sql d c \<longleftrightarrow>
     (\<exists>rsss. list_all2 (\<lambda>m rss. list_all2 (settles ce) (delivered m) rss) (members c) rsss \<and>
        (\<forall>i. cluster_balance sql i c =
           dec_val (get_key_spend_usd sql i d) + sum_list (map (\<lambda>rss. key_total sql i (concat rss)) rsss)))"

lemma key_total_concat: "key_total sql i (concat xss) = sum_list (map (key_total sql i) xss)"
  by (induction xss) simp_all

lemma share_plug [simp]: "share sql i (plug w d m) = share sql i m"
  by (simp add: share_def)

lemma plug_carried [simp]: "candidates_carried ce (plug w d m) = candidates_carried ce m" "queue_ok (plug w d m) = queue_ok m"
  by (simp_all add: candidates_carried_def queue_ok_def)

text \<open>The deliveries of a replica are settled by \<open>rsss\<close>; one more step of one of them.\<close>

definition settled_by :: "'w chat_env \<Rightarrow> 'w service list \<Rightarrow> usage_record list list list \<Rightarrow> bool" where
  "settled_by ce ms rsss \<longleftrightarrow> list_all2 (\<lambda>m rss. list_all2 (settles ce) (delivered m) rss) ms rsss"

definition costs :: "sql_ops \<Rightarrow> int \<Rightarrow> usage_record list list list \<Rightarrow> rat" where
  "costs sql i rsss = sum_list (map (\<lambda>rss. key_total sql i (concat rss)) rsss)"

lemma settled_update:
  assumes "settled_by ce ms rsss" and "i < length ms" and "delivered m = delivered (ms ! i) @ ds" and "list_all2 (settles ce) ds rss"
  shows "settled_by ce (ms[i := m]) (rsss[i := rsss ! i @ rss])"
proof -
  have "list_all2 (settles ce) (delivered (ms ! i)) (rsss ! i)"
    using assms(1,2) by (simp add: settled_by_def list_all2_conv_all_nth)
  then show ?thesis
    using assms unfolding settled_by_def by (simp add: list_all2_update_cong list_all2_appendI)
qed

lemma costs_update:
  assumes "i < length rsss"
  shows "costs sql j (rsss[i := rsss ! i @ rss]) = costs sql j rsss + key_total sql j (concat rss)"
  using sum_update [OF assms, of "\<lambda>rss. key_total sql j (concat rss)" "rsss ! i @ rss"] by (simp add: costs_def)

lemma cluster_closes_iff:
  "cluster_closes ce sql d c \<longleftrightarrow>
     (\<exists>rsss. settled_by ce (members c) rsss \<and>
        (\<forall>i. cluster_balance sql i c = dec_val (get_key_spend_usd sql i d) + costs sql i rsss))"
  by (simp add: cluster_closes_def settled_by_def costs_def)

lemma member_closes:
  assumes ok: "sql_ok sql" and i: "i < length (members c)"
    and step: "service_step co ce sql (plug (cl_world c) (cl_db c) (members c ! i)) m"
    and cc: "candidates_carried ce (members c ! i)" and cl: "cluster_closes ce sql d c"
  shows "cluster_closes ce sql d \<lparr>cl_world = gw_world (svc_gw m), cl_db = svc_db m, members = (members c)[i := m]\<rparr>"
    (is "cluster_closes ce sql d ?c")
proof -
  let ?m = "members c ! i"
  from cl obtain rsss where rsss: "settled_by ce (members c) rsss"
    "\<And>j. cluster_balance sql j c = dec_val (get_key_spend_usd sql j d) + costs sql j rsss"
    unfolding cluster_closes_iff by blast
  from step_closes [OF ok step] cc obtain ds rss where m: "delivered m = delivered ?m @ ds" "list_all2 (settles ce) ds rss"
    "\<And>j. balance sql j m = balance sql j (plug (cl_world c) (cl_db c) ?m) + key_total sql j (concat rss)"
    unfolding closes_def by auto
  have len: "i < length rsss" using rsss(1) i by (simp add: settled_by_def list_all2_lengthD)
  have "cluster_balance sql j ?c = cluster_balance sql j c + key_total sql j (concat rss)" for j
    using sum_update [OF i, of "share sql j" m] m(3) [of j] by (simp add: cluster_balance_def balance_def share_def)
  then show ?thesis
    using settled_update [OF rsss(1) i m(1,2)] costs_update [OF len] rsss(2) unfolding cluster_closes_iff
    by (intro exI [of _ "rsss[i := rsss ! i @ rss]"]) simp
qed

lemma cluster_closes_step:
  assumes ok: "sql_ok sql" and step: "cluster_step co ce sql c c'" and cc: "\<forall>m \<in> set (members c). candidates_carried ce m"
    and cl: "cluster_closes ce sql d c"
  shows "cluster_closes ce sql d c'"
  using step
proof cases
  case (Member i m)
  then show ?thesis using member_closes [OF ok Member(2,3) _ cl] cc by simp
next
  case Scale_Out
  from cl obtain rsss where "settled_by ce (members c) rsss"
    "\<And>j. cluster_balance sql j c = dec_val (get_key_spend_usd sql j d) + costs sql j rsss"
    unfolding cluster_closes_iff by blast
  then show ?thesis
    unfolding cluster_closes_iff Scale_Out
    by (intro exI [of _ "rsss @ [[]]"])
      (simp add: settled_by_def costs_def list_all2_appendI cluster_balance_def share_def start_service_def)
next
  case (Operator x)
  then show ?thesis using cl by (simp add: cluster_closes_def cluster_balance_def admin_spend)
next
  case (World w)
  then show ?thesis using cl by (simp add: cluster_closes_def cluster_balance_def)
qed

text \<open>What every replica keeps.\<close>

definition cluster_ok :: "'w chat_env \<Rightarrow> 'w cluster \<Rightarrow> bool" where
  "cluster_ok ce c \<longleftrightarrow> (\<forall>m \<in> set (members c). candidates_carried ce m \<and> queue_ok m)"

lemma cluster_ok_step:
  assumes "cluster_step co ce sql c c'" and "cluster_ok ce c"
  shows "cluster_ok ce c'"
  using assms(1)
proof cases
  case (Member i m)
  have "candidates_carried ce (plug (cl_world c) (cl_db c) (members c ! i)) \<and> queue_ok (plug (cl_world c) (cl_db c) (members c ! i))"
    using assms(2) Member(2) by (simp add: cluster_ok_def)
  then have "candidates_carried ce m \<and> queue_ok m"
    using carried_step [OF Member(3)] queue_step [OF Member(3)] by blast
  then have "\<forall>m \<in> set ((members c)[i := m]). candidates_carried ce m \<and> queue_ok m"
    using assms(2) unfolding cluster_ok_def by (intro all_update)
  then show ?thesis using Member(1) by (simp add: cluster_ok_def)
qed (use assms(2) in \<open>simp_all add: cluster_ok_def\<close>)

lemma cluster_run_ok:
  assumes "cluster_steps co ce sql c c'" and "cluster_ok ce c"
  shows "cluster_ok ce c'"
  using assms by induction (blast intro: cluster_ok_step)+

lemma start_cluster_simps [simp]: "members (start_cluster w d) = []" "cl_db (start_cluster w d) = d" "cl_world (start_cluster w d) = w"
  by (simp_all add: start_cluster_def)

lemma start_cluster_ok [simp]: "cluster_ok ce (start_cluster w d)"
  by (simp add: cluster_ok_def)

lemma cluster_run_closes:
  assumes "sql_ok sql" and "cluster_steps co ce sql (start_cluster w d) c"
  shows "cluster_closes ce sql d c"
proof -
  from assms(2) have "cluster_closes ce sql d c \<and> cluster_ok ce c"
  proof induction
    case base
    show ?case by (simp add: cluster_closes_def cluster_balance_def)
  next
    case (step c1 c2)
    then show ?case
      using cluster_closes_step [OF assms(1) step.hyps(2)] cluster_ok_step [OF step.hyps(2)] by (simp add: cluster_ok_def)
  qed
  then show ?thesis by simp
qed

subsection \<open>Keys that are locked out\<close>

definition cluster_deliveries :: "int \<Rightarrow> 'w cluster \<Rightarrow> nat" where
  "cluster_deliveries vk c = sum_list (map (key_deliveries vk) (members c))"

definition cluster_running :: "int \<Rightarrow> 'w cluster \<Rightarrow> nat" where
  "cluster_running vk c = sum_list (map (key_running vk) (members c))"

definition cluster_waiting :: "visit set \<Rightarrow> 'w cluster \<Rightarrow> nat" where
  "cluster_waiting V c = sum_list (map (waiting V) (members c))"

lemmas cluster_counts = cluster_deliveries_def cluster_running_def cluster_waiting_def

lemma cluster_deliveries_count:
  "cluster_deliveries vk c = length (filter (\<lambda>x. delivery_key x = vk) (cluster_delivered c))"
  by (simp add: cluster_deliveries_def cluster_delivered_def key_deliveries_def [abs_def] filter_concat length_concat comp_def)

lemma plug_counts [simp]:
  "key_deliveries vk (plug w d m) = key_deliveries vk m" "key_running vk (plug w d m) = key_running vk m"
  "waiting V (plug w d m) = waiting V m"
  by (simp_all add: key_counts)

lemma start_counts [simp]:
  "key_deliveries vk (start_service w d) = 0" "key_running vk (start_service w d) = 0" "waiting V (start_service w d) = 0"
  by (simp_all add: key_counts start_service_def)

definition potential_of :: "int \<Rightarrow> visit set \<Rightarrow> 'w service \<Rightarrow> nat" where
  "potential_of vk V m = key_deliveries vk m + key_running vk m + waiting V m"

lemma cluster_potential:
  "sum_list (map (potential_of vk V) (members c)) = cluster_deliveries vk c + cluster_running vk c + cluster_waiting V c"
  by (simp add: potential_of_def [abs_def] cluster_counts sum_list_addf)

lemma no_waiting [simp]: "cluster_waiting {} c = 0"
  by (simp add: cluster_waiting_def waiting_def [abs_def] split_beta)

context lockout
begin

lemma cluster_locked_step:
  assumes step: "cluster_step co ce sql c c'" and ok: "cluster_ok ce c" and l: "locked (cl_db c)"
  shows "sum_list (map (potential_of vk V) (members c')) \<le> sum_list (map (potential_of vk V) (members c)) \<and> locked (cl_db c')"
  using step
proof cases
  case (Member i m)
  let ?m = "plug (cl_world c) (cl_db c) (members c ! i)"
  have m: "candidates_carried ce ?m" "queue_ok ?m" "locked (svc_db ?m)" using ok l Member(2) by (simp_all add: cluster_ok_def)
  have "potential_of vk V m \<le> potential_of vk V (members c ! i)"
    using potential [OF Member(3) m(3)] by (simp add: potential_of_def)
  with sum_update [OF Member(2), of "potential_of vk V" m] locked_step [OF Member(3) m] Member(1) show ?thesis by simp
next
  case (Operator x)
  then show ?thesis using locked_write [OF admin_op_ok l] by simp
qed (use l in \<open>simp_all add: potential_of_def\<close>)

lemma cluster_locked_out:
  assumes reach: "cluster_steps co ce sql (start_cluster w d) c" and l: "locked (cl_db c)" and run: "cluster_steps co ce sql c c'"
  shows "cluster_deliveries vk c' \<le> cluster_deliveries vk c + cluster_running vk c + cluster_waiting V c"
proof -
  have "cluster_ok ce c" using cluster_run_ok [OF reach] by simp
  with run l have "sum_list (map (potential_of vk V) (members c')) \<le> sum_list (map (potential_of vk V) (members c)) \<and> locked (cl_db c') \<and> cluster_ok ce c'"
  proof induction
    case (step c1 c2)
    then show ?case using cluster_locked_step [OF step.hyps(2)] cluster_ok_step [OF step.hyps(2)] by force
  qed simp
  then show ?thesis unfolding cluster_potential by linarith
qed

end

subsection \<open>Where answers come from\<close>

definition cluster_origins :: "'w chat_env \<Rightarrow> 'w cluster \<Rightarrow> (string \<times> chat_response) set" where
  "cluster_origins ce c = \<Union> (origins ce ` set (members c))"

definition cluster_valid :: "'w cluster \<Rightarrow> bool" where
  "cluster_valid c \<longleftrightarrow> (\<forall>m \<in> set (members c). \<forall>x \<in> set (made m). response_ok (snd (snd x)))"

lemma plug_origins [simp]:
  "origins ce (plug w d m) = origins ce m" "service_own ce G (plug w d m) = service_own ce G m"
  by (simp_all add: origins_def service_own_def shared_own_def)

lemma start_own [simp]: "service_own ce G (start_service w d)" "made (start_service w d) = []"
  by (simp_all add: service_own_def shared_own_def start_service_def new_process_def start_conf_def futures_own_def table_own_def)

lemma valid_origins: "cluster_valid c \<Longrightarrow> \<forall>(k, x) \<in> cluster_origins ce c. response_ok x"
  by (fastforce simp: cluster_valid_def cluster_origins_def origins_def)

definition cluster_own ::
    "'w chat_env \<Rightarrow> ('w \<Rightarrow> string \<Rightarrow> chat_response \<Rightarrow> bool) \<Rightarrow> (string \<Rightarrow> bool) \<Rightarrow> 'w cluster \<Rightarrow> bool" where
  "cluster_own ce stored slot c \<longleftrightarrow>
     cluster_valid c \<and> (\<forall>m \<in> set (members c). service_own ce (cluster_origins ce c) m) \<and>
     store_own stored slot (cluster_origins ce c) (cl_world c)"

lemma origins_at: "m \<in> set (members c) \<Longrightarrow> origins ce m \<subseteq> cluster_origins ce c"
  by (auto simp: cluster_origins_def)

lemma origins_grow: "set (made m) \<subseteq> set (made m') \<Longrightarrow> origins ce m \<subseteq> origins ce m'"
  unfolding origins_def by (rule image_mono)

lemma cluster_origins_grow:
  assumes "i < length ms" and "origins ce (ms ! i) \<subseteq> origins ce m"
  shows "\<Union> (origins ce ` set ms) \<subseteq> \<Union> (origins ce ` set (ms[i := m]))"
proof
  fix x assume "x \<in> \<Union> (origins ce ` set ms)"
  then obtain j where j: "j < length ms" "x \<in> origins ce (ms ! j)" by (auto simp: in_set_conv_nth)
  then have "x \<in> origins ce (ms[i := m] ! j)" using assms by (cases "i = j") auto
  then show "x \<in> \<Union> (origins ce ` set (ms[i := m]))" using j(1) by (metis UN_I length_list_update nth_mem)
qed

context answer_store
begin

lemma cluster_own_step:
  assumes step: "cluster_step co ce sql c c'" and own: "cluster_own ce stored slot c"
  shows "cluster_own ce stored slot c'"
  using step
proof cases
  case (Member i m)
  let ?m = "plug (cl_world c) (cl_db c) (members c ! i)" and ?G = "cluster_origins ce c'"
  have old: "members c ! i \<in> set (members c)" using Member(2) by simp
  have valid: "set (made (members c ! i)) \<subseteq> set (made m) \<and> (\<forall>x \<in> set (made m). response_ok (snd (snd x)))"
    using step_valid [OF Member(3)] own old by (simp add: cluster_own_def cluster_valid_def)
  have cv: "cluster_valid c'"
    using own valid Member(1) all_update [of "members c" "\<lambda>m. \<forall>x \<in> set (made m). response_ok (snd (snd x))" m i]
    by (simp add: cluster_own_def cluster_valid_def)
  have "m \<in> set (members c')" using Member(1,2) by (simp add: set_update_memI)
  then have "origins ce m \<subseteq> ?G" by (rule origins_at)
  moreover have grow: "cluster_origins ce c \<subseteq> ?G"
    using cluster_origins_grow [OF Member(2) origins_grow, of m ce] valid Member(1) by (simp add: cluster_origins_def)
  ultimately have m: "service_own ce ?G m \<and> store_own stored slot ?G (gw_world (svc_gw m))"
    using own old by (intro step_own [OF Member(3)]) (auto simp: cluster_own_def intro: service_own_mono [OF grow]
      store_own_mono [OF _ grow valid_origins [OF cv]])
  have "\<forall>m \<in> set ((members c)[i := m]). service_own ce ?G m"
    using own m by (intro all_update) (auto simp: cluster_own_def intro: service_own_mono [OF grow])
  with m show ?thesis using cv Member(1) by (simp add: cluster_own_def)
next
  case Scale_Out
  then have "cluster_origins ce c' = cluster_origins ce c" "cl_world c' = cl_world c"
    by (auto simp: cluster_origins_def origins_def start_service_def)
  then show ?thesis using own Scale_Out by (simp add: cluster_own_def cluster_valid_def)
next
  case (Operator x)
  then show ?thesis using own by (simp add: cluster_own_def cluster_valid_def cluster_origins_def)
next
  case (World w)
  then show ?thesis
    using own store_own_keeps [OF outside [OF World(2)]] by (simp add: cluster_own_def cluster_valid_def cluster_origins_def)
qed

lemma cluster_run_own:
  assumes "cluster_steps co ce sql (start_cluster w d) c" and "\<And>k x. slot k \<Longrightarrow> \<not> stored w k x"
  shows "cluster_own ce stored slot c"
  using assms(1)
proof induction
  case base
  show ?case using assms(2) by (simp add: cluster_own_def cluster_valid_def cluster_origins_def store_own_def)
qed (rule cluster_own_step)

end

context redis_answers
begin

lemma empty_run_own:
  assumes "cluster_steps co ce sql (start_cluster w d) c" and "view w = Map.empty"
  shows "cluster_own ce (stored_answer ce view) no_lock c"
proof (rule answers.cluster_run_own [OF assms(1)])
  show "\<not> stored_answer ce view w k x" for k x by (simp add: stored_answer_def holds_string_def assms(2))
qed

end

subsection \<open>Properties\<close>

definition cluster_made :: "'w cluster \<Rightarrow> (int \<times> chat_request \<times> chat_response) list" where
  "cluster_made c = concat (map made (members c))"

text \<open>A response that was obtained from a provider for this key and a request with the same body.\<close>

definition obtained_for :: "'w cluster \<Rightarrow> int \<Rightarrow> chat_request \<Rightarrow> chat_response \<Rightarrow> bool" where
  "obtained_for c vk req r \<longleftrightarrow> (\<exists>req'. (vk, req', r) \<in> set (cluster_made c) \<and> same_body req req')"

lemma same_key:
  assumes "(request_key (chat_base ce) req vk, r) \<in> cluster_origins ce c" and "request_wf req"
    and "\<And>vk' req' r. (vk', req', r) \<in> set (cluster_made c) \<Longrightarrow> request_wf req' \<and>
           (env_sha (chat_base ce) (dumps_sorted_compact (cache_parts req (Some vk))) =
              env_sha (chat_base ce) (dumps_sorted_compact (cache_parts req' (Some vk'))) \<longrightarrow>
            dumps_sorted_compact (cache_parts req (Some vk)) = dumps_sorted_compact (cache_parts req' (Some vk')))"
  shows "obtained_for c vk req r"
proof -
  from assms(1) obtain vk' req' where m: "(vk', req', r) \<in> set (cluster_made c)"
    and k: "request_key (chat_base ce) req vk = request_key (chat_base ce) req' vk'"
    by (auto simp: cluster_origins_def origins_def cluster_made_def)
  have "vk = vk' \<and> same_body req req'"
    using cache_key_agree [of req req' "env_sha (chat_base ce)" vk vk'] assms(2,3) m k by (auto simp: request_key_def)
  then show ?thesis using m unfolding obtained_for_def by blast
qed

text \<open>
  C11. No tenant gets another tenant's answer, on any replica: in every run of a cluster that starts with an empty Redis,
  through whatever cache hits, coalescing, waits, streams, cancellations and restarts, every response delivered to a key
  was obtained from a provider for a request of that very key with the same body, and a stream delivered to it has the
  lines its own upstream call gave, or replays such a response (unless the digest collides on two requests that were made).
\<close>

theorem answers_stay_with_their_key:
  assumes "answers_in_redis ce view server_time" and "view w = Map.empty"
    and "cluster_steps co ce sql (start_cluster w d) c" and "x \<in> set (cluster_delivered c)"
    and "request_wf (delivery_request x)"
    and "\<And>vk' req' r. (vk', req', r) \<in> set (cluster_made c) \<Longrightarrow> request_wf req' \<and>
           (env_sha (chat_base ce) (dumps_sorted_compact (cache_parts (delivery_request x) (Some (delivery_key x)))) =
              env_sha (chat_base ce) (dumps_sorted_compact (cache_parts req' (Some vk'))) \<longrightarrow>
            dumps_sorted_compact (cache_parts (delivery_request x) (Some (delivery_key x))) =
              dumps_sorted_compact (cache_parts req' (Some vk')))"
  shows "case x of
      Delivered vk req r src \<Rightarrow> obtained_for c vk req r
    | Relayed vk req lines e src \<Rightarrow>
        lines = [] \<or> own_lines ce req lines \<or>
        (\<exists>r now. obtained_for c vk req r \<and> synthesize_cached_stream now r = Inr lines)"
proof -
  have "redis_answers ce view server_time"
    using assms(1) by unfold_locales (simp_all add: answers_in_redis_def)
  then have "cluster_own ce (stored_answer ce view) no_lock c" using assms(3,2) by (rule redis_answers.empty_run_own)
  then have own: "delivery_own ce (cluster_origins ce c) x"
    using assms(4) by (auto simp: cluster_own_def service_own_def cluster_delivered_def)
  show ?thesis
  proof (cases x)
    case (Delivered vk req r src)
    then show ?thesis using own same_key [of ce req vk r c] assms(5,6) by simp
  next
    case (Relayed vk req lines e src)
    then show ?thesis using own same_key [of ce req vk _ c] assms(5,6) by auto
  qed
qed

text \<open>
  C12. The books of the cluster always balance: in every run of every number of replicas on one database, each answer and
  stream that any of them delivered is settled by exactly its bill: an answer for which no provider was called has one record
  at no cost, an answer of a provider has one record at that provider's price, a replay that was shown has one at no cost, a
  stream whose upstream was shown to its end has one with the reported usage at the price of the provider of its lines, and
  a stream without a record broke off or told the client that it failed.  Per key the spend in the database, the queued
  records of all replicas and those refused or lost add up to the initial spend and the stored costs of exactly these bills;
  a stream whose client hung up adds nothing.
\<close>

theorem cluster_books_balance:
  assumes "sql_ok sql" and "cluster_steps co ce sql (start_cluster w d) c"
  shows "\<exists>rss. list_all2 (settles ce) (cluster_delivered c) rss \<and>
           (\<forall>i. dec_val (get_key_spend_usd sql i (cl_db c)) + key_total sql i (cluster_queue c) + key_total sql i (cluster_lost c) =
                dec_val (get_key_spend_usd sql i d) + key_total sql i (concat rss))"
proof -
  from cluster_run_closes [OF assms] obtain rsss where
    rsss: "list_all2 (\<lambda>m rss. list_all2 (settles ce) (delivered m) rss) (members c) rsss"
    "\<And>i. cluster_balance sql i c = dec_val (get_key_spend_usd sql i d) + sum_list (map (\<lambda>rss. key_total sql i (concat rss)) rsss)"
    unfolding cluster_closes_def by blast
  have "list_all2 (settles ce) (concat (map delivered (members c))) (concat rsss)"
    using rsss(1) by (induction rule: list_all2_induct) (simp_all add: list_all2_appendI)
  moreover have "sum_list (map (\<lambda>rss. key_total sql i (concat rss)) rsss) = key_total sql i (concat (concat rsss))" for i
    by (induction rsss) simp_all
  moreover have "sum_list (map (share sql i) (members c)) = key_total sql i (cluster_queue c) + key_total sql i (cluster_lost c)" for i
    by (simp add: share_def [abs_def] cluster_queue_def cluster_lost_def key_total_concat sum_list_addf comp_def)
  ultimately show ?thesis
    using rsss(2) by (intro exI [of _ "concat rsss"]) (simp add: cluster_delivered_def cluster_balance_def add.assoc)
qed

text \<open>
  C14. The overspend of a key is bounded by what is running, over all replicas: once its spend or the gateway's has reached a cap
  in the shared database, all replicas together deliver to the key at most one more answer for each of its requests that is
  in flight at that moment or between the reads of the two caps, for ever, whatever else happens and however many join.
\<close>

theorem cluster_overspend_bounded:
  assumes "sql_ok sql" and "cluster_steps co ce sql (start_cluster w d) c"
    and "enforce_spend_cap sql (env_settings (chat_base ce)) (cl_db c) vk = Inl e"
    and "cluster_steps co ce sql c c'"
  shows "cluster_deliveries vk c' \<le> cluster_deliveries vk c + cluster_running vk c + cluster_waiting {Below vk} c"
proof -
  from assms(3) enforce_Inl_iff consider "\<exists>e. key_cap_error sql (cl_db c) vk = Some e"
    | "\<exists>e. global_cap_error sql (env_settings (chat_base ce)) (cl_db c) = Some e" by blast
  then show ?thesis
  proof cases
    case 1
    from lockout.cluster_locked_out [OF key_cap_lockout [OF assms(1)] assms(2) this assms(4)] show ?thesis .
  next
    case 2
    from lockout.cluster_locked_out [OF global_cap_lockout [OF assms(1)] assms(2) this assms(4), of vk] show ?thesis
      by simp
  qed
qed

text \<open>
  C15. A revocation takes effect at once, on all replicas: after the revocation of a key has been written, they deliver to the key
  at most the answers to its requests that are in flight at that moment or were authenticated before.
\<close>

theorem cluster_revocation_effective:
  assumes "cluster_steps co ce sql (start_cluster w d) c" and "vk \<in> key_id ` set (api_keys (cl_db c))"
    and "cluster_steps co ce sql (c\<lparr>cl_db := db_step sql (Deactivate vk) (cl_db c)\<rparr>) c'"
  shows "cluster_deliveries vk c' \<le> cluster_deliveries vk c + cluster_running vk c + cluster_waiting {Known vk, Limited vk, Below vk} c"
proof -
  let ?c = "c\<lparr>cl_db := db_step sql (Deactivate vk) (cl_db c)\<rparr>"
  have "cluster_step co ce sql c ?c" by (rule cluster_step.Operator) simp
  with assms(1) have reach: "cluster_steps co ce sql (start_cluster w d) ?c" by simp
  have "revoked vk (cl_db ?c)" using deactivate_existing [OF assms(2)] by (auto dest: revoked_deactivate)
  from revocation.cluster_locked_out [OF reach this assms(3)] show ?thesis by (simp add: cluster_counts)
qed

subsection \<open>Concrete runs\<close>

definition plain_request :: chat_request where
  "plain_request = sample_request\<lparr>max_tokens := Some (MAX_TOKENS_PER_REQUEST default_settings)\<rparr>"

lemma plain_admission:
  "admission plain_coercion (demo_chat []) exact_sql (capped_db dec_zero) (Some (JObj (model_dump sample_request))) = Some plain_request"
proof -
  have "global_cap_error exact_sql (default_settings\<lparr>RATE_LIMIT_FAIL_OPEN := True\<rparr>) (capped_db dec_zero) = None"
    using demo_admitted(2) by (simp add: enforce_Inr_iff)
  then show ?thesis
    by (simp add: admission_def sample_body enforce_max_tokens_def plain_request_def) (simp add: sample_request_def)
qed

text \<open>Two replicas; the first answers a request.\<close>

lemma demo_service_answer:
  "\<exists>m src. service_steps plain_coercion (demo_chat []) exact_sql (start_service () (capped_db dec_zero)) m \<and>
     svc_db m = capped_db dec_zero \<and>
     delivered m = [Delivered 7 plain_request sample_response src] \<and> (\<forall>x \<in> set (made m). fst x = 7 \<and> fst (snd x) = plain_request)"
proof -
  let ?s = "start_service () (capped_db dec_zero)" and ?v = "Some (JObj (model_dump sample_request))"
  obtain hs where deps: "chat_dependencies (demo_chat []) exact_sql (svc_db ?s) demo_arrival (svc_gw ?s) = (Inr (7, hs), demo_gw ())"
    using demo_dependencies by (auto simp: demo_process)
  let ?below = "visited (demo_gw ()) [(demo_arrival, ?v, Below 7)] ?s"
  from dependencies_steps [OF deps, of plain_coercion ?v] have
    below: "service_steps plain_coercion (demo_chat []) exact_sql ?s ?below" by auto
  let ?in = "?below\<lparr>visitors := [(demo_arrival, ?v, Away)],
      svc_conf := (svc_conf ?below)\<lparr>threads := [(plain_request, 7, Arrived)]\<rparr>\<rparr>"
  have empty: "visitors ?s = []" "threads (svc_conf ?s) = []" "delivered ?s = []" "made ?s = []"
    by (simp_all add: start_service_def new_process_def start_conf_def)
  have "\<not> stream plain_request" by (simp add: plain_request_def sample_request_def)
  then have "service_step plain_coercion (demo_chat []) exact_sql ?below ?in"
    using service_step.Admit [of 0 ?below demo_arrival ?v 7 plain_coercion "demo_chat []" exact_sql plain_request] plain_admission
    by (simp add: empty demo_process)
  with below have admitted: "service_steps plain_coercion (demo_chat []) exact_sql ?s ?in" by simp
  obtain g1 where "handle_chat_completion (chat_base (demo_chat [])) plain_request 7 ''t'' 3 (demo_gw ()) = Some (Inr sample_response, g1)"
    using demo_answer by blast
  then have drive: "drive (chat_base (demo_chat [])) plain_request 7 ''t'' 3 Arrived (svc_gw ?in) = (Finished (Inr sample_response), g1)"
    by (auto simp: handle_chat_completion_def split: prod.splits pc.splits)
  obtain m where "service_steps plain_coercion (demo_chat []) exact_sql ?in m" "svc_db m = svc_db ?in"
    "\<exists>ds. delivered m = delivered ?in @ ds \<and> answers_with 7 plain_request Arrived (Finished (Inr sample_response)) ds"
    "\<forall>x \<in> set (made m). x \<in> set (made ?in) \<or> fst x = 7 \<and> fst (snd x) = plain_request"
    using drive_steps [OF drive, of 0 plain_coercion exact_sql] by auto
  with admitted show ?thesis
    by (intro exI [of _ m]) (auto simp: answers_with_def visited_def empty demo_process dest: rtranclp_trans)
qed

lemma demo_cluster_answer:
  "\<exists>c src. cluster_steps plain_coercion (demo_chat []) exact_sql (start_cluster () (capped_db dec_zero)) c \<and> length (members c) = 2 \<and>
     cl_db c = capped_db dec_zero \<and> cluster_delivered c = [Delivered 7 plain_request sample_response src] \<and>
     (\<forall>x \<in> set (cluster_made c). fst x = 7 \<and> fst (snd x) = plain_request)"
proof -
  let ?d = "capped_db dec_zero"
  let ?step = "cluster_step plain_coercion (demo_chat []) exact_sql" and ?s = "start_service () (capped_db dec_zero)"
  let ?c1 = "\<lparr>cl_world = (), cl_db = ?d, members = [?s]\<rparr>" and ?c2 = "\<lparr>cl_world = (), cl_db = ?d, members = [?s, ?s]\<rparr>"
  have "?step (start_cluster () ?d) ?c1" "?step ?c1 ?c2"
    using cluster_step.Scale_Out [of plain_coercion "demo_chat []" exact_sql "start_cluster () ?d"]
      cluster_step.Scale_Out [of plain_coercion "demo_chat []" exact_sql ?c1]
    by (simp_all add: start_cluster_def)
  then have up: "?step\<^sup>*\<^sup>* (start_cluster () ?d) ?c2" by auto
  have "plug () ?d ?s = ?s" by (simp add: plug_def set_gw_def start_service_def)
  with demo_service_answer obtain m src where
    m: "service_steps plain_coercion (demo_chat []) exact_sql (plug (cl_world ?c2) (cl_db ?c2) (members ?c2 ! 0)) m"
      "delivered m = [Delivered 7 plain_request sample_response src]" "\<forall>x \<in> set (made m). fst x = 7 \<and> fst (snd x) = plain_request"
      "svc_db m = ?d"
    by auto
  from member_steps [OF m(1)] obtain c where c: "?step\<^sup>*\<^sup>* ?c2 c" "plug (cl_world c) (cl_db c) (members c ! 0) = m"
    "length (members c) = 2" "members c ! 1 = ?s" by auto
  then obtain m0 where m0: "members c = [m0, ?s]" by (cases "members c"; cases "tl (members c)") auto
  with c(2) have "delivered m0 = delivered m" "made m0 = made m" "cl_db c = svc_db m" by (auto simp: plug_def)
  with m0 m(2-4) up c(1,3) show ?thesis
    by (intro exI [of _ c] exI [of _ src]) (auto simp: cluster_delivered_def cluster_made_def start_service_def)
qed

lemma demo_answers_in_redis: "answers_in_redis (demo_chat ls) (\<lambda>w. Map.empty) (\<lambda>w. 0)"
  by (auto simp: answers_in_redis_def redis_documented_def strings_kept_def json_dec_enc sample_response_ok)

theorem answers_stay_with_their_key_witness:
  "\<exists>c src. cluster_steps plain_coercion (demo_chat []) exact_sql (start_cluster () (capped_db dec_zero)) c \<and> length (members c) = 2 \<and>
     cluster_delivered c = [Delivered 7 plain_request sample_response src] \<and> obtained_for c 7 plain_request sample_response"
proof -
  obtain c src where c: "cluster_steps plain_coercion (demo_chat []) exact_sql (start_cluster () (capped_db dec_zero)) c"
    "length (members c) = 2" "cluster_delivered c = [Delivered 7 plain_request sample_response src]"
    "\<forall>x \<in> set (cluster_made c). fst x = 7 \<and> fst (snd x) = plain_request"
    using demo_cluster_answer by blast
  have wf: "request_wf plain_request" using sample_request_wf by (simp add: request_wf_def plain_request_def)
  have "case Delivered 7 plain_request sample_response src of
      Delivered vk req r src \<Rightarrow> obtained_for c vk req r
    | Relayed vk req lines e src \<Rightarrow>
        lines = [] \<or> own_lines (demo_chat []) req lines \<or>
        (\<exists>r now. obtained_for c vk req r \<and> synthesize_cached_stream now r = Inr lines)"
    using c(3,4) wf by (intro answers_stay_with_their_key [OF demo_answers_in_redis [of "[]"] _ c(1)]) force+
  then show ?thesis using c by auto
qed

theorem cluster_books_balance_witness:
  "\<exists>c src rs. cluster_steps plain_coercion (demo_chat []) exact_sql (start_cluster () (capped_db dec_zero)) c \<and>
     settles (demo_chat []) (Delivered 7 plain_request sample_response src) rs \<and>
     dec_val (get_key_spend_usd exact_sql 7 (cl_db c)) + key_total exact_sql 7 (cluster_queue c) + key_total exact_sql 7 (cluster_lost c) =
     dec_val (get_key_spend_usd exact_sql 7 (capped_db dec_zero)) + key_total exact_sql 7 rs"
proof -
  obtain c src where c: "cluster_steps plain_coercion (demo_chat []) exact_sql (start_cluster () (capped_db dec_zero)) c"
    "cluster_delivered c = [Delivered 7 plain_request sample_response src]"
    using demo_cluster_answer by blast
  from cluster_books_balance [OF sql_ok_exact c(1)] obtain rss where
    rss: "list_all2 (settles (demo_chat [])) (cluster_delivered c) rss"
    "\<forall>i. dec_val (get_key_spend_usd exact_sql i (cl_db c)) + key_total exact_sql i (cluster_queue c) + key_total exact_sql i (cluster_lost c) =
       dec_val (get_key_spend_usd exact_sql i (capped_db dec_zero)) + key_total exact_sql i (concat rss)" by blast
  from rss(1) obtain rs where "rss = [rs]" "settles (demo_chat []) (Delivered 7 plain_request sample_response src) rs"
    unfolding c(2) by (auto simp: list_all2_Cons1)
  with rss(2) c(1) show ?thesis by (intro exI [of _ c] exI [of _ src] exI [of _ rs]) simp
qed

theorem cluster_overspend_bounded_witness:
  "\<exists>c. cluster_step plain_coercion (demo_chat []) exact_sql (start_cluster () (capped_db (mk_dec 100 (- 2)))) c \<and>
     length (members c) = 1 \<and> cluster_deliveries 7 c \<le> 0"
proof -
  let ?d = "capped_db (mk_dec 100 (- 2))" and ?c = "start_cluster () (capped_db (mk_dec 100 (- 2)))"
  let ?c' = "?c\<lparr>members := members ?c @ [start_service (cl_world ?c) (cl_db ?c)]\<rparr>"
  have "dec_val (mk_dec 100 (- 2)) \<le> dec_val (get_key_spend_usd exact_sql 7 ?d)"
    by (simp add: key_spend_val spend_where_def capped_db_def sample_log_def)
  then obtain e where cap: "enforce_spend_cap exact_sql (env_settings (chat_base (demo_chat []))) (cl_db ?c) 7 = Inl e"
    using key_cap_error_Some_iff [of exact_sql ?d 7]
      enforce_Inl_iff [of exact_sql "env_settings (chat_base (demo_chat []))" ?d 7]
    by (auto simp: capped_db_def capped_key_def get_key_by_id_def)
  have step: "cluster_step plain_coercion (demo_chat []) exact_sql ?c ?c'" by (rule cluster_step.Scale_Out)
  have "cluster_deliveries 7 ?c' \<le> cluster_deliveries 7 ?c + cluster_running 7 ?c + cluster_waiting {Below 7} ?c"
    by (rule cluster_overspend_bounded [OF sql_ok_exact rtranclp.rtrancl_refl cap
          r_into_rtranclp [of "cluster_step plain_coercion (demo_chat []) exact_sql", OF step]])
  with step show ?thesis by (intro exI [of _ ?c']) (simp add: cluster_counts)
qed

theorem cluster_revocation_effective_witness:
  "\<exists>c c'. cluster_steps plain_coercion (demo_chat []) exact_sql (start_cluster () (capped_db dec_zero)) c \<and> cluster_deliveries 7 c = 1 \<and>
     cluster_step plain_coercion (demo_chat []) exact_sql (c\<lparr>cl_db := db_step exact_sql (Deactivate 7) (cl_db c)\<rparr>) c' \<and>
     length (members c') = 3 \<and> cluster_deliveries 7 c' \<le> 1 + cluster_running 7 c + cluster_waiting {Known 7, Limited 7, Below 7} c"
proof -
  obtain c src where c: "cluster_steps plain_coercion (demo_chat []) exact_sql (start_cluster () (capped_db dec_zero)) c"
    "length (members c) = 2" "cl_db c = capped_db dec_zero" "cluster_delivered c = [Delivered 7 plain_request sample_response src]"
    using demo_cluster_answer by blast
  let ?r = "c\<lparr>cl_db := db_step exact_sql (Deactivate 7) (cl_db c)\<rparr>"
  let ?c' = "?r\<lparr>members := members ?r @ [start_service (cl_world ?r) (cl_db ?r)]\<rparr>"
  have one: "cluster_deliveries 7 c = 1"
    using c(4) by (simp add: cluster_deliveries_count)
  have step: "cluster_step plain_coercion (demo_chat []) exact_sql ?r ?c'" by (rule cluster_step.Scale_Out)
  have "7 \<in> key_id ` set (api_keys (cl_db c))" by (simp add: c(3) capped_db_def capped_key_def)
  from cluster_revocation_effective [OF c(1) this r_into_rtranclp [of "cluster_step plain_coercion (demo_chat []) exact_sql", OF step]]
  show ?thesis using c(1,2) one step by (intro exI [of _ c] exI [of _ ?c']) simp
qed

end
