(* ===== verification/Adapters.thy ===== *)
theory Adapters
  imports Fallback
begin

text \<open>
  The provider adapters that speak the OpenAI format, \<open>providers/openai.py\<close> and \<open>providers/mistral.py\<close>, on the
  transport helpers of \<open>providers/base.py\<close>.  The HTTP client is an argument: \<open>http_post\<close> gives the decoded
  body of a successful response (\<open>None\<close> when it is no JSON) or the failure \<open>httpx\<close> raises, \<open>http_stream\<close> the lines of a
  streamed body and the failure that cut it short.  \<open>coerce\<close> is Pydantic's coercion of a JSON value to \<open>int\<close>.
\<close>

subsection \<open>providers/base.py: transport\<close>

record 'w http_client =
  http_post :: "string \<Rightarrow> (string \<times> string) list \<Rightarrow> jobj \<Rightarrow> pyfloat \<Rightarrow> 'w \<Rightarrow> (http_failure + json option) \<times> 'w"
  http_stream ::
    "string \<Rightarrow> (string \<times> string) list \<Rightarrow> jobj \<Rightarrow> pyfloat \<Rightarrow> 'w \<Rightarrow> (string list \<times> http_failure option) \<times> 'w"

definition REQUEST_ID_HEADER :: string where
  "REQUEST_ID_HEADER = ''X-Request-ID''"

definition with_request_id :: "string option \<Rightarrow> (string \<times> string) list \<Rightarrow> (string \<times> string) list" where
  "with_request_id request_id headers =
     (if given request_id \<and> REQUEST_ID_HEADER \<notin> fst ` set headers
      then headers @ [(REQUEST_ID_HEADER, the request_id)]
      else headers)"

definition base_post ::
    "'w http_client \<Rightarrow> string option \<Rightarrow> provider \<Rightarrow> string \<Rightarrow> (string \<times> string) list \<Rightarrow> jobj \<Rightarrow> 'w \<Rightarrow>
     (exn + json option) \<times> 'w" where
  "base_post http request_id p url headers payload w =
     (case http_post http url (with_request_id request_id headers) payload (cfg_timeout (config p)) w of
        (Inl failure, w') \<Rightarrow>
          (Inl (ProviderExn (map_provider_error (provider_name p) (cfg_timeout (config p)) failure)), w')
      | (Inr body, w') \<Rightarrow> (Inr body, w'))"

definition iter_sse_lines ::
    "'w http_client \<Rightarrow> string option \<Rightarrow> provider \<Rightarrow> string \<Rightarrow> (string \<times> string) list \<Rightarrow> jobj \<Rightarrow> 'w \<Rightarrow>
     (string list \<times> exn option) \<times> 'w" where
  "iter_sse_lines http request_id p url headers payload w =
     (case http_stream http url (with_request_id request_id headers) payload (cfg_timeout (config p)) w of
        ((lines, failure), w') \<Rightarrow>
          ((lines,
            map_option (\<lambda>f. ProviderExn (map_provider_error (provider_name p) (cfg_timeout (config p)) f)) failure),
           w'))"

subsection \<open>providers/openai.py and providers/mistral.py\<close>

definition bearer :: "string \<Rightarrow> (string \<times> string) list" where
  "bearer key = [(''Authorization'', ''Bearer '' @ key)]"

text \<open>\<open>OpenAIProvider._headers\<close>: without a key no header is sent; Mistral's key is required.\<close>

definition openai_headers :: "provider \<Rightarrow> (string \<times> string) list" where
  "openai_headers p = (if given (api_key p) then bearer (the (api_key p)) else [])"

definition mistral_headers :: "provider \<Rightarrow> (string \<times> string) list" where
  "mistral_headers p = bearer (case api_key p of Some k \<Rightarrow> k | None \<Rightarrow> [])"

definition completions_url :: "provider \<Rightarrow> string" where
  "completions_url p = adapter_base_url p @ ''/chat/completions''"

text \<open>\<open>ChatResponse.model_validate\<close>: a \<open>ValidationError\<close> is a \<open>ValueError\<close>.\<close>

definition model_validate :: "(json \<Rightarrow> int option) \<Rightarrow> json \<Rightarrow> exn + chat_response" where
  "model_validate coerce data =
     (case response_of_json coerce data of
        None \<Rightarrow> Inl (ValueErr ''validation error for ChatResponse'')
      | Some r \<Rightarrow> Inr r)"

definition stream_payload :: "chat_request \<Rightarrow> jobj" where
  "stream_payload req =
     AList.update ''stream_options'' (JObj [(''include_usage'', JBool True)])
       (AList.update ''stream'' (JBool True) (model_dump req))"

definition relayed :: "string list \<Rightarrow> string list" where
  "relayed lines = map (\<lambda>line. line @ [CHR 0x0A, CHR 0x0A]) (filter (\<lambda>line. py_startswith line ''data: '') lines)"

definition compat_chat ::
    "'w http_client \<Rightarrow> (json \<Rightarrow> int option) \<Rightarrow> string option \<Rightarrow> (string \<times> string) list \<Rightarrow> provider \<Rightarrow> chat_request \<Rightarrow> 'w \<Rightarrow>
     (exn + chat_response) \<times> 'w" where
  "compat_chat http coerce request_id headers p req w =
     (case base_post http request_id p (completions_url p) headers (model_dump req) w of
        (Inl e, w') \<Rightarrow> (Inl e, w')
      | (Inr body, w') \<Rightarrow> (parse_response (provider_name p) body (model_validate coerce), w'))"

definition compat_stream ::
    "'w http_client \<Rightarrow> string option \<Rightarrow> (string \<times> string) list \<Rightarrow> provider \<Rightarrow> chat_request \<Rightarrow> 'w \<Rightarrow>
     (string list \<times> exn option) \<times> 'w" where
  "compat_stream http request_id headers p req w =
     (case iter_sse_lines http request_id p (completions_url p) headers (stream_payload req) w of
        ((lines, e), w') \<Rightarrow> ((relayed lines, e), w'))"

definition openai_chat_completion ::
    "'w http_client \<Rightarrow> (json \<Rightarrow> int option) \<Rightarrow> string option \<Rightarrow> ('w, chat_response) provider_call" where
  "openai_chat_completion http coerce request_id p req w = compat_chat http coerce request_id (openai_headers p) p req w"

definition openai_stream_chat_completion :: "'w http_client \<Rightarrow> string option \<Rightarrow> 'w stream_call" where
  "openai_stream_chat_completion http request_id p req w = compat_stream http request_id (openai_headers p) p req w"

definition mistral_chat_completion ::
    "'w http_client \<Rightarrow> (json \<Rightarrow> int option) \<Rightarrow> string option \<Rightarrow> ('w, chat_response) provider_call" where
  "mistral_chat_completion http coerce request_id p req w = compat_chat http coerce request_id (mistral_headers p) p req w"

definition mistral_stream_chat_completion :: "'w http_client \<Rightarrow> string option \<Rightarrow> 'w stream_call" where
  "mistral_stream_chat_completion http request_id p req w = compat_stream http request_id (mistral_headers p) p req w"

subsection \<open>Lemmas\<close>

lemma with_request_id_distinct:
  "distinct (map fst headers) \<Longrightarrow> distinct (map fst (with_request_id rid headers))"
  by (auto simp: with_request_id_def)

lemma map_of_with_request_id:
  "given rid \<Longrightarrow> REQUEST_ID_HEADER \<notin> fst ` set headers \<Longrightarrow>
     map_of (with_request_id rid headers) REQUEST_ID_HEADER = rid"
  by (cases rid) (force simp: with_request_id_def given_def map_add_def split: option.split dest: map_of_SomeD)+

text \<open>Who is called never changes whose error it is.\<close>

lemma base_post_Inl:
  "base_post http rid p url hs pl w = (Inl e, w') \<Longrightarrow> \<exists>pe. e = ProviderExn pe \<and> pe_provider pe = provider_name p"
  by (auto simp: base_post_def split: prod.splits sum.splits)

lemma model_validate_Inl: "model_validate coerce data = Inl e \<Longrightarrow> is_value_or_key_error e"
  by (auto simp: model_validate_def split: option.splits)

lemma parse_response_wraps:
  "parse_response n body parse = Inl e \<Longrightarrow> (\<And>data e'. parse data = Inl e' \<Longrightarrow> is_value_or_key_error e') \<Longrightarrow>
     \<exists>pe. e = ProviderExn pe \<and> pe_provider pe = n"
  using parse_response_Inl [of n body parse e] by fastforce

lemma compat_chat_Inl:
  assumes "compat_chat http coerce rid hs p req w = (Inl e, w')"
  shows "\<exists>pe. e = ProviderExn pe \<and> pe_provider pe = provider_name p"
  using assms base_post_Inl parse_response_wraps [OF _ model_validate_Inl]
  by (fastforce simp: compat_chat_def split: prod.splits sum.splits)

lemma iter_sse_lines_error:
  "iter_sse_lines http rid p url hs pl w = ((ls, Some e), w') \<Longrightarrow>
     \<exists>pe. e = ProviderExn pe \<and> pe_provider pe = provider_name p"
  by (auto simp: iter_sse_lines_def split: prod.splits)

end
