(* ===== verification/Anthropic.thy ===== *)
theory Anthropic
  imports Adapters Streaming
begin

text \<open>
  The Anthropic adapter, \<open>providers/anthropic.py\<close>: translation of a request to the Messages API, of its response, and
  of its event stream to OpenAI-format events.  Upstream bodies are untrusted JSON, read with the
  dynamically typed operations of \<open>Py_Dynamic\<close>.  Arguments: the HTTP client, Pydantic's \<open>coerce\<close>, the sum \<open>fadd\<close> of two numbers one of
  which is a float, and \<open>trunc\<close>, \<open>int()\<close> of a float.
\<close>

definition ANTHROPIC_VERSION :: string where
  "ANTHROPIC_VERSION = ''2023-06-01''"

definition DEFAULT_MAX_TOKENS :: int where
  "DEFAULT_MAX_TOKENS = 4096"

subsection \<open>The request\<close>

fun join_lines :: "string list \<Rightarrow> string" where
  "join_lines [] = []"
| "join_lines [s] = s"
| "join_lines (s # t # ss) = s @ CHR 0x0A # join_lines (t # ss)"

definition system_text :: "chat_request \<Rightarrow> string" where
  "system_text req = join_lines (map msg_content (filter (\<lambda>m. msg_role m = System) (messages req)))"

definition conversation :: "chat_request \<Rightarrow> chat_message list" where
  "conversation req = filter (\<lambda>m. msg_role m \<noteq> System) (messages req)"

definition stop_sequences :: "stop_seq \<Rightarrow> json" where
  "stop_sequences v = JArr (map JStr (case v of StopStr s \<Rightarrow> [s] | StopList ss \<Rightarrow> ss))"

text \<open>\<open>request.max_tokens or DEFAULT_MAX_TOKENS\<close>; the flag is \<open>request.stream\<close>, or \<open>True\<close> when streaming.\<close>

definition anthropic_payload :: "bool \<Rightarrow> chat_request \<Rightarrow> jobj" where
  "anthropic_payload streaming req =
     [(''model'', JStr (req_model req)), (''messages'', JArr (map message_json (conversation req))),
      (''max_tokens'', JInt (case max_tokens req of Some n \<Rightarrow> if n = 0 then DEFAULT_MAX_TOKENS else n
                                                  | None \<Rightarrow> DEFAULT_MAX_TOKENS)),
      (''temperature'', JFloat (frepr (temperature req))), (''stream'', JBool streaming)]
     @ (if system_text req \<noteq> [] then [(''system'', JStr (system_text req))] else [])
     @ opt_field ''top_p'' (\<lambda>f. JFloat (frepr f)) (top_p req)
     @ opt_field ''stop_sequences'' stop_sequences (stop req)"

definition messages_url :: "provider \<Rightarrow> string" where
  "messages_url p = adapter_base_url p @ ''/v1/messages''"

definition anthropic_headers :: "provider \<Rightarrow> (string \<times> string) list" where
  "anthropic_headers p =
     [(''x-api-key'', case api_key p of Some k \<Rightarrow> k | None \<Rightarrow> []), (''anthropic-version'', ANTHROPIC_VERSION)]"

subsection \<open>The response\<close>

text \<open>\<open>_STOP_REASON_MAP.get(v, "stop")\<close>: a list or an object has no hash.\<close>

definition stop_reason :: "json \<Rightarrow> exn + finish_reason" where
  "stop_reason v =
     (case v of
        JStr s \<Rightarrow> Inr (if s = ''max_tokens'' then Length else Stop)
      | JArr vs \<Rightarrow> Inl TypeErr
      | JObj ms \<Rightarrow> Inl TypeErr
      | _ \<Rightarrow> Inr Stop)"

text \<open>The first text block; the generator looks no further.\<close>

fun first_text :: "json list \<Rightarrow> exn + json" where
  "first_text [] = Inr (JStr [])"
| "first_text (block # blocks) =
     bind_res (py_get block ''type'' JNull) (\<lambda>t.
       if t = JStr ''text'' then py_getitem block ''text'' else first_text blocks)"

text \<open>Python's \<open>+\<close> on decoded values.\<close>

fun is_number :: "json \<Rightarrow> bool" where
  "is_number (JInt i) = True"
| "is_number (JBool b) = True"
| "is_number (JFloat t) = True"
| "is_number _ = False"

definition py_add :: "(json \<Rightarrow> json \<Rightarrow> json) \<Rightarrow> json \<Rightarrow> json \<Rightarrow> exn + json" where
  "py_add fadd x y =
     (case (int_instance x, int_instance y) of
        (Some i, Some j) \<Rightarrow> Inr (JInt (i + j))
      | _ \<Rightarrow>
          (if is_number x \<and> is_number y then Inr (fadd x y)
           else
             (case (x, y) of
                (JStr s, JStr t) \<Rightarrow> Inr (JStr (s @ t))
              | (JArr vs, JArr ws) \<Rightarrow> Inr (JArr (vs @ ws))
              | _ \<Rightarrow> Inl TypeErr)))"

text \<open>One field of \<open>Usage(...)\<close>: the validator, then the coercion.\<close>

definition usage_count :: "(json \<Rightarrow> int option) \<Rightarrow> json \<Rightarrow> exn + int" where
  "usage_count coerce v =
     (case coerce (never_negative v) of
        None \<Rightarrow> Inl (ValueErr ''validation error for Usage'')
      | Some n \<Rightarrow> Inr n)"

definition as_field :: "(json \<Rightarrow> 'a option) \<Rightarrow> json \<Rightarrow> exn + 'a" where
  "as_field f v = (case f v of None \<Rightarrow> Inl validation_error | Some x \<Rightarrow> Inr x)"

definition build_response ::
    "(json \<Rightarrow> int option) \<Rightarrow> (json \<Rightarrow> json \<Rightarrow> json) \<Rightarrow> int \<Rightarrow> json \<Rightarrow> exn + chat_response" where
  "build_response coerce fadd now data =
     bind_res (py_getitem data ''content'') (\<lambda>content.
     bind_res (py_iter content) (\<lambda>blocks.
     bind_res (first_text blocks) (\<lambda>text.
     bind_res (py_getitem data ''usage'') (\<lambda>us.
     bind_res (py_getitem data ''id'') (\<lambda>i.
     bind_res (py_getitem data ''model'') (\<lambda>m.
     bind_res (as_field as_content text) (\<lambda>body.
     bind_res (py_get data ''stop_reason'' (JStr [])) (\<lambda>sr.
     bind_res (stop_reason sr) (\<lambda>finish.
     bind_res (py_getitem us ''input_tokens'') (\<lambda>inp.
     bind_res (py_getitem us ''output_tokens'') (\<lambda>out.
     bind_res (py_add fadd inp out) (\<lambda>tot.
     bind_res (usage_count coerce inp) (\<lambda>p.
     bind_res (usage_count coerce out) (\<lambda>c.
     bind_res (usage_count coerce tot) (\<lambda>t.
     bind_res (as_field as_str i) (\<lambda>ident.
     bind_res (as_field as_str m) (\<lambda>model.
       Inr \<lparr>resp_id = ident, resp_created = now, resp_model = model,
            choices = [\<lparr>choice_index = 0, choice_message = \<lparr>msg_role = Assistant, msg_content = body\<rparr>,
                        choice_finish = finish\<rparr>],
            resp_usage = \<lparr>prompt_tokens = p, completion_tokens = c, total_tokens = t\<rparr>\<rparr>)))))))))))))))))"

definition anthropic_chat_completion ::
    "'w http_client \<Rightarrow> (json \<Rightarrow> int option) \<Rightarrow> (json \<Rightarrow> json \<Rightarrow> json) \<Rightarrow> ('w \<Rightarrow> int) \<Rightarrow> string option \<Rightarrow>
     ('w, chat_response) provider_call" where
  "anthropic_chat_completion http coerce fadd now request_id p req w =
     (case base_post http request_id p (messages_url p) (anthropic_headers p) (anthropic_payload (stream req) req) w of
        (Inl e, w') \<Rightarrow> (Inl e, w')
      | (Inr body, w') \<Rightarrow> (parse_response (provider_name p) body (build_response coerce fadd (now w')), w'))"

subsection \<open>The event stream\<close>

record anthropic_state =
  as_chunk_id :: json
  as_model :: json
  as_input_tokens :: int
  as_done_sent :: bool

definition anthropic_start :: "chat_request \<Rightarrow> anthropic_state" where
  "anthropic_start req =
     \<lparr>as_chunk_id = JStr [], as_model = JStr (req_model req), as_input_tokens = 0, as_done_sent = False\<rparr>"

text \<open>\<open>int(v)\<close> on a decoded value.\<close>

definition py_int_of :: "(string \<Rightarrow> exn + int) \<Rightarrow> json \<Rightarrow> exn + int" where
  "py_int_of trunc v =
     (case v of
        JInt i \<Rightarrow> Inr i
      | JBool b \<Rightarrow> Inr (if b then 1 else 0)
      | JFloat t \<Rightarrow> trunc t
      | JStr s \<Rightarrow>
          (case py_int s of None \<Rightarrow> Inl (ValueErr ''invalid literal for int() with base 10'') | Some i \<Rightarrow> Inr i)
      | _ \<Rightarrow> Inl TypeErr)"

text \<open>A Python value passed as a keyword that defaults to \<open>None\<close>.\<close>

definition not_none :: "json \<Rightarrow> json option" where
  "not_none v = (if v = JNull then None else Some v)"

definition usage_triple :: "int \<Rightarrow> int \<Rightarrow> jobj" where
  "usage_triple inp out =
     [(''prompt_tokens'', JInt inp), (''completion_tokens'', JInt out), (''total_tokens'', JInt (inp + out))]"

text \<open>\<open>_chunk\<close>: the same event as \<open>_sse_chunk\<close> of \<open>services/streaming.py\<close> builds.\<close>

definition anthropic_chunk ::
    "int \<Rightarrow> json \<Rightarrow> json \<Rightarrow> string option \<Rightarrow> json option \<Rightarrow> finish_reason option \<Rightarrow> jobj option \<Rightarrow> string" where
  "anthropic_chunk now chunk_id model role content finish_reason us =
     (let delta = opt_field ''role'' JStr role @ opt_field ''content'' id content;
          payload =
            [(''id'', chunk_id), (''object'', JStr ''chat.completion.chunk''), (''created'', JInt now), (''model'', model),
             (''choices'', JArr [JObj [(''index'', JInt 0), (''delta'', JObj delta),
                (''finish_reason'', case finish_reason of None \<Rightarrow> JNull | Some r \<Rightarrow> JStr (finish_text r))]])]
            @ opt_field ''usage'' JObj us
      in ''data: '' @ dumps (JObj payload) @ [CHR 0x0A, CHR 0x0A])"

lemma anthropic_chunk_sse [simp]: "anthropic_chunk = sse_chunk"
  by (intro ext) (simp add: anthropic_chunk_def sse_chunk_def sse_event_def chunk_payload_def chunk_delta_def finish_json_def Let_def)

definition on_message_start ::
    "(string \<Rightarrow> exn + int) \<Rightarrow> int \<Rightarrow> json \<Rightarrow> anthropic_state \<Rightarrow> exn + string list \<times> anthropic_state" where
  "on_message_start trunc now event s =
     bind_res (py_get event ''message'' (JObj [])) (\<lambda>message.
     bind_res (py_get message ''id'' (as_chunk_id s)) (\<lambda>i.
     bind_res (py_get message ''model'' (as_model s)) (\<lambda>m.
     bind_res (py_get message ''usage'' JNull) (\<lambda>u1.
     bind_res (if py_truthy u1 then Inr u1 else py_get event ''usage'' JNull) (\<lambda>us.
     bind_res
       (if is_dict us then
          bind_res (py_get us ''input_tokens'' (JInt (as_input_tokens s))) (py_int_of trunc)
        else Inr (as_input_tokens s)) (\<lambda>n.
       Inr ([anthropic_chunk now i m (Some ''assistant'') None None None],
            s\<lparr>as_chunk_id := i, as_model := m, as_input_tokens := n\<rparr>)))))))"

definition on_content_block_delta ::
    "int \<Rightarrow> json \<Rightarrow> anthropic_state \<Rightarrow> exn + string list \<times> anthropic_state" where
  "on_content_block_delta now event s =
     bind_res (py_get event ''delta'' (JObj [])) (\<lambda>delta.
     bind_res (py_get delta ''type'' JNull) (\<lambda>t.
       if t = JStr ''text_delta'' then
         bind_res (py_get delta ''text'' (JStr [])) (\<lambda>text.
           Inr ([anthropic_chunk now (as_chunk_id s) (as_model s) None (not_none text) None None], s))
       else Inr ([], s)))"

definition on_message_delta ::
    "(string \<Rightarrow> exn + int) \<Rightarrow> int \<Rightarrow> json \<Rightarrow> anthropic_state \<Rightarrow> exn + string list \<times> anthropic_state" where
  "on_message_delta trunc now event s =
     bind_res (py_get event ''delta'' (JObj [])) (\<lambda>delta.
     bind_res (py_get delta ''stop_reason'' (JStr [])) (\<lambda>sr.
     bind_res (stop_reason sr) (\<lambda>finish.
     bind_res (py_get event ''usage'' JNull) (\<lambda>us.
     bind_res (if is_dict us then bind_res (py_get us ''output_tokens'' (JInt 0)) (py_int_of trunc) else Inr 0) (\<lambda>out.
       Inr ([anthropic_chunk now (as_chunk_id s) (as_model s) None None (Some finish)
               (Some (usage_triple (as_input_tokens s) out))], s))))))"

text \<open>The body of the loop: the events a line is translated to, and the next state.\<close>

definition anthropic_line ::
    "(string \<Rightarrow> exn + int) \<Rightarrow> int \<Rightarrow> string \<Rightarrow> anthropic_state \<Rightarrow> exn + string list \<times> anthropic_state" where
  "anthropic_line trunc now line s =
     (if \<not> py_startswith line ''data: '' then Inr ([], s)
      else
        (case loads (py_strip (drop 6 line)) of
           None \<Rightarrow> Inr ([], s)
         | Some event \<Rightarrow>
             bind_res (py_get event ''type'' JNull) (\<lambda>t.
               if t = JStr ''message_start'' then on_message_start trunc now event s
               else if t = JStr ''content_block_delta'' then on_content_block_delta now event s
               else if t = JStr ''message_delta'' then on_message_delta trunc now event s
               else if t = JStr ''message_stop'' then Inr ([sse_done], s\<lparr>as_done_sent := True\<rparr>)
               else Inr ([], s))))"

text \<open>The loop and its end: a line that cannot be translated, the failure of the transport, or the end marker when none was sent.\<close>

fun anthropic_events ::
    "(string \<Rightarrow> exn + int) \<Rightarrow> int \<Rightarrow> string list \<Rightarrow> exn option \<Rightarrow> anthropic_state \<Rightarrow> string list \<times> exn option" where
  "anthropic_events trunc now [] failure s =
     (case failure of
        Some e \<Rightarrow> ([], Some e)
      | None \<Rightarrow> (if as_done_sent s then [] else [sse_done], None))"
| "anthropic_events trunc now (line # lines) failure s =
     (case anthropic_line trunc now line s of
        Inl e \<Rightarrow> ([], Some e)
      | Inr (out, s') \<Rightarrow>
          (case anthropic_events trunc now lines failure s' of (rest, e) \<Rightarrow> (out @ rest, e)))"

definition anthropic_stream_chat_completion ::
    "'w http_client \<Rightarrow> (string \<Rightarrow> exn + int) \<Rightarrow> ('w \<Rightarrow> int) \<Rightarrow> string option \<Rightarrow> 'w stream_call" where
  "anthropic_stream_chat_completion http trunc now request_id p req w =
     (case iter_sse_lines http request_id p (messages_url p) (anthropic_headers p) (anthropic_payload True req) w of
        ((lines, e), w') \<Rightarrow> (anthropic_events trunc (now w') lines e (anthropic_start req), w'))"

subsection \<open>The adapter of a provider\<close>

text \<open>The method of the class a provider is an instance of.\<close>

definition provider_chat ::
    "'w http_client \<Rightarrow> (json \<Rightarrow> int option) \<Rightarrow> (json \<Rightarrow> json \<Rightarrow> json) \<Rightarrow> ('w \<Rightarrow> int) \<Rightarrow> string option \<Rightarrow>
     ('w, chat_response) provider_call" where
  "provider_chat http coerce fadd now request_id p req w =
     (case adapter_class p of
        OpenAIAdapter \<Rightarrow> openai_chat_completion http coerce request_id p req w
      | MistralAdapter \<Rightarrow> mistral_chat_completion http coerce request_id p req w
      | AnthropicAdapter \<Rightarrow> anthropic_chat_completion http coerce fadd now request_id p req w)"

definition provider_stream ::
    "'w http_client \<Rightarrow> (string \<Rightarrow> exn + int) \<Rightarrow> ('w \<Rightarrow> int) \<Rightarrow> string option \<Rightarrow> 'w stream_call" where
  "provider_stream http trunc now request_id p req w =
     (case adapter_class p of
        OpenAIAdapter \<Rightarrow> openai_stream_chat_completion http request_id p req w
      | MistralAdapter \<Rightarrow> mistral_stream_chat_completion http request_id p req w
      | AnthropicAdapter \<Rightarrow> anthropic_stream_chat_completion http trunc now request_id p req w)"

subsection \<open>What a documented answer looks like\<close>

text \<open>
  An answer, the body it comes as, and the lines it is streamed as: its content is a list of blocks, texts in the pieces they are
  streamed in, and others (a call of a tool, a thought) with their kind, the kind of their pieces and these.
\<close>

datatype block =
    TextBlock "string list"
  | OtherBlock string string "string list"

record answer =
  an_id :: string
  an_model :: string
  an_blocks :: "block list"
  an_stop :: string
  an_input :: int
  an_output :: int

fun block_texts :: "block \<Rightarrow> string list" where
  "block_texts (TextBlock ts) = ts"
| "block_texts (OtherBlock k d ps) = []"

fun block_ok :: "block \<Rightarrow> bool" where
  "block_ok (TextBlock ts) = True"
| "block_ok (OtherBlock k d ps) = (k \<noteq> ''text'' \<and> d \<noteq> ''text_delta'')"

text \<open>All the pieces of text, and the first text block.\<close>

definition an_texts :: "answer \<Rightarrow> string list" where
  "an_texts a = concat (map block_texts (an_blocks a))"

fun first_block :: "block list \<Rightarrow> string" where
  "first_block [] = []"
| "first_block (TextBlock ts # bs) = concat ts"
| "first_block (OtherBlock k d ps # bs) = first_block bs"

fun block_body :: "block \<Rightarrow> json" where
  "block_body (TextBlock ts) = JObj [(''type'', JStr ''text''), (''text'', JStr (concat ts))]"
| "block_body (OtherBlock k d ps) = JObj [(''type'', JStr k), (''input'', JStr (concat ps))]"

definition answer_body :: "answer \<Rightarrow> json" where
  "answer_body a =
     JObj [(''id'', JStr (an_id a)), (''model'', JStr (an_model a)), (''content'', JArr (map block_body (an_blocks a))),
           (''stop_reason'', JStr (an_stop a)),
           (''usage'', JObj [(''input_tokens'', JInt (an_input a)), (''output_tokens'', JInt (an_output a))])]"

definition data_line :: "json \<Rightarrow> string" where
  "data_line v = ''data: '' @ dumps v"

definition start_event :: "answer \<Rightarrow> json" where
  "start_event a =
     JObj [(''type'', JStr ''message_start''),
           (''message'', JObj [(''id'', JStr (an_id a)), (''model'', JStr (an_model a)),
                               (''usage'', JObj [(''input_tokens'', JInt (an_input a))])])]"

definition text_event :: "string \<Rightarrow> json" where
  "text_event t =
     JObj [(''type'', JStr ''content_block_delta''),
           (''delta'', JObj [(''type'', JStr ''text_delta''), (''text'', JStr t)])]"

definition end_event :: "answer \<Rightarrow> json" where
  "end_event a =
     JObj [(''type'', JStr ''message_delta''), (''delta'', JObj [(''stop_reason'', JStr (an_stop a))]),
           (''usage'', JObj [(''output_tokens'', JInt (an_output a))])]"

definition stop_event :: json where
  "stop_event = JObj [(''type'', JStr ''message_stop'')]"

definition block_start :: "string \<Rightarrow> json" where
  "block_start k = JObj [(''type'', JStr ''content_block_start''), (''content_block'', JObj [(''type'', JStr k)])]"

definition block_stop :: json where
  "block_stop = JObj [(''type'', JStr ''content_block_stop'')]"

definition other_event :: "string \<Rightarrow> string \<Rightarrow> json" where
  "other_event d p =
     JObj [(''type'', JStr ''content_block_delta''), (''delta'', JObj [(''type'', JStr d), (''partial'', JStr p)])]"

fun block_lines :: "block \<Rightarrow> string list" where
  "block_lines (TextBlock ts) =
     data_line (block_start ''text'') # map (data_line \<circ> text_event) ts @ [data_line block_stop]"
| "block_lines (OtherBlock k d ps) =
     data_line (block_start k) # map (data_line \<circ> other_event d) ps @ [data_line block_stop]"

definition answer_lines :: "answer \<Rightarrow> string list" where
  "answer_lines a =
     data_line (start_event a) # concat (map block_lines (an_blocks a)) @ [data_line (end_event a), data_line stop_event]"

text \<open>The chunks it is translated to.\<close>

definition answer_finish :: "answer \<Rightarrow> finish_reason" where
  "answer_finish a = (if an_stop a = ''max_tokens'' then Length else Stop)"

definition answer_usage :: "answer \<Rightarrow> usage" where
  "answer_usage a =
     \<lparr>prompt_tokens = an_input a, completion_tokens = an_output a, total_tokens = an_input a + an_output a\<rparr>"

definition answer_chunk ::
    "answer \<Rightarrow> string option \<Rightarrow> string option \<Rightarrow> finish_reason option \<Rightarrow> usage option \<Rightarrow> out_chunk" where
  "answer_chunk a role content f u =
     \<lparr>oc_id = an_id a, oc_model = an_model a, oc_role = role, oc_content = content, oc_finish = f, oc_usage = u\<rparr>"

definition answer_chunks :: "answer \<Rightarrow> out_chunk list" where
  "answer_chunks a =
     answer_chunk a (Some ''assistant'') None None None #
     map (\<lambda>t. answer_chunk a None (Some t) None None) (an_texts a) @
     [answer_chunk a None None (Some (answer_finish a)) (Some (answer_usage a))]"

subsection \<open>Lemmas\<close>

lemma data_line_read:
  assumes "json_wf (JObj ms)"
  shows "py_startswith (data_line (JObj ms)) ''data: ''" "loads (py_strip (drop 6 (data_line (JObj ms)))) = Some (JObj ms)"
proof -
  have "py_strip (dumps (JObj ms)) = dumps (JObj ms)"
    using dumps_ends [OF assms] by (intro py_strip_id) (simp_all add: py_space_def)
  then show "loads (py_strip (drop 6 (data_line (JObj ms)))) = Some (JObj ms)"
    using sse_codec.read_print [OF assms] by (simp add: data_line_def)
qed (simp add: data_line_def py_startswith_def)

lemma anthropic_line_data:
  assumes "json_wf (JObj ms)"
  shows "anthropic_line trunc now (data_line (JObj ms)) s =
     bind_res (py_get (JObj ms) ''type'' JNull) (\<lambda>t.
       if t = JStr ''message_start'' then on_message_start trunc now (JObj ms) s
       else if t = JStr ''content_block_delta'' then on_content_block_delta now (JObj ms) s
       else if t = JStr ''message_delta'' then on_message_delta trunc now (JObj ms) s
       else if t = JStr ''message_stop'' then Inr ([sse_done], s\<lparr>as_done_sent := True\<rparr>)
       else Inr ([], s))"
  using data_line_read [OF assms] by (simp add: anthropic_line_def)

definition following :: "answer \<Rightarrow> bool \<Rightarrow> anthropic_state" where
  "following a finished =
     \<lparr>as_chunk_id = JStr (an_id a), as_model = JStr (an_model a), as_input_tokens = an_input a, as_done_sent = finished\<rparr>"

lemma start_event_line:
  "anthropic_line trunc now (data_line (start_event a)) (anthropic_start req) =
     Inr ([chunk_event now (answer_chunk a (Some ''assistant'') None None None)], following a False)"
  unfolding start_event_def
  by (subst anthropic_line_data)
    (simp_all add: on_message_start_def py_int_of_def anthropic_start_def following_def chunk_event_def answer_chunk_def)

lemma text_event_line:
  "anthropic_line trunc now (data_line (text_event t)) (following a x) =
     Inr ([chunk_event now (answer_chunk a None (Some t) None None)], following a x)"
  unfolding text_event_def
  by (subst anthropic_line_data)
    (simp_all add: on_content_block_delta_def following_def chunk_event_def answer_chunk_def not_none_def)

lemma end_event_line:
  "anthropic_line trunc now (data_line (end_event a)) (following a x) =
     Inr ([chunk_event now (answer_chunk a None None (Some (answer_finish a)) (Some (answer_usage a)))], following a x)"
  unfolding end_event_def
  by (subst anthropic_line_data)
    (simp_all add: on_message_delta_def following_def chunk_event_def answer_chunk_def stop_reason_def py_int_of_def
      answer_finish_def answer_usage_def usage_triple_def usage_fields_def)

lemma stop_event_line:
  "anthropic_line trunc now (data_line stop_event) s = Inr ([sse_done], s\<lparr>as_done_sent := True\<rparr>)"
  unfolding stop_event_def by (subst anthropic_line_data) simp_all

lemma text_events:
  "anthropic_events trunc now (map (data_line \<circ> text_event) ts @ lines) e (following a x) =
     (case anthropic_events trunc now lines e (following a x) of
        (rest, e') \<Rightarrow> (map (\<lambda>t. chunk_event now (answer_chunk a None (Some t) None None)) ts @ rest, e'))"
  by (induction ts) (simp_all add: text_event_line split: prod.splits)

text \<open>Events that are translated to nothing.\<close>

lemma silent_lines:
  "anthropic_line trunc now (data_line (block_start k)) s = Inr ([], s)"
  "anthropic_line trunc now (data_line block_stop) s = Inr ([], s)"
  "d \<noteq> ''text_delta'' \<Longrightarrow> anthropic_line trunc now (data_line (other_event d p)) s = Inr ([], s)"
proof -
  show "anthropic_line trunc now (data_line (block_start k)) s = Inr ([], s)"
    unfolding block_start_def by (subst anthropic_line_data) simp_all
  show "anthropic_line trunc now (data_line block_stop) s = Inr ([], s)"
    unfolding block_stop_def by (subst anthropic_line_data) simp_all
  show "d \<noteq> ''text_delta'' \<Longrightarrow> anthropic_line trunc now (data_line (other_event d p)) s = Inr ([], s)"
    unfolding other_event_def by (subst anthropic_line_data) (simp_all add: on_content_block_delta_def)
qed

lemma other_events:
  "d \<noteq> ''text_delta'' \<Longrightarrow>
     anthropic_events trunc now (map (data_line \<circ> other_event d) ps @ lines) e s = anthropic_events trunc now lines e s"
  by (induction ps) (simp_all add: silent_lines)

lemma block_events:
  "block_ok b \<Longrightarrow>
     anthropic_events trunc now (block_lines b @ lines) e (following a x) =
       (case anthropic_events trunc now lines e (following a x) of
          (rest, e') \<Rightarrow> (map (\<lambda>t. chunk_event now (answer_chunk a None (Some t) None None)) (block_texts b) @ rest, e'))"
  using text_events [of trunc now "block_texts b" "data_line block_stop # lines" e a x]
  by (cases b) (simp_all add: silent_lines other_events split: prod.splits)

lemma blocks_events:
  "list_all block_ok bs \<Longrightarrow>
     anthropic_events trunc now (concat (map block_lines bs) @ lines) e (following a x) =
       (case anthropic_events trunc now lines e (following a x) of
          (rest, e') \<Rightarrow>
            (map (\<lambda>t. chunk_event now (answer_chunk a None (Some t) None None)) (concat (map block_texts bs)) @ rest, e'))"
  by (induction bs) (simp_all add: block_events split: prod.splits)

lemma answer_events:
  assumes "list_all block_ok (an_blocks a)"
  shows "anthropic_events trunc now (answer_lines a) None (anthropic_start req) =
     (map (chunk_event now) (answer_chunks a) @ [sse_done], None)"
  by (simp add: answer_lines_def answer_chunks_def start_event_line blocks_events [OF assms] end_event_line
      stop_event_line an_texts_def comp_def)

lemma answer_chunks_ok: "0 \<le> an_input a \<Longrightarrow> 0 \<le> an_output a \<Longrightarrow> list_all chunk_ok (answer_chunks a)"
  by (simp add: answer_chunks_def answer_chunk_def chunk_ok_def answer_usage_def usage_nonneg_def list_all_iff)

lemma fold_text_chunks:
  "re_id s = an_id a \<Longrightarrow> re_model s = an_model a \<Longrightarrow>
     fold reply_step (map (\<lambda>t. answer_chunk a None (Some t) None None) ts) s =
       s\<lparr>re_text := re_text s @ concat ts, re_seen := re_seen s \<or> ts \<noteq> []\<rparr>"
  by (induction ts arbitrary: s) (simp_all add: reply_step_def answer_chunk_def or_else_def)

lemma answer_reply:
  "spec_reply (answer_chunks a) =
     \<lparr>re_id = an_id a, re_model = an_model a, re_text = concat (an_texts a), re_finish = answer_finish a,
      re_usage = answer_usage a, re_seen = True\<rparr>"
proof -
  have "reply_step (answer_chunk a (Some ''assistant'') None None None) no_reply =
      no_reply\<lparr>re_id := an_id a, re_model := an_model a, re_seen := True\<rparr>"
    by (simp add: reply_step_def answer_chunk_def no_reply_def or_else_def)
  then show ?thesis
    by (simp add: spec_reply_def answer_chunks_def fold_text_chunks)
      (simp add: reply_step_def answer_chunk_def or_else_def no_reply_def)
qed

lemma first_text_block: "list_all block_ok bs \<Longrightarrow> first_text (map block_body bs) = Inr (JStr (first_block bs))"
  by (induction bs rule: first_block.induct) simp_all

lemma first_block_fits:
  "list_all block_ok bs \<Longrightarrow> length (first_block bs) \<le> length (concat (concat (map block_texts bs)))"
  by (induction bs rule: first_block.induct) simp_all

text \<open>The response of a body: that of the stream, with the first text block as its text.\<close>

definition with_text :: "string \<Rightarrow> chat_response \<Rightarrow> chat_response" where
  "with_text t r = r\<lparr>choices := map (\<lambda>c. c\<lparr>choice_message := (choice_message c)\<lparr>msg_content := t\<rparr>\<rparr>) (choices r)\<rparr>"

lemma build_answer:
  assumes "\<And>i. coerce (JInt i) = Some i" and "0 \<le> an_input a" and "0 \<le> an_output a"
    and "length (concat (an_texts a)) \<le> max_content" and "an_id a \<noteq> []" and "list_all block_ok (an_blocks a)"
  shows "build_response coerce fadd now (answer_body a) =
    Inr (with_text (first_block (an_blocks a)) (reply_response now (spec_reply (answer_chunks a))))"
proof -
  have "length (first_block (an_blocks a)) \<le> max_content"
    using first_block_fits [OF assms(6)] assms(4) by (simp add: an_texts_def)
  then show ?thesis
    using assms
    by (simp add: build_response_def answer_body_def as_field_def as_content_def stop_reason_def py_add_def usage_count_def
        reply_response_def answer_reply answer_finish_def answer_usage_def first_text_block with_text_def not_less [symmetric])
qed

text \<open>What escapes the wrapping of unreadable bodies.\<close>

definition body_error :: "exn \<Rightarrow> bool" where
  "body_error e \<longleftrightarrow> is_value_or_key_error e \<or> e = TypeErr \<or> e = AttributeErr"

definition fails_as_body :: "exn + 'a \<Rightarrow> bool" where
  "fails_as_body m \<longleftrightarrow> (\<forall>e. m = Inl e \<longrightarrow> body_error e)"

lemma fails_as_body_Inr: "fails_as_body (Inr x)"
  by (simp add: fails_as_body_def)

lemma fails_as_body_bind:
  "fails_as_body m \<Longrightarrow> (\<And>a. fails_as_body (f a)) \<Longrightarrow> fails_as_body (bind_res m f)"
  by (cases m) (auto simp: fails_as_body_def)

lemma dynamic_errors:
  "fails_as_body (py_get x k d)" "fails_as_body (py_getitem x k)" "fails_as_body (py_iter x)"
  "fails_as_body (stop_reason x)" "fails_as_body (py_add fadd x y)" "fails_as_body (usage_count coerce x)"
  "fails_as_body (as_field f x)"
proof -
  show "fails_as_body (py_get x k d)" by (cases x) (auto simp: fails_as_body_def body_error_def)
  show "fails_as_body (py_getitem x k)" by (cases x) (auto simp: fails_as_body_def body_error_def split: option.splits)
  show "fails_as_body (py_iter x)" by (cases x) (auto simp: fails_as_body_def body_error_def)
  show "fails_as_body (stop_reason x)" by (cases x) (auto simp: fails_as_body_def body_error_def stop_reason_def)
  show "fails_as_body (py_add fadd x y)"
    by (cases x; cases y) (simp_all add: fails_as_body_def body_error_def py_add_def)
  show "fails_as_body (usage_count coerce x)"
    by (auto simp: fails_as_body_def body_error_def usage_count_def split: option.splits)
  show "fails_as_body (as_field f x)"
    by (auto simp: fails_as_body_def body_error_def as_field_def validation_error_def split: option.splits)
qed

lemma first_text_error: "fails_as_body (first_text bs)"
proof (induction bs)
  case (Cons b bs)
  then show ?case by (simp add: fails_as_body_bind dynamic_errors)
qed (simp add: fails_as_body_def)

lemma build_response_error: "fails_as_body (build_response coerce fadd now data)"
  unfolding build_response_def
  by (intro fails_as_body_bind fails_as_body_Inr dynamic_errors first_text_error)

lemma handlers_keep_done:
  "on_message_start trunc now event s = Inr (out, s') \<Longrightarrow> as_done_sent s' = as_done_sent s"
  "on_content_block_delta now event s = Inr (out, s') \<Longrightarrow> as_done_sent s' = as_done_sent s"
  "on_message_delta trunc now event s = Inr (out, s') \<Longrightarrow> as_done_sent s' = as_done_sent s"
proof -
  show "on_message_start trunc now event s = Inr (out, s') \<Longrightarrow> as_done_sent s' = as_done_sent s"
    by (clarsimp simp: on_message_start_def bind_res_Inr_iff)
  show "on_content_block_delta now event s = Inr (out, s') \<Longrightarrow> as_done_sent s' = as_done_sent s"
    unfolding on_content_block_delta_def bind_res_Inr_iff by (elim exE conjE) (auto simp: bind_res_Inr_iff split: if_splits)
  show "on_message_delta trunc now event s = Inr (out, s') \<Longrightarrow> as_done_sent s' = as_done_sent s"
    by (clarsimp simp: on_message_delta_def bind_res_Inr_iff)
qed

text \<open>A line that says the message is over.\<close>

definition is_stop :: "string \<Rightarrow> bool" where
  "is_stop line \<longleftrightarrow>
     py_startswith line ''data: '' \<and>
     (\<exists>event. loads (py_strip (drop 6 line)) = Some event \<and> py_get event ''type'' JNull = Inr (JStr ''message_stop''))"

lemma chunk_not_done [simp]: "sse_chunk now i m role c f u \<noteq> sse_done"
  by (simp add: sse_chunk_def sse_event_def sse_done_def chunk_payload_def dumps_def)

lemma handlers_send_chunks:
  "on_message_start trunc now event s = Inr (out, s') \<Longrightarrow> sse_done \<notin> set out"
  "on_content_block_delta now event s = Inr (out, s') \<Longrightarrow> sse_done \<notin> set out"
  "on_message_delta trunc now event s = Inr (out, s') \<Longrightarrow> sse_done \<notin> set out"
proof -
  note sent = chunk_not_done [symmetric]
  show "on_message_start trunc now event s = Inr (out, s') \<Longrightarrow> sse_done \<notin> set out"
    by (clarsimp simp: on_message_start_def bind_res_Inr_iff sent)
  show "on_content_block_delta now event s = Inr (out, s') \<Longrightarrow> sse_done \<notin> set out"
    unfolding on_content_block_delta_def bind_res_Inr_iff
    by (elim exE conjE) (auto simp: bind_res_Inr_iff sent split: if_splits)
  show "on_message_delta trunc now event s = Inr (out, s') \<Longrightarrow> sse_done \<notin> set out"
    by (clarsimp simp: on_message_delta_def bind_res_Inr_iff sent)
qed

lemma anthropic_line_done:
  assumes "anthropic_line trunc now line s = Inr (out, s')"
  shows "if is_stop line then out = [sse_done] \<and> as_done_sent s'
         else sse_done \<notin> set out \<and> as_done_sent s' = as_done_sent s"
proof (cases "py_startswith line ''data: '' \<and> loads (py_strip (drop 6 line)) \<noteq> None")
  case True
  then obtain event where e: "loads (py_strip (drop 6 line)) = Some event" by blast
  obtain t where t: "py_get event ''type'' JNull = Inr t"
    using assms(1) True e by (auto simp: anthropic_line_def bind_res_Inr_iff)
  then have stop: "is_stop line \<longleftrightarrow> t = JStr ''message_stop''" using True e by (simp add: is_stop_def)
  show ?thesis
    using assms True e t handlers_keep_done handlers_send_chunks unfolding stop
    by (auto simp: anthropic_line_def split: if_splits)
next
  case False
  then show ?thesis using assms by (auto simp: anthropic_line_def is_stop_def split: if_splits option.splits)
qed

text \<open>No event comes after the message is over.\<close>

definition stops_last :: "string list \<Rightarrow> bool" where
  "stops_last lines \<longleftrightarrow>
     (\<forall>us line vs. lines = us @ line # vs \<longrightarrow> is_stop line \<longrightarrow> list_all (\<lambda>v. \<not> py_startswith v ''data: '') vs)"

lemma stops_last_Cons:
  "stops_last (line # lines) \<Longrightarrow>
     stops_last lines \<and> (is_stop line \<longrightarrow> list_all (\<lambda>v. \<not> py_startswith v ''data: '') lines)"
  unfolding stops_last_def by (metis append_Cons append_Nil)

lemma blank_events:
  "list_all (\<lambda>v. \<not> py_startswith v ''data: '') lines \<Longrightarrow> as_done_sent s \<Longrightarrow>
     anthropic_events trunc now lines None s = ([], None)"
  by (induction lines) (simp_all add: anthropic_line_def)

lemma anthropic_events_end:
  "\<not> as_done_sent s \<Longrightarrow> stops_last lines \<Longrightarrow> anthropic_events trunc now lines None s = (out, fin) \<Longrightarrow>
     (case fin of
        None \<Rightarrow> \<exists>sent. out = sent @ [sse_done] \<and> sse_done \<notin> set sent
      | Some e \<Rightarrow> sse_done \<notin> set out \<and> (\<exists>line \<in> set lines. \<exists>s. anthropic_line trunc now line s = Inl e))"
proof (induction lines arbitrary: s out)
  case (Cons line lines)
  show ?case
  proof (cases "anthropic_line trunc now line s")
    case (Inl e)
    then show ?thesis using Cons.prems(3) by auto
  next
    case (Inr r)
    then obtain o1 s1 where r: "anthropic_line trunc now line s = Inr (o1, s1)" by (cases r) auto
    obtain rest where rest: "anthropic_events trunc now lines None s1 = (rest, fin)" "out = o1 @ rest"
      using Cons.prems(3) r by (auto split: prod.splits)
    note line = anthropic_line_done [OF r] and last = stops_last_Cons [OF Cons.prems(2)]
    show ?thesis
    proof (cases "is_stop line")
      case True
      with line last have "anthropic_events trunc now lines None s1 = ([], None)" by (intro blank_events) simp_all
      with rest line True show ?thesis by (cases fin) auto
    next
      case False
      with line Cons.prems(1) Cons.IH [OF _ _ rest(1)] last have
        "case fin of None \<Rightarrow> \<exists>sent. rest = sent @ [sse_done] \<and> sse_done \<notin> set sent
         | Some e \<Rightarrow> sse_done \<notin> set rest \<and> (\<exists>line \<in> set lines. \<exists>s. anthropic_line trunc now line s = Inl e)"
        by simp
      then show ?thesis using rest(2) line False
        by (cases fin) (auto intro: exI [of _ "o1 @ sent" for sent])
    qed
  qed
qed auto

subsection \<open>Properties\<close>

text \<open>
  C26. How the two translations of an Anthropic answer agree, whatever blocks of text, tool calls or thoughts it has: the
  body and the accumulated event stream give the same response (finish reason, identifier, model and usage), and the usage
  captured live for billing is that of the response, but the text is that of the first text block in the one and of
  all text blocks in the other; so they are the same response exactly when the first text block is all the text, as
  it is when there is just one.
\<close>

theorem anthropic_stream_agrees:
  assumes "\<And>i. coerce (JInt i) = Some i" and "0 \<le> an_input a" and "0 \<le> an_output a"
    and "length (concat (an_texts a)) \<le> max_content" and "an_id a \<noteq> []" and "list_all block_ok (an_blocks a)"
  shows "\<exists>r r' lines acc. build_response coerce fadd now (answer_body a) = Inr r \<and>
           anthropic_events trunc t (answer_lines a) None (anthropic_start req) = (lines, None) \<and>
           fold_res feed lines new_accumulator = Inr acc \<and> to_response now acc = Inr r' \<and>
           fold_res capture_usage lines zero_usage = Inr (resp_usage r) \<and> resp_usage r = resp_usage r' \<and>
           map (msg_content \<circ> choice_message) (choices r) = [first_block (an_blocks a)] \<and>
           map (msg_content \<circ> choice_message) (choices r') = [concat (an_texts a)] \<and>
           r = with_text (first_block (an_blocks a)) r' \<and>
           (r = r' \<longleftrightarrow> first_block (an_blocks a) = concat (an_texts a))"
proof -
  let ?s = "spec_reply (answer_chunks a)"
  let ?r' = "reply_response now ?s" and ?r = "with_text (first_block (an_blocks a)) (reply_response now ?s)"
  have ok: "list_all chunk_ok (answer_chunks a)" using assms(2,3) by (rule answer_chunks_ok)
  have "to_response now (rep ?s) = Inr ?r'"
    using assms(4) by (simp add: to_response_rep answer_reply)
  moreover have "fold_res feed (map (chunk_event t) (answer_chunks a) @ [sse_done]) new_accumulator = Inr (rep ?s)"
    "fold_res capture_usage (map (chunk_event t) (answer_chunks a) @ [sse_done]) zero_usage = Inr (re_usage ?s)"
    by (simp_all add: fold_res_append feed_spec capture_spec ok)
  moreover have "resp_usage ?r = re_usage ?s" "resp_usage ?r' = re_usage ?s"
    "map (msg_content \<circ> choice_message) (choices ?r) = [first_block (an_blocks a)]"
    "map (msg_content \<circ> choice_message) (choices ?r') = [concat (an_texts a)]"
    by (simp_all add: with_text_def reply_response_def answer_reply)
  moreover have "?r = ?r' \<longleftrightarrow> first_block (an_blocks a) = concat (an_texts a)"
    by (auto simp: with_text_def reply_response_def answer_reply)
  ultimately show ?thesis
    using build_answer [OF assms, of fadd now] answer_events [OF assms(6), of trunc t req]
    by (intro exI [of _ ?r] exI [of _ ?r'] exI [of _ "map (chunk_event t) (answer_chunks a) @ [sse_done]"] exI [of _ "rep ?s"]) simp
qed

definition sample_answer :: answer where
  "sample_answer =
     \<lparr>an_id = ''msg_1'', an_model = ''claude'',
      an_blocks = [OtherBlock ''tool_use'' ''input_json_delta'' [''1''], TextBlock [''Hel'', ''lo''], TextBlock [''!'']],
      an_stop = ''max_tokens'', an_input = 12, an_output = 2\<rparr>"

theorem anthropic_stream_agrees_witness:
  "\<exists>r r' lines acc. build_response strict_int (\<lambda>x y. x) 7 (answer_body sample_answer) = Inr r \<and>
     anthropic_events (\<lambda>t. Inr 0) 7 (answer_lines sample_answer) None (anthropic_start sample_request) = (lines, None) \<and>
     fold_res feed lines new_accumulator = Inr acc \<and> to_response 7 acc = Inr r' \<and>
     map (msg_content \<circ> choice_message) (choices r) = [''Hello''] \<and> map (msg_content \<circ> choice_message) (choices r') = [''Hello!'']"
  using anthropic_stream_agrees [of strict_int sample_answer "\<lambda>x y. x" 7 "\<lambda>t. Inr 0" 7 sample_request]
  by (auto simp: sample_answer_def max_content_def an_texts_def)

text \<open>With two text blocks the two translations differ.\<close>

lemma second_text_block_lost:
  "build_response strict_int (\<lambda>x y. x) 7 (answer_body sample_answer) =
     Inr (with_text ''Hello'' (reply_response 7 (spec_reply (answer_chunks sample_answer)))) \<and>
   re_text (spec_reply (answer_chunks sample_answer)) = ''Hello!''"
  using build_answer [of strict_int sample_answer "\<lambda>x y. x" 7]
  by (simp add: answer_reply) (simp add: sample_answer_def max_content_def an_texts_def)

text \<open>
  C31. What a provider call can fail with: a failed call of an OpenAI-compatible provider is always a provider error
  in that provider's name, so the chain goes on; an Anthropic call may besides let a \<open>TypeError\<close> or an \<open>AttributeError\<close> of its
  body's translation escape, and nothing else.
\<close>

theorem provider_call_failures:
  assumes "provider_chat http coerce fadd now rid p req w = (Inl e, w')"
  shows "(\<exists>pe. e = ProviderExn pe \<and> pe_provider pe = provider_name p) \<or>
         (adapter_class p = AnthropicAdapter \<and> (e = TypeErr \<or> e = AttributeErr))"
proof (cases "adapter_class p")
  case OpenAIAdapter
  then show ?thesis using assms compat_chat_Inl by (fastforce simp: provider_chat_def openai_chat_completion_def)
next
  case MistralAdapter
  then show ?thesis using assms compat_chat_Inl by (fastforce simp: provider_chat_def mistral_chat_completion_def)
next
  case AnthropicAdapter
  then have call: "anthropic_chat_completion http coerce fadd now rid p req w = (Inl e, w')"
    using assms by (simp add: provider_chat_def)
  obtain res w1 where post: "base_post http rid p (messages_url p) (anthropic_headers p)
      (anthropic_payload (stream req) req) w = (res, w1)" by fastforce
  show ?thesis
  proof (cases res)
    case (Inl e1)
    then show ?thesis using call post base_post_Inl by (fastforce simp: anthropic_chat_completion_def)
  next
    case (Inr body)
    then have "parse_response (provider_name p) body (build_response coerce fadd (now w1)) = Inl e"
      using call post by (auto simp: anthropic_chat_completion_def)
    from parse_response_Inl [OF this] build_response_error [of coerce fadd "now w1"] AnthropicAdapter show ?thesis
      by (fastforce simp: body_error_def fails_as_body_def)
  qed
qed

text \<open>A provider whose upstream answers every request with the same body.\<close>

definition answering :: "http_failure + json option \<Rightarrow> unit http_client" where
  "answering r = \<lparr>http_post = (\<lambda>url hs pl t w. (r, w)), http_stream = (\<lambda>url hs pl t w. (([], None), w))\<rparr>"

theorem provider_call_failures_witness:
  "\<exists>pe. fst (provider_chat (answering (Inl TimeoutException)) strict_int (\<lambda>x y. x) (\<lambda>w. 0) None (sample_provider ''a'' 0 [])
      sample_request ()) = Inl (ProviderExn pe) \<and> pe_provider pe = ''a''"
proof -
  let ?http = "answering (Inl TimeoutException)"
  obtain e where e: "provider_chat ?http strict_int (\<lambda>x y. x) (\<lambda>w. 0) None (sample_provider ''a'' 0 []) sample_request () = (Inl e, ())"
    by (simp add: provider_chat_def sample_provider_def mk_provider_def openai_chat_completion_def compat_chat_def base_post_def
        answering_def)
  from provider_call_failures [OF e] show ?thesis
    using e by (auto simp: sample_provider_def mk_provider_def mk_config_def)
qed

text \<open>
  C32. How a translated stream ends when its upstream ended without an error and sent no event after a \<open>message_stop\<close>.  If
  every event could be translated, the client is sent the end marker exactly once, as the last line, whether or not the
  upstream sent a \<open>message_stop\<close>; otherwise the stream breaks off with the exception a malformed event raised, and no end marker
  is sent.
\<close>

theorem anthropic_stream_terminated:
  assumes "iter_sse_lines http rid p (messages_url p) (anthropic_headers p) (anthropic_payload True req) w = ((lines, None), w')"
    and "\<And>us line vs. lines = us @ line # vs \<Longrightarrow> is_stop line \<Longrightarrow> list_all (\<lambda>v. \<not> py_startswith v ''data: '') vs"
  shows "case anthropic_stream_chat_completion http trunc now rid p req w of
      ((out, None), w1) \<Rightarrow> w1 = w' \<and> (\<exists>sent. out = sent @ [sse_done] \<and> sse_done \<notin> set sent)
    | ((out, Some e), w1) \<Rightarrow> w1 = w' \<and> sse_done \<notin> set out \<and>
        (\<exists>line \<in> set lines. \<exists>s. anthropic_line trunc (now w') line s = Inl e)"
proof -
  obtain out fin where run: "anthropic_events trunc (now w') lines None (anthropic_start req) = (out, fin)" by fastforce
  then have "case fin of
      None \<Rightarrow> \<exists>sent. out = sent @ [sse_done] \<and> sse_done \<notin> set sent
    | Some e \<Rightarrow> sse_done \<notin> set out \<and> (\<exists>line \<in> set lines. \<exists>s. anthropic_line trunc (now w') line s = Inl e)"
    using anthropic_events_end [OF _ _ run] assms(2) by (simp add: stops_last_def anthropic_start_def)
  then show ?thesis using run assms(1) by (auto simp: anthropic_stream_chat_completion_def split: option.splits)
qed

theorem anthropic_stream_terminated_witness:
  "\<exists>sent. fst (fst (anthropic_stream_chat_completion (answering (Inr None)) (\<lambda>t. Inr 0) (\<lambda>w. 0) None
     (sample_provider ''a'' 0 []) sample_request ())) = sent @ [sse_done]"
proof -
  have "iter_sse_lines (answering (Inr None)) None (sample_provider ''a'' 0 []) (messages_url (sample_provider ''a'' 0 []))
      (anthropic_headers (sample_provider ''a'' 0 [])) (anthropic_payload True sample_request) () = (([], None), ())"
    by (simp add: iter_sse_lines_def answering_def)
  from anthropic_stream_terminated [OF this, of "\<lambda>t. Inr 0" "\<lambda>w. 0"] show ?thesis
    by (auto split: prod.splits option.splits)
qed

text \<open>Two upstream bodies that are mishandled: a null content stops the fallback, a textual count is taken as it is.\<close>

lemma null_content_stops_fallback:
  fixes p q :: provider
  assumes "adapter_class p = AnthropicAdapter"
  shows "execute_with_fallback
           (provider_chat (answering (Inr (Some (JObj [(''content'', JNull)])))) coerce fadd now rid) [p, q] req () =
         (Inl TypeErr, ())"
  using assms
  by (simp add: execute_with_fallback_def provider_chat_def anthropic_chat_completion_def base_post_def answering_def
      parse_response_def build_response_def)

lemma negative_text_count_accepted:
  "coerce (JStr ''-5'') = Some (- 5) \<Longrightarrow> usage_count coerce (JStr ''-5'') = Inr (- 5)"
  by (simp add: usage_count_def)

end
