(* ===== verification/Cli.thy ===== *)
theory Cli
  imports Security
begin

text \<open>
  \<open>main\<close> of \<open>cli.py\<close> after the arguments are parsed: the dispatch of the commands and what each prints.
  A command ends normally with the lines it prints, with an exit status, or with an exception.  Serving is the
  web server's.
\<close>

subsection \<open>Output\<close>

text \<open>The format \<open>f"{s:<n}"\<close>.\<close>

definition ljust :: "nat \<Rightarrow> string \<Rightarrow> string" where
  "ljust n s = s @ replicate (n - length s) (CHR '' '')"

definition str_bool :: "bool \<Rightarrow> string" where
  "str_bool b = (if b then ''True'' else ''False'')"

definition key_line :: "(datetime \<Rightarrow> string) \<Rightarrow> api_key_row \<Rightarrow> string" where
  "key_line isofmt k =
     ljust 6 (str_int (key_id k)) @ ljust 30 (client_name k) @ ljust 8 (str_bool (is_active k)) @
     ljust 12 (case spend_limit_usd k of None \<Rightarrow> ''-'' | Some l \<Rightarrow> dec_str l) @
     ljust 26 (isofmt (key_created_at k)) @
     ljust 26 (case expires_at k of None \<Rightarrow> ''-'' | Some t \<Rightarrow> isofmt t)"

definition cli_list_keys :: "(datetime \<Rightarrow> string) \<Rightarrow> db \<Rightarrow> string list" where
  "cli_list_keys isofmt d =
     (let keys = list_keys d
      in if keys = [] then [''No API keys found.'']
         else (ljust 6 ''id'' @ ljust 30 ''client_name'' @ ljust 8 ''active'' @ ljust 12 ''spend_usd'' @
               ljust 26 ''created_at'' @ ljust 26 ''expires_at'')
              # map (key_line isofmt) keys)"

subsection \<open>\<open>main\<close>\<close>

text \<open>The command line after parsing; no command means \<open>serve\<close>.\<close>

datatype command = Serve | CreateKey create_key_args | RevokeKey int | ListKeys

text \<open>What a command that ends normally leaves on the terminal; the raw key is shown this once.\<close>

datatype shown = Serving | ShownKey string | ShownRevoked int | ShownLines "string list"

definition cli_main ::
    "(string \<Rightarrow> string) \<Rightarrow> sql_ops \<Rightarrow> (datetime \<Rightarrow> string) \<Rightarrow> rat \<Rightarrow> string \<Rightarrow> server \<Rightarrow> server \<Rightarrow>
     command option \<Rightarrow> db \<Rightarrow> (cli_exit + shown) \<times> db" where
  "cli_main sha sql isofmt now token srv1 srv2 cmd d =
     (case cmd of
        Some (CreateKey a) \<Rightarrow>
          (case main_create_key sha sql isofmt now token srv1 srv2 a d of
             (Inl x, d') \<Rightarrow> (Inl x, d')
           | (Inr raw, d') \<Rightarrow> (Inr (ShownKey raw), d'))
      | Some (RevokeKey i) \<Rightarrow>
          (case cli_revoke_key srv1 i d of
             (Inl x, d') \<Rightarrow> (Inl x, d')
           | (Inr u, d') \<Rightarrow> (Inr (ShownRevoked i), d'))
      | Some ListKeys \<Rightarrow> (Inr (ShownLines (cli_list_keys isofmt d)), d)
      | _ \<Rightarrow> (Inr Serving, d))"

subsection \<open>Lemmas\<close>

text \<open>The listing shows every key on one line, in the order of the ids, and no hash: it is a function of the other columns.\<close>

lemma cli_list_keys_lines:
  "api_keys d \<noteq> [] \<Longrightarrow> tl (cli_list_keys isofmt d) = map (key_line isofmt) (sort_key key_id (api_keys d))"
proof -
  assume "api_keys d \<noteq> []"
  then have "sort_key key_id (api_keys d) \<noteq> []" by (metis list.size(3) length_sort length_0_conv)
  then show ?thesis by (simp add: cli_list_keys_def list_keys_def Let_def)
qed

lemma key_line_no_hash: "key_line isofmt (k\<lparr>hashed_key := h\<rparr>) = key_line isofmt k"
  by (simp add: key_line_def)

text \<open>Contradictory options end the command with status 2 before anything is written.\<close>

lemma cli_main_usage_error:
  "arg_no_expiry a \<Longrightarrow> arg_expires_in_days a \<noteq> None \<Longrightarrow>
     cli_main sha sql isofmt now token srv1 srv2 (Some (CreateKey a)) d = (Inl (ExitStatus 2), d)"
  by (simp add: cli_main_def main_create_key_def cli_expiry_days_def)

text \<open>After a \<open>revoke-key\<close> that succeeds no request is authenticated as that key.\<close>

lemma cli_main_revokes:
  assumes "cli_main sha sql isofmt now token srv1 srv2 (Some (RevokeKey i)) d = (Inr x, d')"
  shows "revoked i d' \<and> authenticate_request sha now' d' auth \<noteq> Inr i"
proof -
  from assms have "cli_revoke_key srv1 i d = (Inr (), d')"
    by (auto simp: cli_main_def split: prod.splits sum.splits)
  then obtain k d1 where "deactivate_key i d = (Some k, d1)"
      "create_audit_log srv1 ''key_revoked'' (key_id k) (client_name k) None d1 = (None, d')"
    by (auto simp: cli_revoke_key_def split: prod.splits option.splits)
  then have "deactivate_key i d = (Some k, d1)" "api_keys d' = api_keys d1" by (auto dest: api_keys_create_audit_log)
  then have "revoked i d'" by (auto dest: revoked_deactivate simp: revoked_def)
  then show ?thesis using revoked_no_auth by blast
qed

end
