(* ===== verification/Migrations.thy ===== *)
theory Migrations
  imports Gateway_Prelude
begin

text \<open>
  The schema migrations under \<open>alembic/versions\<close> and the tables \<open>storage/orm.py\<close> declares.

  A revision is its upgrade and its downgrade, each the list of the statements the script issues.  What a statement
  does to a database (a list of tables with their rows, and the indexes) is the meaning SQL gives it, refusals
  included: \<open>apply_ddl\<close> is \<open>None\<close> where the server refuses the statement.
\<close>

subsection \<open>Tables and statements\<close>

datatype column_type = IntegerT | StringT nat | BooleanT | DateTimeT | NumericT nat nat

datatype column_default = NowDefault | ConstDefault string

record column =
  col_name :: string
  col_type :: column_type
  col_nullable :: bool
  col_default :: "column_default option"

text \<open>A foreign key is a column, the table it refers to and the column there.\<close>

record table_def =
  tab_name :: string
  tab_columns :: "column list"
  tab_pk :: "string list"
  tab_fks :: "(string \<times> string \<times> string) list"

record index_def =
  ix_name :: string
  ix_table :: string
  ix_columns :: "string list"
  ix_unique :: bool

datatype cell = NullCell | TextCell string

type_synonym row = "string \<rightharpoonup> cell"

record database =
  db_tables :: "(table_def \<times> row list) list"
  db_indexes :: "index_def list"

definition no_tables :: database where
  "no_tables = \<lparr>db_tables = [], db_indexes = []\<rparr>"

datatype ddl =
    CreateTable table_def
  | DropTable string
  | CreateIndex index_def
  | DropIndex string string
  | AddColumn string column
  | DropColumn string string

definition column_names :: "table_def \<Rightarrow> string list" where
  "column_names t = map col_name (tab_columns t)"

definition table_names :: "database \<Rightarrow> string list" where
  "table_names s = map (tab_name \<circ> fst) (db_tables s)"

definition find_table :: "string \<Rightarrow> database \<Rightarrow> (table_def \<times> row list) option" where
  "find_table n s = find (\<lambda>e. tab_name (fst e) = n) (db_tables s)"

definition change_table ::
    "string \<Rightarrow> (table_def \<times> row list \<Rightarrow> table_def \<times> row list) \<Rightarrow> database \<Rightarrow> database" where
  "change_table n f s = s\<lparr>db_tables := map (\<lambda>e. if tab_name (fst e) = n then f e else e) (db_tables s)\<rparr>"

text \<open>
  What a column that is added gives the existing rows: its constant default or NULL; a column that is not nullable
  and has none can be added to an empty table only.
\<close>

definition fill_column :: "column \<Rightarrow> row list \<Rightarrow> row list option" where
  "fill_column c rows =
     (case col_default c of
        Some (ConstDefault v) \<Rightarrow> Some (map (\<lambda>r. r(col_name c \<mapsto> TextCell v)) rows)
      | Some NowDefault \<Rightarrow> if rows = [] then Some [] else None
      | None \<Rightarrow> if col_nullable c \<or> rows = [] then Some (map (\<lambda>r. r(col_name c \<mapsto> NullCell)) rows) else None)"

fun apply_ddl :: "ddl \<Rightarrow> database \<Rightarrow> database option" where
  "apply_ddl (CreateTable t) s =
     (if tab_name t \<in> set (table_names s) \<or> \<not> distinct (column_names t) \<or>
         \<not> set (tab_pk t) \<subseteq> set (column_names t) \<or> \<not> set (map fst (tab_fks t)) \<subseteq> set (column_names t) \<or>
         \<not> set (map (fst \<circ> snd) (tab_fks t)) \<subseteq> set (table_names s) then None
      else Some (s\<lparr>db_tables := db_tables s @ [(t, [])]\<rparr>))"
| "apply_ddl (DropTable n) s =
     (if n \<notin> set (table_names s) \<or>
         list_ex (\<lambda>e. tab_name (fst e) \<noteq> n \<and> n \<in> set (map (fst \<circ> snd) (tab_fks (fst e)))) (db_tables s) then None
      else Some \<lparr>db_tables = filter (\<lambda>e. tab_name (fst e) \<noteq> n) (db_tables s),
                 db_indexes = filter (\<lambda>ix. ix_table ix \<noteq> n) (db_indexes s)\<rparr>)"
| "apply_ddl (CreateIndex ix) s =
     (case find_table (ix_table ix) s of
        None \<Rightarrow> None
      | Some (t, rows) \<Rightarrow>
          if ix_name ix \<in> set (map ix_name (db_indexes s)) \<or> \<not> set (ix_columns ix) \<subseteq> set (column_names t) \<or>
             (ix_unique ix \<and> \<not> distinct (map (\<lambda>r. map r (ix_columns ix)) rows)) then None
          else Some (s\<lparr>db_indexes := db_indexes s @ [ix]\<rparr>))"
| "apply_ddl (DropIndex n t) s =
     (if list_ex (\<lambda>ix. ix_name ix = n \<and> ix_table ix = t) (db_indexes s) then
        Some (s\<lparr>db_indexes := filter (\<lambda>ix. ix_name ix \<noteq> n) (db_indexes s)\<rparr>)
      else None)"
| "apply_ddl (AddColumn n c) s =
     (case find_table n s of
        None \<Rightarrow> None
      | Some (t, rows) \<Rightarrow>
          if col_name c \<in> set (column_names t) then None
          else (case fill_column c rows of
                  None \<Rightarrow> None
                | Some rows' \<Rightarrow>
                    Some (change_table n (\<lambda>e. (t\<lparr>tab_columns := tab_columns t @ [c]\<rparr>, rows')) s)))"
| "apply_ddl (DropColumn n cn) s =
     (case find_table n s of
        None \<Rightarrow> None
      | Some (t, rows) \<Rightarrow>
          if cn \<notin> set (column_names t) \<or> cn \<in> set (tab_pk t) \<or> cn \<in> set (map fst (tab_fks t)) \<or>
             list_ex (\<lambda>ix. ix_table ix = n \<and> cn \<in> set (ix_columns ix)) (db_indexes s) then None
          else Some (change_table n
                 (\<lambda>e. (t\<lparr>tab_columns := filter (\<lambda>c. col_name c \<noteq> cn) (tab_columns t)\<rparr>,
                       map (\<lambda>r. r(cn := None)) rows)) s))"

fun run_ddl :: "ddl list \<Rightarrow> database \<Rightarrow> database option" where
  "run_ddl [] s = Some s"
| "run_ddl (x # xs) s = (case apply_ddl x s of None \<Rightarrow> None | Some s' \<Rightarrow> run_ddl xs s')"

subsection \<open>alembic/versions\<close>

text \<open>\<open>sa.Column\<close> with a nullability; \<open>id\<close> is the integer key of every table.\<close>

definition sa_column :: "string \<Rightarrow> column_type \<Rightarrow> bool \<Rightarrow> column" where
  "sa_column n ty nullable = \<lparr>col_name = n, col_type = ty, col_nullable = nullable, col_default = None\<rparr>"

definition sa_default :: "string \<Rightarrow> column_type \<Rightarrow> column_default \<Rightarrow> column" where
  "sa_default n ty dflt = \<lparr>col_name = n, col_type = ty, col_nullable = False, col_default = Some dflt\<rparr>"

definition plain_index :: "string \<Rightarrow> string \<Rightarrow> string \<Rightarrow> bool \<Rightarrow> index_def" where
  "plain_index n t c u = \<lparr>ix_name = n, ix_table = t, ix_columns = [c], ix_unique = u\<rparr>"

record revision =
  rev_id :: string
  down_revision :: "string option"
  upgrade :: "ddl list"
  downgrade :: "ddl list"

definition initial_api_keys :: table_def where
  "initial_api_keys =
     \<lparr>tab_name = ''api_keys'',
      tab_columns =
        [sa_column ''id'' IntegerT False, sa_column ''hashed_key'' (StringT 64) False,
         sa_column ''client_name'' (StringT 255) False, sa_column ''is_active'' BooleanT False,
         sa_default ''created_at'' DateTimeT NowDefault],
      tab_pk = [''id''], tab_fks = []\<rparr>"

definition initial_usage_logs :: table_def where
  "initial_usage_logs =
     \<lparr>tab_name = ''usage_logs'',
      tab_columns =
        [sa_column ''id'' IntegerT False, sa_column ''virtual_key_id'' IntegerT False,
         sa_column ''provider'' (StringT 64) False, sa_column ''model'' (StringT 128) False,
         sa_column ''input_tokens'' IntegerT False, sa_column ''output_tokens'' IntegerT False,
         sa_column ''latency_ms'' IntegerT False, sa_column ''estimated_cost'' (NumericT 12 6) False,
         sa_default ''timestamp'' DateTimeT NowDefault],
      tab_pk = [''id''], tab_fks = [(''virtual_key_id'', ''api_keys'', ''id'')]\<rparr>"

definition rev_initial :: revision where
  "rev_initial =
     \<lparr>rev_id = ''3d3b4bb0fa31'', down_revision = None,
      upgrade =
        [CreateTable initial_api_keys,
         CreateIndex (plain_index ''ix_api_keys_hashed_key'' ''api_keys'' ''hashed_key'' True),
         CreateTable initial_usage_logs,
         CreateIndex (plain_index ''ix_usage_logs_timestamp'' ''usage_logs'' ''timestamp'' False),
         CreateIndex (plain_index ''ix_usage_logs_virtual_key_id'' ''usage_logs'' ''virtual_key_id'' False)],
      downgrade =
        [DropIndex ''ix_usage_logs_virtual_key_id'' ''usage_logs'', DropIndex ''ix_usage_logs_timestamp'' ''usage_logs'',
         DropTable ''usage_logs'', DropIndex ''ix_api_keys_hashed_key'' ''api_keys'', DropTable ''api_keys'']\<rparr>"

definition audit_logs_table :: table_def where
  "audit_logs_table =
     \<lparr>tab_name = ''audit_logs'',
      tab_columns =
        [sa_column ''id'' IntegerT False, sa_column ''action'' (StringT 64) False,
         sa_column ''virtual_key_id'' IntegerT False, sa_column ''client_name'' (StringT 255) False,
         sa_column ''detail'' (StringT 255) True, sa_default ''created_at'' DateTimeT NowDefault],
      tab_pk = [''id''], tab_fks = [(''virtual_key_id'', ''api_keys'', ''id'')]\<rparr>"

definition rev_audit :: revision where
  "rev_audit =
     \<lparr>rev_id = ''c1b13c0c82d4'', down_revision = Some ''3d3b4bb0fa31'',
      upgrade =
        [CreateTable audit_logs_table,
         CreateIndex (plain_index ''ix_audit_logs_action'' ''audit_logs'' ''action'' False),
         CreateIndex (plain_index ''ix_audit_logs_created_at'' ''audit_logs'' ''created_at'' False),
         CreateIndex (plain_index ''ix_audit_logs_virtual_key_id'' ''audit_logs'' ''virtual_key_id'' False),
         AddColumn ''api_keys'' (sa_column ''expires_at'' DateTimeT True)],
      downgrade =
        [DropColumn ''api_keys'' ''expires_at'',
         DropIndex ''ix_audit_logs_virtual_key_id'' ''audit_logs'', DropIndex ''ix_audit_logs_created_at'' ''audit_logs'',
         DropIndex ''ix_audit_logs_action'' ''audit_logs'', DropTable ''audit_logs'']\<rparr>"

definition rev_status :: revision where
  "rev_status =
     \<lparr>rev_id = ''b2c4d6e8f0a2'', down_revision = Some ''c1b13c0c82d4'',
      upgrade =
        [AddColumn ''usage_logs'' (sa_default ''status'' (StringT 16) (ConstDefault ''ok'')),
         AddColumn ''usage_logs'' (sa_column ''error_type'' (StringT 64) True)],
      downgrade = [DropColumn ''usage_logs'' ''error_type'', DropColumn ''usage_logs'' ''status'']\<rparr>"

definition rev_spend_limit :: revision where
  "rev_spend_limit =
     \<lparr>rev_id = ''d4e6f8a0b2c4'', down_revision = Some ''b2c4d6e8f0a2'',
      upgrade = [AddColumn ''api_keys'' (sa_column ''spend_limit_usd'' (NumericT 12 2) True)],
      downgrade = [DropColumn ''api_keys'' ''spend_limit_usd'']\<rparr>"

text \<open>The scripts in the order of their file names; the order to run them in follows from \<open>down_revision\<close>.\<close>

definition migrations :: "revision list" where
  "migrations = [rev_initial, rev_status, rev_audit, rev_spend_limit]"

fun upgrade_path :: "nat \<Rightarrow> string option \<Rightarrow> revision list" where
  "upgrade_path 0 cur = []"
| "upgrade_path (Suc n) cur =
     (case find (\<lambda>r. down_revision r = cur) migrations of
        None \<Rightarrow> []
      | Some r \<Rightarrow> r # upgrade_path n (Some (rev_id r)))"

definition run_upgrades :: "revision list \<Rightarrow> database \<Rightarrow> database option" where
  "run_upgrades rs = run_ddl (concat (map upgrade rs))"

definition run_downgrades :: "revision list \<Rightarrow> database \<Rightarrow> database option" where
  "run_downgrades rs = run_ddl (concat (map downgrade (rev rs)))"

text \<open>\<open>alembic upgrade head\<close> on a database at revision \<open>cur\<close>: no path is longer than the number of scripts.\<close>

definition upgrade_head :: "string option \<Rightarrow> database \<Rightarrow> database option" where
  "upgrade_head cur = run_upgrades (upgrade_path (length migrations) cur)"

subsection \<open>storage/orm.py\<close>

text \<open>A mapped column: the column, whether it is the key, indexed, unique, and the column it refers to.\<close>

record mapped =
  mc_column :: column
  mc_key :: bool
  mc_index :: bool
  mc_unique :: bool
  mc_target :: "(string \<times> string) option"

definition mapped_column :: "column \<Rightarrow> mapped" where
  "mapped_column c = \<lparr>mc_column = c, mc_key = False, mc_index = False, mc_unique = False, mc_target = None\<rparr>"

definition mapped_id :: mapped where
  "mapped_id = (mapped_column (sa_column ''id'' IntegerT False))\<lparr>mc_key := True\<rparr>"

definition mapped_ref :: mapped where
  "mapped_ref = (mapped_column (sa_column ''virtual_key_id'' IntegerT False))
     \<lparr>mc_index := True, mc_target := Some (''api_keys'', ''id'')\<rparr>"

definition orm_ApiKey :: "mapped list" where
  "orm_ApiKey =
     [mapped_id, (mapped_column (sa_column ''hashed_key'' (StringT 64) False))\<lparr>mc_index := True, mc_unique := True\<rparr>,
      mapped_column (sa_column ''client_name'' (StringT 255) False),
      mapped_column (sa_column ''is_active'' BooleanT False),
      mapped_column (sa_column ''spend_limit_usd'' (NumericT 12 2) True),
      mapped_column (sa_column ''expires_at'' DateTimeT True),
      mapped_column (sa_default ''created_at'' DateTimeT NowDefault)]"

definition orm_UsageLog :: "mapped list" where
  "orm_UsageLog =
     [mapped_id, mapped_ref, mapped_column (sa_column ''provider'' (StringT 64) False),
      mapped_column (sa_column ''model'' (StringT 128) False),
      mapped_column (sa_column ''input_tokens'' IntegerT False),
      mapped_column (sa_column ''output_tokens'' IntegerT False),
      mapped_column (sa_column ''latency_ms'' IntegerT False),
      mapped_column (sa_column ''estimated_cost'' (NumericT 12 6) False),
      mapped_column (sa_default ''status'' (StringT 16) (ConstDefault ''ok'')),
      mapped_column (sa_column ''error_type'' (StringT 64) True),
      (mapped_column (sa_default ''timestamp'' DateTimeT NowDefault))\<lparr>mc_index := True\<rparr>]"

definition orm_AuditLog :: "mapped list" where
  "orm_AuditLog =
     [mapped_id, (mapped_column (sa_column ''action'' (StringT 64) False))\<lparr>mc_index := True\<rparr>, mapped_ref,
      mapped_column (sa_column ''client_name'' (StringT 255) False),
      mapped_column (sa_column ''detail'' (StringT 255) True),
      (mapped_column (sa_default ''created_at'' DateTimeT NowDefault))\<lparr>mc_index := True\<rparr>]"

definition orm_models :: "(string \<times> mapped list) list" where
  "orm_models = [(''api_keys'', orm_ApiKey), (''usage_logs'', orm_UsageLog), (''audit_logs'', orm_AuditLog)]"

text \<open>The table and the indexes a model declares; an index is named after its table and column.\<close>

definition declared_table :: "string \<Rightarrow> mapped list \<Rightarrow> table_def" where
  "declared_table n ms =
     \<lparr>tab_name = n, tab_columns = map mc_column ms,
      tab_pk = map (col_name \<circ> mc_column) (filter mc_key ms),
      tab_fks = concat (map (\<lambda>m. case mc_target m of None \<Rightarrow> [] | Some t \<Rightarrow> [(col_name (mc_column m), t)]) ms)\<rparr>"

definition declared_indexes :: "string \<Rightarrow> mapped list \<Rightarrow> index_def list" where
  "declared_indexes n ms =
     map (\<lambda>m. plain_index (''ix_'' @ n @ ''_'' @ col_name (mc_column m)) n (col_name (mc_column m)) (mc_unique m))
       (filter mc_index ms)"

subsection \<open>Well-formed databases\<close>

definition table_ok :: "string list \<Rightarrow> table_def \<times> row list \<Rightarrow> bool" where
  "table_ok names e \<longleftrightarrow>
     set (tab_pk (fst e)) \<subseteq> set (column_names (fst e)) \<and>
     set (map fst (tab_fks (fst e))) \<subseteq> set (column_names (fst e)) \<and>
     set (map (fst \<circ> snd) (tab_fks (fst e))) \<subseteq> set names \<and>
     (\<forall>r \<in> set (snd e). dom r \<subseteq> set (column_names (fst e)))"

definition index_ok :: "database \<Rightarrow> index_def \<Rightarrow> bool" where
  "index_ok s ix \<longleftrightarrow>
     (\<exists>e \<in> set (db_tables s). tab_name (fst e) = ix_table ix \<and> set (ix_columns ix) \<subseteq> set (column_names (fst e)))"

definition schema_ok :: "database \<Rightarrow> bool" where
  "schema_ok s \<longleftrightarrow>
     distinct (table_names s) \<and> (\<forall>e \<in> set (db_tables s). table_ok (table_names s) e) \<and>
     (\<forall>ix \<in> set (db_indexes s). index_ok s ix)"

lemma find_table_SomeD: "find_table n s = Some (t, rows) \<Longrightarrow> (t, rows) \<in> set (db_tables s) \<and> tab_name t = n"
  by (auto simp: find_table_def find_Some_iff) (metis fst_conv)

lemma filter_fresh: "x \<notin> set (map f ys) \<Longrightarrow> filter (\<lambda>y. f y \<noteq> x) ys = ys"
  by (induction ys) auto

lemma unique_table:
  assumes "distinct (table_names s)" and "e \<in> set (db_tables s)" and "e' \<in> set (db_tables s)"
    and "tab_name (fst e) = tab_name (fst e')"
  shows "e = e'"
  using assms by (auto simp: table_names_def distinct_map inj_on_def)

lemma table_names_change:
  "(\<And>e. tab_name (fst e) = n \<Longrightarrow> tab_name (fst (f e)) = n) \<Longrightarrow> table_names (change_table n f s) = table_names s"
  by (auto simp: table_names_def change_table_def)

lemma fill_column_rows:
  "fill_column c rows = Some rows' \<Longrightarrow> \<exists>v. rows' = map (\<lambda>r. r(col_name c \<mapsto> v)) rows"
  by (auto simp: fill_column_def split: option.splits column_default.splits if_splits)

text \<open>The statements that only add to a database, and what takes each back.\<close>

fun adds :: "ddl \<Rightarrow> bool" where
  "adds (CreateTable t) = True"
| "adds (CreateIndex ix) = True"
| "adds (AddColumn n c) = True"
| "adds _ = False"

fun undo :: "ddl \<Rightarrow> ddl" where
  "undo (CreateTable t) = DropTable (tab_name t)"
| "undo (CreateIndex ix) = DropIndex (ix_name ix) (ix_table ix)"
| "undo (AddColumn n c) = DropColumn n (col_name c)"
| "undo x = x"

lemma add_column_effect:
  assumes "apply_ddl (AddColumn n c) s = Some s'"
  obtains t rows v where "find_table n s = Some (t, rows)" "col_name c \<notin> set (column_names t)"
    "s' = change_table n (\<lambda>e. (t\<lparr>tab_columns := tab_columns t @ [c]\<rparr>, map (\<lambda>r. r(col_name c \<mapsto> v)) rows)) s"
  using assms by (auto split: option.splits if_splits dest!: fill_column_rows)

lemma undo_create_table:
  assumes ok: "schema_ok s" and "apply_ddl (CreateTable t) s = Some s'"
  shows "apply_ddl (undo (CreateTable t)) s' = Some s"
proof -
  from assms(2) have s': "s' = s\<lparr>db_tables := db_tables s @ [(t, [])]\<rparr>" and new: "tab_name t \<notin> set (table_names s)"
    by (auto split: if_splits)
  have other: "tab_name t \<notin> set (map (fst \<circ> snd) (tab_fks (fst e)))" if "e \<in> set (db_tables s)" for e
  proof -
    from that ok have "set (map (fst \<circ> snd) (tab_fks (fst e))) \<subseteq> set (table_names s)"
      by (simp add: schema_ok_def table_ok_def)
    with new show ?thesis by blast
  qed
  have "ix_table ix \<noteq> tab_name t" if "ix \<in> set (db_indexes s)" for ix
    using that ok new by (force simp: schema_ok_def index_ok_def table_names_def)
  then have "filter (\<lambda>ix. ix_table ix \<noteq> tab_name t) (db_indexes s) = db_indexes s" by (simp add: filter_id_conv)
  moreover have "filter (\<lambda>e. tab_name (fst e) \<noteq> tab_name t) (db_tables s) = db_tables s"
    using filter_fresh [of "tab_name t" "tab_name \<circ> fst" "db_tables s"] new by (simp add: table_names_def)
  moreover have "\<not> list_ex (\<lambda>e. tab_name (fst e) \<noteq> tab_name t \<and> tab_name t \<in> set (map (fst \<circ> snd) (tab_fks (fst e))))
      (db_tables s')"
    using other by (auto simp: s' list_ex_iff)
  ultimately show ?thesis by (simp add: s' table_names_def)
qed

lemma undo_create_index:
  assumes "apply_ddl (CreateIndex ix) s = Some s'"
  shows "apply_ddl (undo (CreateIndex ix)) s' = Some s"
proof -
  from assms have s': "s' = s\<lparr>db_indexes := db_indexes s @ [ix]\<rparr>" and new: "ix_name ix \<notin> set (map ix_name (db_indexes s))"
    by (auto split: option.splits if_splits)
  from filter_fresh [OF new] show ?thesis by (simp add: s')
qed

lemma undo_add_column:
  assumes ok: "schema_ok s" and "apply_ddl (AddColumn n c) s = Some s'"
  shows "apply_ddl (undo (AddColumn n c)) s' = Some s"
proof -
  from assms(2) obtain t rows v where t: "find_table n s = Some (t, rows)" and new: "col_name c \<notin> set (column_names t)"
    and s': "s' = change_table n (\<lambda>e. (t\<lparr>tab_columns := tab_columns t @ [c]\<rparr>, map (\<lambda>r. r(col_name c \<mapsto> v)) rows)) s"
    by (rule add_column_effect)
  let ?e = "(t\<lparr>tab_columns := tab_columns t @ [c]\<rparr>, map (\<lambda>r. r(col_name c \<mapsto> v)) rows)"
  from t have tin: "(t, rows) \<in> set (db_tables s)" and tn: "tab_name t = n" by (auto dest: find_table_SomeD)
  have tok: "table_ok (table_names s) (t, rows)" and dist: "distinct (table_names s)"
    using ok tin by (auto simp: schema_ok_def)
  have same: "e = (t, rows)" if "e \<in> set (db_tables s)" "tab_name (fst e) = n" for e
    using unique_table [OF dist that(1) tin] that(2) tn by simp
  have find': "find_table n s' = Some ?e"
  proof -
    have "find (\<lambda>e. tab_name (fst e) = n) (map (\<lambda>e. if tab_name (fst e) = n then ?e else e) es) = Some ?e"
      if "find (\<lambda>e. tab_name (fst e) = n) es = Some (t, rows)" for es
      using that tn by (induction es) (auto split: if_splits)
    then show ?thesis using t by (simp add: find_table_def s' change_table_def)
  qed
  have ix: "\<not> list_ex (\<lambda>ix. ix_table ix = n \<and> col_name c \<in> set (ix_columns ix)) (db_indexes s')"
  proof -
    have "col_name c \<notin> set (ix_columns i)" if "i \<in> set (db_indexes s)" "ix_table i = n" for i
      using ok that new same by (fastforce simp: schema_ok_def index_ok_def)
    then show ?thesis by (auto simp: s' change_table_def list_ex_iff)
  qed
  have cols: "filter (\<lambda>d. col_name d \<noteq> col_name c) (tab_columns t) = tab_columns t"
    using filter_fresh [of "col_name c" col_name "tab_columns t"] new by (simp add: column_names_def)
  have rows: "map (\<lambda>r. (r(col_name c \<mapsto> v))(col_name c := None)) rows = rows"
  proof (rule map_idI)
    fix r assume "r \<in> set rows"
    with tok have "dom r \<subseteq> set (column_names t)" by (simp add: table_ok_def)
    with new have "r (col_name c) = None" by blast
    then show "(r(col_name c \<mapsto> v))(col_name c := None) = r" by auto
  qed
  have restored: "map (\<lambda>e. if tab_name (fst e) = n then (t, rows) else e)
      (map (\<lambda>e. if tab_name (fst e) = n then ?e else e) (db_tables s)) = db_tables s"
  proof -
    have "(if tab_name (fst e') = n then (t, rows) else e') = e"
      if "e \<in> set (db_tables s)" "e' = (if tab_name (fst e) = n then ?e else e)" for e e'
      using that tn same [OF that(1)] by (cases "tab_name (fst e) = n") simp_all
    then show ?thesis by (simp add: comp_def map_idI)
  qed
  have "apply_ddl (DropColumn n (col_name c)) s' = Some (change_table n (\<lambda>e. (t, rows)) s')"
    using find' ix cols rows new tok by (auto simp: table_ok_def column_names_def comp_def)
  also have "change_table n (\<lambda>e. (t, rows)) s' = s"
    using restored by (simp add: s' change_table_def)
  finally show ?thesis by simp
qed

lemma undo_step: "schema_ok s \<Longrightarrow> adds op \<Longrightarrow> apply_ddl op s = Some s' \<Longrightarrow> apply_ddl (undo op) s' = Some s"
  by (cases op) (simp_all only: adds.simps undo_create_table undo_create_index undo_add_column)

lemma schema_ok_create_table:
  assumes "schema_ok s" and "apply_ddl (CreateTable t) s = Some s'"
  shows "schema_ok s'"
proof -
  from assms(2) have s': "s' = s\<lparr>db_tables := db_tables s @ [(t, [])]\<rparr>" and new: "tab_name t \<notin> set (table_names s)"
    and t: "table_ok (table_names s) (t, [])"
    by (auto simp: table_ok_def split: if_splits)
  have names: "table_names s' = table_names s @ [tab_name t]" by (simp add: s' table_names_def)
  have "table_ok (table_names s') e" if "table_ok (table_names s) e" for e
    using that by (auto simp: table_ok_def names)
  moreover have "index_ok s' ix" if "index_ok s ix" for ix using that by (auto simp: index_ok_def s')
  ultimately show ?thesis using assms(1) t new by (auto simp: schema_ok_def names) (auto simp: s')
qed

lemma schema_ok_create_index:
  assumes "schema_ok s" and "apply_ddl (CreateIndex ix) s = Some s'"
  shows "schema_ok s'"
proof -
  from assms(2) obtain t rows where s': "s' = s\<lparr>db_indexes := db_indexes s @ [ix]\<rparr>"
    and t: "find_table (ix_table ix) s = Some (t, rows)" "set (ix_columns ix) \<subseteq> set (column_names t)"
    by (auto split: option.splits if_splits)
  have "index_ok s ix" using find_table_SomeD [OF t(1)] t(2) by (force simp: index_ok_def)
  then show ?thesis using assms(1) by (auto simp: schema_ok_def s' table_names_def index_ok_def)
qed

lemma schema_ok_add_column:
  assumes "schema_ok s" and "apply_ddl (AddColumn n c) s = Some s'"
  shows "schema_ok s'"
proof -
  from assms(2) obtain t rows v where t: "find_table n s = Some (t, rows)"
    and s': "s' = change_table n (\<lambda>e. (t\<lparr>tab_columns := tab_columns t @ [c]\<rparr>, map (\<lambda>r. r(col_name c \<mapsto> v)) rows)) s"
    by (rule add_column_effect)
  let ?e = "(t\<lparr>tab_columns := tab_columns t @ [c]\<rparr>, map (\<lambda>r. r(col_name c \<mapsto> v)) rows)"
  from find_table_SomeD [OF t] have tin: "(t, rows) \<in> set (db_tables s)" and tn: "tab_name t = n" by auto
  have names: "table_names s' = table_names s" by (simp add: s' table_names_change tn)
  have tables: "set (db_tables s') \<subseteq> insert ?e (set (db_tables s))" by (auto simp: s' change_table_def)
  have "table_ok (table_names s) (t, rows)" using assms(1) tin by (simp add: schema_ok_def)
  then have "table_ok (table_names s) ?e"
    by (simp add: table_ok_def column_names_def) (blast intro: subset_insertI2)
  with assms(1) tables have "\<forall>e \<in> set (db_tables s'). table_ok (table_names s') e"
    by (auto simp: schema_ok_def names)
  moreover have "index_ok s' ix" if "index_ok s ix" for ix
  proof -
    from that obtain e where e: "e \<in> set (db_tables s)" "tab_name (fst e) = ix_table ix"
        "set (ix_columns ix) \<subseteq> set (column_names (fst e))"
      by (auto simp: index_ok_def)
    show ?thesis
    proof (cases "tab_name (fst e) = n")
      case True
      with assms(1) e(1) tin tn have "e = (t, rows)" by (intro unique_table) (auto simp: schema_ok_def)
      moreover from True e(1) have "?e \<in> set (db_tables s')" by (force simp: s' change_table_def)
      ultimately show ?thesis using e by (force simp: index_ok_def column_names_def)
    next
      case False
      with e(1) have "e \<in> set (db_tables s')" by (force simp: s' change_table_def)
      with e show ?thesis by (auto simp: index_ok_def)
    qed
  qed
  moreover have "db_indexes s' = db_indexes s" by (simp add: s' change_table_def)
  ultimately show ?thesis using assms(1) by (simp add: schema_ok_def names)
qed

lemma schema_ok_step: "schema_ok s \<Longrightarrow> adds op \<Longrightarrow> apply_ddl op s = Some s' \<Longrightarrow> schema_ok s'"
  by (cases op) (auto simp del: apply_ddl.simps dest: schema_ok_create_table schema_ok_create_index schema_ok_add_column)

lemma run_ddl_append: "run_ddl (xs @ ys) s = (case run_ddl xs s of None \<Rightarrow> None | Some s' \<Rightarrow> run_ddl ys s')"
  by (induction xs arbitrary: s) (auto split: option.splits)

lemma schema_ok_run: "run_ddl xs s = Some s' \<Longrightarrow> list_all adds xs \<Longrightarrow> schema_ok s \<Longrightarrow> schema_ok s'"
  by (induction xs arbitrary: s) (auto split: option.splits dest: schema_ok_step)

lemma undo_run:
  assumes "run_ddl xs s = Some s'" and "list_all adds xs" and "schema_ok s"
  shows "run_ddl (rev (map undo xs)) s' = Some s"
  using assms
proof (induction xs arbitrary: s)
  case (Cons x xs)
  then obtain s1 where s1: "apply_ddl x s = Some s1" "run_ddl xs s1 = Some s'" by (auto split: option.splits)
  with Cons.prems have "schema_ok s1" "apply_ddl (undo x) s1 = Some s" by (auto intro: schema_ok_step undo_step)
  with Cons s1(2) show ?case by (simp add: run_ddl_append)
qed simp

text \<open>The downgrade of every revision takes back its upgrade, statement by statement in reverse.\<close>

lemma revision_reverses:
  "r \<in> set migrations \<Longrightarrow> list_all adds (upgrade r) \<and> downgrade r = rev (map undo (upgrade r))"
  by (auto simp: migrations_def rev_initial_def rev_audit_def rev_status_def rev_spend_limit_def initial_api_keys_def
      initial_usage_logs_def audit_logs_table_def plain_index_def sa_column_def sa_default_def)

lemma downgrades_reverse:
  "set rs \<subseteq> set migrations \<Longrightarrow>
     concat (map downgrade (rev rs)) = rev (map undo (concat (map upgrade rs))) \<and> list_all adds (concat (map upgrade rs))"
  by (induction rs) (auto simp: revision_reverses)

text \<open>No such statement loses a row or a cell.\<close>

definition rows_kept :: "database \<Rightarrow> database \<Rightarrow> bool" where
  "rows_kept s s' \<longleftrightarrow>
     (\<forall>n t rows. find_table n s = Some (t, rows) \<longrightarrow>
        (\<exists>t' rows'. find_table n s' = Some (t', rows') \<and> list_all2 (\<subseteq>\<^sub>m) rows rows'))"

lemma find_table_change:
  assumes "find_table n s = Some e" and "tab_name (fst (f e)) = n"
  shows "find_table n (change_table n f s) = Some (f e)"
proof -
  have "find (\<lambda>e. tab_name (fst e) = n) (map (\<lambda>e. if tab_name (fst e) = n then f e else e) es) = Some (f e)"
    if "find (\<lambda>e. tab_name (fst e) = n) es = Some e" for es
    using that assms(2) by (induction es) (auto split: if_splits)
  with assms(1) show ?thesis by (simp add: find_table_def change_table_def)
qed

lemma find_table_change_other:
  assumes "m \<noteq> n" and "\<And>e. tab_name (fst e) = n \<Longrightarrow> tab_name (fst (f e)) = n"
  shows "find_table m (change_table n f s) = find_table m s"
proof -
  have "find (\<lambda>e. tab_name (fst e) = m) (map (\<lambda>e. if tab_name (fst e) = n then f e else e) es) =
      find (\<lambda>e. tab_name (fst e) = m) es" for es
    using assms by (induction es) auto
  then show ?thesis by (simp add: find_table_def change_table_def)
qed

lemma list_all2_map_le_refl: "list_all2 (\<subseteq>\<^sub>m) rows rows"
  by (simp add: list.rel_refl)

lemma rows_kept_refl: "rows_kept s s"
  by (auto simp: rows_kept_def list_all2_map_le_refl)

lemma rows_le_trans: "list_all2 (\<subseteq>\<^sub>m) xs ys \<Longrightarrow> list_all2 (\<subseteq>\<^sub>m) ys zs \<Longrightarrow> list_all2 (\<subseteq>\<^sub>m) xs zs"
  by (rule list_all2_trans) (auto intro: map_le_trans)

lemma rows_kept_trans: "rows_kept s s1 \<Longrightarrow> rows_kept s1 s2 \<Longrightarrow> rows_kept s s2"
  unfolding rows_kept_def by (metis rows_le_trans)

lemma find_append_hit: "find P xs = Some x \<Longrightarrow> find P (xs @ ys) = Some x"
  by (induction xs) auto

lemma rows_kept_step:
  assumes "schema_ok s" and "adds op" and "apply_ddl op s = Some s'"
  shows "rows_kept s s'"
proof (cases op)
  case (CreateTable t)
  then have "db_tables s' = db_tables s @ [(t, [])]" using assms(3) by (auto split: if_splits)
  then show ?thesis by (auto simp: rows_kept_def find_table_def find_append_hit list_all2_map_le_refl)
next
  case (CreateIndex ix)
  then have "db_tables s' = db_tables s" using assms(3) by (auto split: option.splits if_splits)
  then show ?thesis by (auto simp: rows_kept_def find_table_def list_all2_map_le_refl)
next
  case (AddColumn n c)
  with assms(3) obtain t rows v where t: "find_table n s = Some (t, rows)" and new: "col_name c \<notin> set (column_names t)"
    and s': "s' = change_table n (\<lambda>e. (t\<lparr>tab_columns := tab_columns t @ [c]\<rparr>, map (\<lambda>r. r(col_name c \<mapsto> v)) rows)) s"
    by (metis add_column_effect)
  from find_table_SomeD [OF t] have tin: "(t, rows) \<in> set (db_tables s)" and tn: "tab_name t = n" by auto
  have "table_ok (table_names s) (t, rows)" using assms(1) tin by (simp add: schema_ok_def)
  then have "dom r \<subseteq> set (column_names t)" if "r \<in> set rows" for r
    using that by (simp add: table_ok_def)
  with new have "r \<subseteq>\<^sub>m r(col_name c \<mapsto> v)" if "r \<in> set rows" for r
    using that by (auto simp: map_le_def)
  then have kept: "list_all2 (\<subseteq>\<^sub>m) rows (map (\<lambda>r. r(col_name c \<mapsto> v)) rows)"
    by (simp add: list.rel_map list.rel_refl_strong)
  show ?thesis
    unfolding rows_kept_def
  proof (intro allI impI)
    fix m u us assume u: "find_table m s = Some (u, us)"
    show "\<exists>t' rows'. find_table m s' = Some (t', rows') \<and> list_all2 (\<subseteq>\<^sub>m) us rows'"
    proof (cases "m = n")
      case True
      with u t kept find_table_change [OF t] tn show ?thesis by (auto simp: s')
    next
      case False
      with u tn find_table_change_other [OF False] show ?thesis by (simp add: s' list_all2_map_le_refl)
    qed
  qed
qed (use assms(2) in simp_all)

lemma rows_kept_run:
  assumes "run_ddl xs s = Some s'" and "list_all adds xs" and "schema_ok s"
  shows "rows_kept s s'"
  using assms
proof (induction xs arbitrary: s)
  case (Cons x xs)
  then obtain s1 where s1: "apply_ddl x s = Some s1" "run_ddl xs s1 = Some s'" by (auto split: option.splits)
  with Cons.prems have "schema_ok s1" "rows_kept s s1" by (auto intro: schema_ok_step rows_kept_step)
  with Cons s1(2) show ?case by (auto intro: rows_kept_trans)
qed (simp add: rows_kept_refl)

subsection \<open>Properties\<close>

text \<open>
  C38. Migrations can be taken back: whatever revisions were applied to a well-formed database, with whatever data, no
  row and no cell was lost, and their downgrades in reverse order give back exactly the database there was.
\<close>

theorem downgrade_undoes_upgrade:
  assumes "schema_ok s" and "set rs \<subseteq> set migrations" and "run_upgrades rs s = Some s'"
  shows "run_downgrades rs s' = Some s \<and> rows_kept s s' \<and> schema_ok s'"
  using assms downgrades_reverse [OF assms(2)]
  by (auto simp: run_upgrades_def run_downgrades_def intro: undo_run rows_kept_run schema_ok_run)

lemma path_from_base: "upgrade_path 4 None = [rev_initial, rev_audit, rev_status, rev_spend_limit]"
  by (simp add: numeral_eq_Suc migrations_def rev_initial_def rev_audit_def rev_status_def rev_spend_limit_def)

lemma length_migrations: "length migrations = 4"
  by (simp add: migrations_def)

theorem downgrade_undoes_upgrade_witness:
  "\<exists>s. run_upgrades [rev_initial, rev_audit] no_tables = Some s \<and> run_downgrades [rev_initial, rev_audit] s = Some no_tables"
proof -
  have "\<exists>s. run_upgrades [rev_initial, rev_audit] no_tables = Some s"
    by (simp add: run_upgrades_def rev_initial_def rev_audit_def initial_api_keys_def initial_usage_logs_def
        audit_logs_table_def plain_index_def sa_column_def sa_default_def no_tables_def table_names_def column_names_def
        find_table_def fill_column_def)
  then obtain s where s: "run_upgrades [rev_initial, rev_audit] no_tables = Some s" by blast
  have "schema_ok no_tables" by (simp add: schema_ok_def no_tables_def table_names_def)
  from downgrade_undoes_upgrade [OF this _ s] s show ?thesis by (auto simp: migrations_def)
qed

text \<open>A database with the tables, columns, keys and indexes the models declare; the order of columns is free.\<close>

definition as_declared :: "database \<Rightarrow> bool" where
  "as_declared s \<longleftrightarrow>
     set (table_names s) = fst ` set orm_models \<and>
     list_all (\<lambda>(n, ms). case find_table n s of
         None \<Rightarrow> False
       | Some (t, rows) \<Rightarrow>
           distinct (column_names t) \<and> set (tab_columns t) = set (tab_columns (declared_table n ms)) \<and>
           tab_pk t = tab_pk (declared_table n ms) \<and> tab_fks t = tab_fks (declared_table n ms)) orm_models \<and>
     set (db_indexes s) = set (concat (map (\<lambda>(n, ms). declared_indexes n ms) orm_models))"

lemmas revision_defs =
  rev_initial_def rev_audit_def rev_status_def rev_spend_limit_def initial_api_keys_def initial_usage_logs_def
  audit_logs_table_def plain_index_def sa_column_def sa_default_def

lemmas model_defs =
  orm_models_def orm_ApiKey_def orm_UsageLog_def orm_AuditLog_def mapped_column_def mapped_id_def mapped_ref_def
  declared_table_def declared_indexes_def

text \<open>
  The migrations build what the models declare: upgrading the empty database to the head runs every revision once and
  gives the tables, columns, types, defaults, keys and indexes of the ORM classes, and nothing else.
\<close>

theorem migrations_build_models:
  "set (upgrade_path (length migrations) None) = set migrations \<and> distinct (upgrade_path (length migrations) None) \<and>
   (\<exists>s. upgrade_head None no_tables = Some s \<and> as_declared s)"
proof (intro conjI)
  show "set (upgrade_path (length migrations) None) = set migrations"
    by (simp add: length_migrations path_from_base) (auto simp: migrations_def)
  show "distinct (upgrade_path (length migrations) None)"
    by (simp add: length_migrations path_from_base) (simp add: revision_defs)
  have "upgrade_head None no_tables = run_upgrades [rev_initial, rev_audit, rev_status, rev_spend_limit] no_tables"
    by (simp add: upgrade_head_def length_migrations path_from_base)
  then show "\<exists>s. upgrade_head None no_tables = Some s \<and> as_declared s"
    by (simp add: run_upgrades_def revision_defs no_tables_def table_names_def column_names_def
        find_table_def fill_column_def change_table_def as_declared_def model_defs) auto
qed

end
