(* ===== verification/Process_Lifecycle.thy ===== *)
theory Process_Lifecycle
  imports Application Migrations
begin

text \<open>
  Around the requests: the log level and what it lets through, the shutdown half of \<open>lifespan\<close>, the server command, and
  \<open>alembic/env.py\<close>, which runs the migrations of \<open>Migrations\<close> against the configured database.
\<close>

subsection \<open>core/logging.py\<close>

text \<open>
  The attributes of the module \<open>logging\<close> with an upper-case name: the levels, and \<open>BASIC_FORMAT\<close> and \<open>_STYLES\<close>, which
  are no levels.
\<close>

datatype logging_attribute = Level int | NoLevel

definition logging_attributes :: "(string \<times> logging_attribute) list" where
  "logging_attributes =
     [(''CRITICAL'', Level 50), (''FATAL'', Level 50), (''ERROR'', Level 40), (''WARNING'', Level 30), (''WARN'', Level 30),
      (''INFO'', Level 20), (''DEBUG'', Level 10), (''NOTSET'', Level 0), (''BASIC_FORMAT'', NoLevel), (''_STYLES'', NoLevel)]"

definition upper :: "string \<Rightarrow> string" where
  "upper s =
     map (\<lambda>c. if 97 \<le> (of_char c :: nat) \<and> (of_char c :: nat) \<le> 122 then char_of (of_char c - 32 :: nat) else c) s"

definition log_level_attribute :: "string \<Rightarrow> logging_attribute" where
  "log_level_attribute log_level =
     (case map_of logging_attributes (upper log_level) of None \<Rightarrow> Level 20 | Some a \<Rightarrow> a)"

text \<open>\<open>logging.basicConfig\<close> refuses what is no level; the level becomes the filter of every bound logger.\<close>

definition configure_logging :: "string \<Rightarrow> exn + int" where
  "configure_logging log_level =
     (case log_level_attribute log_level of
        Level n \<Rightarrow> Inr n
      | NoLevel \<Rightarrow> Inl (ValueErr ''Unknown level''))"

fun severity :: "log_event \<Rightarrow> int" where
  "severity (LogWarning e fs) = 30"
| "severity (LogInfo e fs) = 20"

definition emitted :: "int \<Rightarrow> log_event list \<Rightarrow> log_event list" where
  "emitted level = filter (\<lambda>e. level \<le> severity e)"

subsection \<open>main.py: the process\<close>

text \<open>The clients a process holds; each close may raise.\<close>

record clients =
  open_registry :: "registry option"
  redis_open :: bool
  engine_open :: bool

definition lifespan_shutdown ::
    "exn option \<Rightarrow> exn option \<Rightarrow> exn option \<Rightarrow> clients \<Rightarrow> (exn + log_event list) \<times> clients" where
  "lifespan_shutdown http_close redis_close engine_dispose c =
     (case (open_registry c, http_close) of
        (Some r, Some e) \<Rightarrow> (Inl e, c)
      | _ \<Rightarrow>
          (let c1 = c\<lparr>open_registry := close_registry (open_registry c)\<rparr>
           in case redis_close of
                Some e \<Rightarrow> (Inl e, c1)
              | None \<Rightarrow>
                  (let c2 = c1\<lparr>redis_open := False\<rparr>
                   in case engine_dispose of
                        Some e \<Rightarrow> (Inl e, c2)
                      | None \<Rightarrow> (Inr [LogInfo ''shutdown_complete'' []], c2\<lparr>engine_open := False\<rparr>))))"

text \<open>\<open>run\<close>: \<open>uvicorn\<close> is the server, given the application's name, host and port.\<close>

definition run_server :: "process_settings \<Rightarrow> (string \<Rightarrow> string \<Rightarrow> int \<Rightarrow> 'a) \<Rightarrow> exn + 'a" where
  "run_server s uvicorn =
     (case configure_logging (LOG_LEVEL s) of
        Inl e \<Rightarrow> Inl e
      | Inr level \<Rightarrow> Inr (uvicorn ''llm_gateway.main:app'' (GATEWAY_HOST s) (GATEWAY_PORT s)))"

subsection \<open>alembic/env.py\<close>

text \<open>
  \<open>config.set_main_option\<close> stores the URL in a \<open>ConfigParser\<close>, which interpolates: \<open>%%\<close> stands for a percent sign,
  \<open>%(name)s\<close> for another option, and a value with any other percent sign is refused when it is set.
\<close>

function drop_interpolations :: "string \<Rightarrow> string" where
  "drop_interpolations s =
     (case s of
        [] \<Rightarrow> []
      | c # cs \<Rightarrow>
          let name = takeWhile (\<lambda>x. x \<noteq> CHR '')'') (tl cs); rest = dropWhile (\<lambda>x. x \<noteq> CHR '')'') (tl cs)
          in if c = CHR ''%'' \<and> cs \<noteq> [] \<and> hd cs = CHR ''('' \<and> name \<noteq> [] \<and> take 2 rest = '')s''
             then drop_interpolations (drop 2 rest)
             else c # drop_interpolations cs)"
  by pat_completeness auto
termination
proof (relation "measure length")
  show "wf (measure (length :: string \<Rightarrow> nat))" by simp
next
  fix s :: string and c cs name rest
  assume "s = c # cs" "rest = dropWhile (\<lambda>x. x \<noteq> CHR '')'') (tl cs)"
  then have "length (drop 2 rest) \<le> length cs"
    using length_dropWhile_le [of "\<lambda>x. x \<noteq> CHR '')''" "tl cs"] by simp
  then show "(drop 2 rest, s) \<in> measure length" using \<open>s = c # cs\<close> by simp
next
  fix s :: string and c cs
  assume "s = c # cs"
  then show "(cs, s) \<in> measure length" by simp
qed

declare drop_interpolations.simps [simp del]

fun drop_escapes :: "string \<Rightarrow> string" where
  "drop_escapes (c # d # s) = (if c = CHR ''%'' \<and> d = CHR ''%'' then drop_escapes s else c # drop_escapes (d # s))"
| "drop_escapes s = s"

definition set_main_option :: "string \<Rightarrow> exn + string" where
  "set_main_option value =
     (if CHR ''%'' \<in> set (drop_interpolations (drop_escapes value)) then Inl (ValueErr ''invalid interpolation syntax'')
      else Inr value)"

text \<open>
  A migration context on a URL or on a connection; \<open>mc_script\<close> is the SQL text emitted without a connection.
  \<open>body\<close> is what alembic runs: \<open>None\<close>, or the exception that broke it off, and what it made of the database until then.
\<close>

record migration_context =
  mc_url :: "string option"
  mc_literal_binds :: bool
  mc_paramstyle :: "string option"

definition run_migrations_offline :: "(migration_context \<Rightarrow> exn option \<times> string) \<Rightarrow> string \<Rightarrow> exn option \<times> string" where
  "run_migrations_offline emit url = emit \<lparr>mc_url = Some url, mc_literal_binds = True, mc_paramstyle = Some ''named''\<rparr>"

record engine =
  eng_db :: database
  eng_connected :: bool
  eng_disposed :: bool

definition in_transaction :: "(database \<Rightarrow> exn option \<times> database) \<Rightarrow> database \<Rightarrow> exn option \<times> database" where
  \<comment> \<open>\<open>with context.begin_transaction()\<close> over a database whose schema changes are transactional\<close>
  "in_transaction body d = (case body d of (None, d1) \<Rightarrow> (None, d1) | (Some e, d1) \<Rightarrow> (Some e, d))"

definition run_migrations_online ::
    "exn option \<Rightarrow> (database \<Rightarrow> exn option \<times> database) \<Rightarrow> engine \<Rightarrow> exn option \<times> engine" where
  "run_migrations_online connect body g =
     (case connect of
        Some e \<Rightarrow> (Some e, g)
      | None \<Rightarrow>
          (case in_transaction body (eng_db g) of
             (Some e, d) \<Rightarrow> (Some e, g\<lparr>eng_db := d, eng_connected := False\<rparr>)
           | (None, d) \<Rightarrow> (None, g\<lparr>eng_db := d, eng_connected := False, eng_disposed := True\<rparr>)))"

text \<open>The module: the URL of the settings, then one of the two modes; \<open>lookup\<close> is what the parser reads back.\<close>

definition alembic_env ::
    "process_settings \<Rightarrow> bool \<Rightarrow> (string \<Rightarrow> string) \<Rightarrow> (migration_context \<Rightarrow> exn option \<times> string) \<Rightarrow> exn option \<Rightarrow>
     (database \<Rightarrow> exn option \<times> database) \<Rightarrow> engine \<Rightarrow> exn option \<times> string \<times> engine" where
  "alembic_env s offline lookup emit connect body g =
     (case set_main_option (DATABASE_URL s) of
        Inl e \<Rightarrow> (Some e, [], g)
      | Inr url \<Rightarrow>
          (if offline then (case run_migrations_offline emit (lookup url) of (x, script) \<Rightarrow> (x, script, g))
           else (case run_migrations_online connect body g of (x, g1) \<Rightarrow> (x, [], g1))))"

subsection \<open>Lemmas\<close>

text \<open>Any setting but the two names that are no levels gives a level; an unknown one is \<open>INFO\<close>.\<close>

lemma unknown_level: "upper l \<notin> fst ` set logging_attributes \<Longrightarrow> configure_logging l = Inr 20"
  by (simp add: configure_logging_def log_level_attribute_def map_of_eq_None_iff [symmetric])

lemma level_is_configured:
  "(\<exists>n. configure_logging l = Inr n) \<longleftrightarrow> upper l \<noteq> ''BASIC_FORMAT'' \<and> upper l \<noteq> ''_STYLES''"
  by (simp add: configure_logging_def log_level_attribute_def logging_attributes_def)

text \<open>The end of the startup is logged at level \<open>INFO\<close> and below only.\<close>

lemma startup_logged:
  assumes "lifespan_startup s ping query get = Inr es"
  shows "(\<exists>fs. LogInfo ''startup_complete'' fs \<in> set (emitted n es)) \<longleftrightarrow> n \<le> 20"
proof -
  have "\<exists>fs. LogInfo ''startup_complete'' fs \<in> set es"
    using assms by (cases "fst (redis_healthcheck ping)") (auto simp: lifespan_startup_def Let_def)
  then show ?thesis by (auto simp: emitted_def)
qed

text \<open>A shutdown is complete when everything is closed; a client whose close fails keeps the later ones open.\<close>

lemma shutdown_complete:
  "lifespan_shutdown h r e c = (Inr es, c') \<Longrightarrow>
     open_registry c' = None \<and> \<not> redis_open c' \<and> \<not> engine_open c' \<and> es = [LogInfo ''shutdown_complete'' []]"
  by (auto simp: lifespan_shutdown_def close_registry_def Let_def split: option.splits)

lemma shutdown_broken:
  "lifespan_shutdown h r e c = (Inl x, c') \<Longrightarrow> engine_open c' = engine_open c"
  by (auto simp: lifespan_shutdown_def Let_def split: option.splits)

text \<open>A URL without percent signs is stored; one with a percent-encoded character is refused, and nothing is migrated.\<close>

lemma drop_escapes_plain: "CHR ''%'' \<notin> set s \<Longrightarrow> drop_escapes s = s"
  by (induction s rule: drop_escapes.induct) auto

lemma drop_interpolations_plain: "CHR ''%'' \<notin> set s \<Longrightarrow> drop_interpolations s = s"
  by (induction s) (auto simp: drop_interpolations.simps [of "[]"] drop_interpolations.simps [of "_ # _"] Let_def)

lemma plain_url_stored: "CHR ''%'' \<notin> set url \<Longrightarrow> set_main_option url = Inr url"
  by (simp add: set_main_option_def drop_escapes_plain drop_interpolations_plain)

lemma drop_escapes_single:
  "CHR ''%'' \<notin> set a \<Longrightarrow> CHR ''%'' \<notin> set (c # b) \<Longrightarrow> drop_escapes (a @ CHR ''%'' # c # b) = a @ CHR ''%'' # c # b"
proof (induction a)
  case (Cons x a)
  then show ?case by (cases a) auto
qed (auto simp: drop_escapes_plain)

lemma drop_interpolations_keeps:
  "CHR ''%'' \<notin> set a \<Longrightarrow> c \<noteq> CHR ''('' \<Longrightarrow> CHR ''%'' \<in> set (drop_interpolations (a @ CHR ''%'' # c # b))"
  by (induction a) (auto simp: drop_interpolations.simps [of "_ # _"] Let_def)

lemma encoded_url_refused:
  assumes "DATABASE_URL s = a @ CHR ''%'' # c # b" and "CHR ''%'' \<notin> set a" and "CHR ''%'' \<notin> set (c # b)" and "c \<noteq> CHR ''(''"
  shows "alembic_env s offline lookup emit connect body g = (Some (ValueErr ''invalid interpolation syntax''), [], g)"
  using drop_interpolations_keeps [OF assms(2,4), of b] drop_escapes_single [OF assms(2,3)]
  by (simp add: alembic_env_def set_main_option_def assms(1))

text \<open>A migration that fails leaves the database as it was; one that succeeds brings it to the head revision.\<close>

definition upgrade_body :: "string option \<Rightarrow> (database \<Rightarrow> exn \<times> database) \<Rightarrow> database \<Rightarrow> exn option \<times> database" where
  "upgrade_body cur broken d =
     (case upgrade_head cur d of
        Some d1 \<Rightarrow> (None, d1)
      | None \<Rightarrow> (case broken d of (e, d1) \<Rightarrow> (Some e, d1)))"

lemma env_upgrades:
  assumes "CHR ''%'' \<notin> set (DATABASE_URL s)" and "alembic_env s False lookup emit None (upgrade_body cur broken) g = (x, script, g')"
  shows "eng_db g' = (case upgrade_head cur (eng_db g) of None \<Rightarrow> eng_db g | Some d \<Rightarrow> d)"
    and "x = None \<longleftrightarrow> upgrade_head cur (eng_db g) \<noteq> None" and "\<not> eng_connected g'"
    and "eng_disposed g' \<longleftrightarrow> eng_disposed g \<or> x = None"
  using assms(2)
  by (auto simp: alembic_env_def plain_url_stored [OF assms(1)] run_migrations_online_def in_transaction_def upgrade_body_def
      split: option.splits prod.splits)

end
