(* ===== verification/Spec2Isabelle.thy ===== *)
theory Spec2Isabelle
  imports Cluster Anthropic Cli Process_Lifecycle
begin

text \<open>
  Verification library of the LLM gateway.

  The gateway is an HTTP service that gives the holders of virtual keys one OpenAI-style chat-completions endpoint
  over several upstream providers.  A request is authenticated, rate-limited against Redis and held below spend
  caps that are sums over the usage table; it is then answered from the cache, from another request's
  running call, or by the first provider in order that does not fail; what it cost is written in the background.
  The development models the Python package \<open>src/src/llm_gateway\<close> and the migrations of \<open>src/alembic\<close>.


  The theories, in the order they build on each other (files below \<open>src/src/llm_gateway\<close>):

  Language and standard library.
    \<open>Gateway_Prelude\<close>: exceptions as sums with their sequencing, folds that stop at an exception, string methods.
    \<open>Py_Numbers\<close>: decimal notation of integers, 28-digit decimal arithmetic with its rounding, float texts.
    \<open>Json_Text\<close>: \<open>json.dumps\<close> and \<open>json.loads\<close>; reading back what was written (locale \<open>json_codec\<close>).
    \<open>Py_Dynamic\<close>: subscripts, \<open>.get\<close>, truth and iteration of decoded values, each with the exception it raises.

  Data.
    \<open>Core_Errors\<close>: \<open>core/exceptions.py\<close> and the error mapping of \<open>providers/base.py\<close>; every raise of the code is a value
    of type \<open>exn\<close>.  \<open>Core_Config\<close>: \<open>core/config.py\<close>.  \<open>Api_Models\<close>: \<open>models/*.py\<close>, requests and responses with every bound.

  Routing and providers.
    \<open>Provider_Registry\<close> (\<open>providers/factory.py\<close>): the shipped models and prices, the registry as an ordered dict.
    \<open>Routing\<close> (\<open>services/router.py\<close>, \<open>routers/models.py\<close>): the candidates of a model, the model endpoints.
    \<open>Fallback\<close> (\<open>services/fallback.py\<close>, the generator of \<open>services/streaming.py\<close>): the chain of providers over a world that
    the calls thread; the first success, the error that names all failures, and one source for a streamed answer.
    \<open>Adapters\<close> (\<open>providers/base.py\<close>, \<open>openai.py\<close>, \<open>mistral.py\<close>) and \<open>Anthropic\<close> (\<open>providers/anthropic.py\<close>): payloads, translation of
    bodies, the state machine that translates an event stream, and which exceptions can escape.

  Accounting.
    \<open>Usage_Metrics\<close> (\<open>services/metrics.py\<close>, \<open>prometheus_metrics.py\<close>): the cost of a request, the bounded label catalogue.
    \<open>Storage\<close> (\<open>storage/orm.py\<close>, \<open>repositories.py\<close>): tables as row lists and every repository function; the histories of
    writes \<open>db_run\<close> with their invariant \<open>db_ok\<close>; the ledgers of the spend (locale \<open>spend_ledger\<close>).
    \<open>Spend\<close> (\<open>services/usage.py\<close>, \<open>routers/usage.py\<close>, the cap of \<open>routers/chat.py\<close>): queued tasks and the cap.
    \<open>Security\<close> (\<open>core/security.py\<close>, \<open>routers/keys.py\<close>, \<open>cli.py\<close>) and \<open>Cli\<close>: the life of a virtual key.
    \<open>Migrations\<close> (\<open>alembic/versions\<close>, \<open>storage/orm.py\<close>): revisions as lists of statements over databases with rows.

  Redis.
    \<open>Redis_Service\<close>: the client as a function from a pipeline to its replies, what Redis documents of the commands used
    (locale \<open>redis_service\<close>) and an in-memory Redis that satisfies it.
    \<open>Rate_Limiter\<close> (\<open>core/rate_limiter.py\<close>), \<open>Response_Cache\<close> (\<open>services/cache.py\<close>): on top of it; both have a transition
    system in which any number of clients interleave.

  Requests.
    \<open>Gateway\<close> (\<open>services/gateway.py\<close>): \<open>handle_chat_completion\<close> cut into the segments between its awaits (\<open>advance\<close>),
    run by itself (\<open>drive\<close>).  \<open>Single_Flight\<close>: requests of one process interleaving these segments (\<open>gw_step\<close>), and
    cancellation (\<open>gw_cancel\<close>); the invariant \<open>gw_inv\<close> ties the futures, their owners and followers together.
    \<open>Streaming\<close> (\<open>services/streaming.py\<close>): the accumulator as a refinement of an abstract reply (\<open>spec_reply\<close>).
    \<open>Chat_Route\<close> (\<open>routers/chat.py\<close>): admission, errors, the streaming generator and its early close.
    \<open>Http_App\<close> (\<open>main.py\<close>, \<open>core/logging.py\<close>, \<open>routers/health.py\<close>, \<open>metrics.py\<close>): middlewares and exception handlers around a
    route, probes.
    \<open>Request_Body\<close> (\<open>ChatRequest\<close> of \<open>models/api.py\<close>): the schema a decoded body is checked against, field by field with every
    report, and what its validators raise.  \<open>Chat_Http\<close>: \<open>chat_http\<close>, the chat endpoint from the body that was read through the
    dependencies, the schema, the route and the middlewares, and what a client sees of refusals and answers.
    \<open>Logs_Http\<close> (\<open>routers/logs.py\<close>): the query parameters as a schema, and the page they ask for.
    \<open>Admin_Http\<close> (\<open>routers/keys.py\<close>, \<open>usage.py\<close>, \<open>models.py\<close>): the other routes in the same way, with the schema of a new key's body.
    \<open>Application\<close> (\<open>create_app\<close> of \<open>main.py\<close>): the table of all routes, and \<open>app_http\<close>, any request from its method and path to
    its response and the state it leaves.

  The process.
    \<open>Process_Lifecycle\<close> (\<open>core/logging.py\<close>, \<open>main.py\<close>, \<open>alembic/env.py\<close>): the log level and what it lets through, the
    shutdown, the server command, and the migrations run against the configured database, offline or online.

  The whole.
    \<open>Stream_Tasks\<close>: a streamed answer in the segments between its awaits (\<open>stream_advance\<close>).
    \<open>Service\<close>: one process with its requests, its queue of background writes and the database as a step relation
    (\<open>service_step\<close>): the dependencies one by one, segments of answers and of streams, disconnects, cancellations, failures,
    writes, administration, restarts, all interleaved.  \<open>Service_Runs\<close>: requests that run undisturbed, as such steps.
    \<open>Service_Ledger\<close>: what holds of every run; the balance of records, queue and database, and keys that are locked out
    (locale \<open>lockout\<close>, interpreted for both spend caps and for revocations).
    \<open>Http_Refinement\<close>: every request \<open>app_http\<close> answers is a run of \<open>service_step\<close>, so what holds of the service holds of what
    clients see.  \<open>Answer_Origin\<close>: where the answers of a process come from (\<open>step_own\<close>), given a store of answers (locale
    \<open>answer_store\<close>); \<open>Redis_Answers\<close>: Redis is one (locale \<open>redis_answers\<close>, interpreted on the in-memory Redis).
    \<open>Cluster\<close>: replicas of the service on one database and one outside world (\<open>cluster_step\<close>); the books, the lockouts and the
    origin of answers over all of them.  What a service has delivered is a list of \<open>delivery\<close> values that carry the provider
    an answer or its lines came from, if any was called; \<open>bill\<close> computes the records each of them has to have.


  What the properties show, by part.
    Answers: the right candidates in the right order, every outcome of the fallback chain and of a stream, the same
    answer whether accumulated from a stream or replayed from the cache, and how far an Anthropic body and the same answer
    streamed agree (the body keeps the first text block only).
    Money: exact costs, a cap that is exact and stays reached, one record for each answer and stream, equal usage for billing
    and caching; in every run of any number of replicas every delivery is settled by its own bill (\<open>settles\<close>) and the books
    balance, and what a key gets beyond its cap is bounded.
    Isolation: without a key nothing can be changed and the routes other than the probes show nothing, a request acts only as the
    key it proves, a revoked key gets nothing more, cache entries are not shared between keys and no replica delivers an answer that was obtained for another key, every error has the same form and carries the request's id.
    Concurrency: a bound on the requests admitted by a count in every window (those that RATE_LIMIT_FAIL_OPEN admits while Redis fails are
    apart, in \<open>rl_open\<close>), one holder of a lock, followers that get the answer to their
    own request and are never stranded without a cancellation.
    Requests: the schema accepts exactly the requests within its bounds, and what it refuses is told to the client.
    Failures: what each failure of an upstream, of Redis or of the database turns into, and that waiting ends.
  Some theorems state behaviour the program does not want: what cancellation does to followers, what an
  early disconnect costs; lemmas at the end of the theories state further ones.


  Bounds.  \<open>parse_val\<close> recurses on fuel of twice the length of the text, which is enough for every text
  (\<open>parse_val_fuel\<close>).  \<open>poll_result\<close> is a partial function: it may poll for ever for an arbitrary clock, and returns
  for a clock that advances (\<open>wait_for_result_returns\<close>).  \<open>drive\<close> stops after finitely many segments, since each lowers the
  rank of the program point; a request run by itself that waits for another one's future stays blocked, which is the value
  \<open>None\<close> of \<open>handle_chat_completion\<close>.  \<open>upgrade_path\<close> follows at most
  as many links as there are revisions.


  Interleaving.  A step of \<open>Service\<close> is what the code does between two awaits on state that others share: one dependency, one
  read of a cap, one segment.  A call of the providers is one step (what others do to the outside world meanwhile are steps
  before or after it), and so is one Redis pipeline with its rollback; \<open>Rate_Limiter\<close> takes the latter apart.  In
  \<open>Cluster\<close> a step is one of any replica on the database and the world the others have left.


  Not modelled.  FastAPI, Starlette, pydantic, SQLAlchemy, alembic, httpx, redis, structlog and prometheus_client are
  libraries: what the code gets from them (HTTP outcomes, replies, coerced numbers, header mappings, digests, clocks,
  tokens, assigned ids) is an argument of the definitions, and what it relies on is a named
  hypothesis (\<open>redis_documented\<close>, \<open>sql_ok\<close>, \<open>headers_ok\<close>, \<open>finds_first\<close>, ...), with an instance that satisfies it.  Reading the
  environment, the argparse declarations, engine and pool creation, log rendering and static files are calls of those libraries.
  Characters are code points below 256; float literals keep their text, with a value where one is needed (a request
  has no NaN or infinite number); the digit limit of \<open>int\<close> is ignored.  A stream whose consumer stops early is followed up
  to the line it received last; what closing the upstream connection does is not.  The exposition text of the metrics is the library's.
\<close>

end
